(* ===== verification/Prelude.thy ===== *)
theory Prelude
  imports Main "HOL-Library.Word"
begin

text \<open>
  The prelude of the development: the machine integers of \<^verbatim>\<open>kernel/types.h\<close>, the type of kernel
  programs with its combinators, and the rely-style Hoare predicate that the components share.

  A kernel function of the C code is a function from the kernel state to a \<open>kprog\<close>, a possibly
  infinite tree. \<open>Ret\<close> is the return, \<open>Panic\<close> a call of \<^verbatim>\<open>panic\<close> (which never returns), \<open>Diverge\<close> a
  loop that never ends without touching anything another hart can see, and \<open>Wait\<close> a point where
  the code stops until another hart or process has acted: a failed test-and-set of a spinlock, a
  \<^verbatim>\<open>swtch\<close> to the scheduler, a poll of a device register. The third argument of \<open>Wait\<close> is the rest
  of the program, applied to the state the others have left. So the loops around \<^verbatim>\<open>sleep\<close> are
  modelled as they are written: after a wakeup the condition is tested again on the new state.
\<close>

unbundle bit_operations_syntax

subsection \<open>Machine integers (kernel/types.h)\<close>

type_synonym u8 = "8 word"
type_synonym u16 = "16 word"
type_synonym u32 = "32 word"
type_synonym u64 = "64 word"

named_theorems kdefs \<open>definitions of straight-line kernel programs\<close>
named_theorems kexec \<open>evaluation rules of kernel programs on the path without waiting\<close>

lemma unat_lt2p: "unat (w :: 'a::len word) < 2 ^ LENGTH('a)"
  by (rule unsigned_less)

subsection \<open>Kernel programs\<close>

datatype wait_event = Spinning | Switched | Polling

codatatype ('s, 'a) kprog =
    Ret 'a 's
  | Panic string 's
  | Diverge
  | Wait wait_event 's "'s \<Rightarrow> ('s, 'a) kprog"

type_synonym ('s, 'a) kfun = "'s \<Rightarrow> ('s, 'a) kprog"

primcorec tbind :: "('s, 'a) kprog \<Rightarrow> ('a \<Rightarrow> ('s, 'b) kfun) \<Rightarrow> ('s, 'b) kprog" where
  "tbind t f = (case t of
      Ret a s \<Rightarrow> f a s
    | Panic e s \<Rightarrow> Panic e s
    | Diverge \<Rightarrow> Diverge
    | Wait w s k \<Rightarrow> Wait w s (\<lambda>s'. tbind (k s') f))"

lemma tbind_simps [simp]:
  "tbind (Ret a s) f = f a s"
  "tbind (Panic e s) f = Panic e s"
  "tbind Diverge f = Diverge"
  "tbind (Wait w s k) f = Wait w s (\<lambda>s'. tbind (k s') f)"
  by (subst tbind.code, simp)+

definition kret :: "'a \<Rightarrow> ('s, 'a) kfun" where
  "kret a s = Ret a s"

definition kbind :: "('s, 'a) kfun \<Rightarrow> ('a \<Rightarrow> ('s, 'b) kfun) \<Rightarrow> ('s, 'b) kfun" where
  "kbind m f s = tbind (m s) f"

definition kseq :: "('s, 'a) kfun \<Rightarrow> ('s, 'b) kfun \<Rightarrow> ('s, 'b) kfun" where
  "kseq m m' s = tbind (m s) (\<lambda>_. m')"

definition gets :: "('s \<Rightarrow> 'a) \<Rightarrow> ('s, 'a) kfun" where
  "gets f s = Ret (f s) s"

definition modify :: "('s \<Rightarrow> 's) \<Rightarrow> ('s, unit) kfun" where
  "modify g s = Ret () (g s)"

definition panic :: "string \<Rightarrow> ('s, 'a) kfun" where
  "panic e s = Panic e s"

definition kskip :: "('s, unit) kfun" where
  "kskip s = Ret () s"

definition kwhen :: "bool \<Rightarrow> ('s, unit) kfun \<Rightarrow> ('s, unit) kfun" where
  "kwhen b m = (if b then m else kskip)"

text \<open>A loop over a table whose body does not leave it early.\<close>

primrec for_each :: "'x list \<Rightarrow> ('x \<Rightarrow> ('s, unit) kfun) \<Rightarrow> ('s, unit) kfun" where
  "for_each [] body = kskip"
| "for_each (x # xs) body = kseq (body x) (for_each xs body)"

text \<open>A loop over a table whose body may \<^verbatim>\<open>return\<close> (or \<^verbatim>\<open>break\<close>, \<^verbatim>\<open>goto\<close>) out of it with a value.\<close>

primrec for_first :: "'x list \<Rightarrow> ('x \<Rightarrow> ('s, 'r option) kfun) \<Rightarrow> ('s, 'r option) kfun" where
  "for_first [] body = kret None"
| "for_first (x # xs) body =
     kbind (body x) (\<lambda>r. case r of None \<Rightarrow> for_first xs body | Some v \<Rightarrow> kret (Some v))"

text \<open>
  A loop whose rounds carry the local variables \<open>v\<close>: a round returns \<open>Inl v'\<close> to go round again and \<open>Inr a\<close> to leave
  with \<open>a\<close>. Rounds that go round again without waiting are run by \<open>settle\<close>; if there is no end to them no other hart
  can end the loop, and it diverges. \<open>kloop\<close> is a loop without local variables.
\<close>

partial_function (option) settle ::
  "('v \<Rightarrow> ('s, 'v + 'a) kfun) \<Rightarrow> ('s, 'v + 'a) kprog \<Rightarrow> ('s, 'v + 'a) kprog option" where
  "settle body t = (case t of
      Ret r s \<Rightarrow> (case r of Inl v \<Rightarrow> settle body (body v s) | Inr a \<Rightarrow> Some (Ret (Inr a) s))
    | Panic e s \<Rightarrow> Some (Panic e s)
    | Diverge \<Rightarrow> Some Diverge
    | Wait w s k \<Rightarrow> Some (Wait w s k))"

primcorec iterate :: "('v \<Rightarrow> ('s, 'v + 'a) kfun) \<Rightarrow> ('s, 'v + 'a) kprog \<Rightarrow> ('s, 'a) kprog" where
  "iterate body t = (case settle body t of
      None \<Rightarrow> Diverge
    | Some t' \<Rightarrow> (case t' of
          Ret r s \<Rightarrow> (case r of Inl v \<Rightarrow> Diverge | Inr a \<Rightarrow> Ret a s)
        | Panic e s \<Rightarrow> Panic e s
        | Diverge \<Rightarrow> Diverge
        | Wait w s k \<Rightarrow> Wait w s (\<lambda>x. iterate body (k x))))"

definition kwhile :: "('v \<Rightarrow> ('s, 'v + 'a) kfun) \<Rightarrow> 'v \<Rightarrow> ('s, 'a) kfun" where
  "kwhile body v s = iterate body (Ret (Inl v) s)"

definition again :: "'v \<Rightarrow> ('s, 'v + 'a) kfun" where
  "again v = (\<lambda>s. Ret (Inl v) s)"

definition leave :: "'a \<Rightarrow> ('s, 'v + 'a) kfun" where
  "leave a = (\<lambda>s. Ret (Inr a) s)"

definition kloop :: "('s, 'a option) kfun \<Rightarrow> ('s, 'a) kfun" where
  "kloop body = kwhile (\<lambda>_ s. tbind (body s) (\<lambda>r. case r of None \<Rightarrow> again () | Some a \<Rightarrow> leave a)) ()"

text \<open>A pure loop that may not end: no value means that it runs forever.\<close>

definition of_loop :: "'a option \<Rightarrow> ('s, 'a) kfun" where
  "of_loop r s = (case r of None \<Rightarrow> Diverge | Some a \<Rightarrow> Ret a s)"

lemmas kprim = kret_def kbind_def kseq_def gets_def modify_def panic_def kskip_def

declare kret_def [simp] kbind_def [simp] kseq_def [simp] gets_def [simp] modify_def [simp]
  panic_def [simp] kskip_def [simp]

lemma kwhen_simps [simp]: "kwhen True m = m" "kwhen False m = kskip"
  by (simp_all add: kwhen_def)

lemma kwhen_apply: "kwhen b m s = (if b then m s else Ret () s)"
  by (simp add: kwhen_def)

lemma of_loop_Some [simp]: "of_loop (Some a) s = Ret a s"
  by (simp add: of_loop_def)

lemma if_app: "(if b then f else g) x = (if b then f x else g x)"
  by simp

lemma tbind_Ret_iff:
  "tbind t f = Ret b s' \<longleftrightarrow> (\<exists>a s. t = Ret a s \<and> f a s = Ret b s')"
  by (cases t) auto

lemma tbind_Panic_iff:
  "tbind t f = Panic e s' \<longleftrightarrow> t = Panic e s' \<or> (\<exists>a s. t = Ret a s \<and> f a s = Panic e s')"
  by (cases t) auto

text \<open>The monad laws.\<close>

lemma tbind_Ret_right: "tbind t (\<lambda>a s. Ret a s) = t"
  by (coinduction arbitrary: t) (case_tac t, auto simp: rel_fun_def)

lemma tbind_assoc: "tbind (tbind t f) g = tbind t (\<lambda>a s. tbind (f a s) g)"
proof (coinduction arbitrary: t rule: kprog.coinduct_strong)
  case (Eq_kprog t)
  then show ?case by (cases t) (auto simp: rel_fun_def)
qed

lemma for_each_append:
  "for_each (xs @ ys) body s = tbind (for_each xs body s) (\<lambda>_. for_each ys body)"
proof (induction xs arbitrary: s)
  case (Cons x xs)
  then have "for_each (xs @ ys) body = (\<lambda>s. tbind (for_each xs body s) (\<lambda>_. for_each ys body))"
    by (simp add: fun_eq_iff)
  then show ?case by (simp add: tbind_assoc)
qed simp

text \<open>A loop whose body returns on every element runs like a fold over the states.\<close>

lemma for_each_fold:
  assumes "\<And>x s. x \<in> set xs \<Longrightarrow> P s \<Longrightarrow> body x s = Ret () (g x s) \<and> P (g x s)"
    and "P s"
  shows "for_each xs body s = Ret () (fold g xs s) \<and> P (fold g xs s)"
  using assms by (induction xs arbitrary: s) auto

lemma for_each_cong_body:
  assumes "\<And>x. x \<in> set xs \<Longrightarrow> body x = body' x"
  shows "for_each xs body = for_each xs body'"
  using assms
proof (induction xs)
  case (Cons x xs)
  then have "body x = body' x" "for_each xs body = for_each xs body'" by simp_all
  then show ?case by simp
qed simp

text \<open>Unfolding a loop.\<close>

lemma settle_simps:
  "settle body (Ret (Inr a) s) = Some (Ret (Inr a) s)" "settle body (Panic e s) = Some (Panic e s)"
  "settle body Diverge = Some Diverge" "settle body (Wait w s k) = Some (Wait w s k)"
  "settle body (Ret (Inl v) s) = settle body (body v s)"
  by (subst settle.simps, simp)+

lemma iterate_simps:
  "iterate body (Ret (Inr a) s) = Ret a s" "iterate body (Panic e s) = Panic e s"
  "iterate body Diverge = Diverge" "iterate body (Wait w s k) = Wait w s (\<lambda>x. iterate body (k x))"
  by (subst iterate.code, simp add: settle_simps)+

lemma iterate_Inl: "iterate body (Ret (Inl v) s) = iterate body (body v s)"
  by (subst (1 2) iterate.code) (simp add: settle_simps)

lemma again_leave [simp]: "again v s = Ret (Inl v) s" "leave a s = Ret (Inr a) s"
  by (simp_all add: again_def leave_def)

lemma iterate_tbind:
  "iterate body t = tbind t (\<lambda>r. case r of Inl v \<Rightarrow> kwhile body v | Inr a \<Rightarrow> kret a)"
proof (coinduction arbitrary: t rule: kprog.coinduct_strong)
  case (Eq_kprog t)
  then show ?case
    by (cases t) (auto simp: iterate_simps settle_simps kwhile_def rel_fun_def split: sum.split)
qed

lemma kwhile_step:
  "kwhile body v s = tbind (body v s) (\<lambda>r. case r of Inl v' \<Rightarrow> kwhile body v' | Inr a \<Rightarrow> kret a)"
  by (simp only: kwhile_def iterate_Inl flip: iterate_tbind)

lemma kloop_step:
  "kloop body s = tbind (body s) (\<lambda>r. case r of None \<Rightarrow> kloop body | Some a \<Rightarrow> kret a)"
proof -
  let ?b = "\<lambda>_ s. tbind (body s) (\<lambda>r. case r of None \<Rightarrow> again () | Some a \<Rightarrow> leave a)"
  have "kwhile ?b = (\<lambda>_. kloop body)" by (rule ext) (simp add: kloop_def)
  then have "kloop body s = tbind (body s) (\<lambda>r s. tbind ((case r of None \<Rightarrow> again () | Some a \<Rightarrow> leave a) s)
      (\<lambda>r. case r of Inl v' \<Rightarrow> kloop body | Inr a \<Rightarrow> kret a))"
    using kwhile_step [of ?b "()" s] by (simp add: tbind_assoc)
  moreover have "(\<lambda>s. tbind ((case r of None \<Rightarrow> again () | Some a \<Rightarrow> leave a) s)
      (\<lambda>r. case r of Inl v' \<Rightarrow> kloop body | Inr a \<Rightarrow> kret a)) = (case r of None \<Rightarrow> kloop body | Some a \<Rightarrow> kret a)" for r
    by (cases r) (simp_all add: fun_eq_iff)
  ultimately show ?thesis by simp
qed

subsection \<open>Partial correctness under interference\<close>

text \<open>
  \<open>hoare R Q t\<close>: whatever the other harts and processes do at each waiting point, as long as
  their joint action is in the rely \<open>R\<close>, the program \<open>t\<close> neither panics nor diverges, and if it
  returns then its result and final state satisfy \<open>Q\<close>.
\<close>

coinductive hoare :: "(wait_event \<Rightarrow> 's \<Rightarrow> 's \<Rightarrow> bool) \<Rightarrow> ('a \<Rightarrow> 's \<Rightarrow> bool) \<Rightarrow> ('s, 'a) kprog \<Rightarrow> bool"
  for R Q where
  hoare_Ret: "Q a s \<Longrightarrow> hoare R Q (Ret a s)"
| hoare_Wait: "(\<And>s'. R w s s' \<Longrightarrow> hoare R Q (k s')) \<Longrightarrow> hoare R Q (Wait w s k)"

inductive_simps hoare_Ret_simp [simp]: "hoare R Q (Ret a s)"
inductive_simps hoare_Panic_simp [simp]: "hoare R Q (Panic e s)"
inductive_simps hoare_Diverge_simp [simp]: "hoare R Q Diverge"
inductive_simps hoare_Wait_simp [simp]: "hoare R Q (Wait w s k)"

lemma hoare_tbind:
  assumes "hoare R Q' t" and "\<And>a s. Q' a s \<Longrightarrow> hoare R Q (f a s)"
  shows "hoare R Q (tbind t f)"
  using assms(1)
proof (coinduction arbitrary: t)
  case hoare
  then show ?case
  proof (cases t)
    case (Ret a s)
    with hoare assms(2) have "hoare R Q (f a s)" by simp
    with Ret show ?thesis by (auto elim: hoare.cases)
  qed auto
qed

lemma hoare_mono: "hoare R Q t \<Longrightarrow> (\<And>a s. Q a s \<Longrightarrow> Q' a s) \<Longrightarrow> hoare R Q' t"
  using hoare_tbind [of R Q t Q' "\<lambda>a s. Ret a s"] by (simp add: tbind_Ret_right)

lemma hoare_rely_mono:
  assumes "hoare R Q t" and "\<And>w s s'. R' w s s' \<Longrightarrow> R w s s'"
  shows "hoare R' Q t"
  using assms(1)
proof (coinduction arbitrary: t)
  case hoare
  then show ?case using assms(2) by (cases t) auto
qed

text \<open>The rule for loops: an invariant of the variables and states with which a round begins, and a measure that
  decreases in every round that does not wait.\<close>

abbreviation round_post :: "('v \<Rightarrow> 's \<Rightarrow> bool) \<Rightarrow> ('a \<Rightarrow> 's \<Rightarrow> bool) \<Rightarrow> 'v + 'a \<Rightarrow> 's \<Rightarrow> bool" where
  "round_post I Q \<equiv> (\<lambda>r s'. case r of Inl v \<Rightarrow> I v s' | Inr a \<Rightarrow> Q a s')"

lemma settle_ends:
  assumes "\<And>v s. I v s \<Longrightarrow> hoare R (round_post I Q) (body v s)"
    and "\<And>v s v' s'. I v s \<Longrightarrow> body v s = Ret (Inl v') s' \<Longrightarrow> m v' s' < (m v s :: nat)"
    and "I v s"
  shows "\<exists>t'. settle body (body v s) = Some t' \<and> hoare R (round_post I Q) t' \<and> (\<forall>v s. t' \<noteq> Ret (Inl v) s)"
  using assms(3)
proof (induction "m v s" arbitrary: v s rule: less_induct)
  case less
  have h: "hoare R (round_post I Q) (body v s)" using assms(1) less.prems .
  show ?case
  proof (cases "body v s")
    case (Ret r s')
    show ?thesis
    proof (cases r)
      case (Inl v')
      then have "I v' s'" "m v' s' < m v s" using h Ret assms(2) [OF less.prems] by auto
      from less.hyps [OF this(2,1)] show ?thesis using Ret Inl by (simp add: settle_simps)
    qed (use h Ret in \<open>simp add: settle_simps\<close>)
  qed (use h in \<open>auto simp: settle_simps\<close>)
qed

lemma hoare_kwhile:
  assumes "\<And>v s. I v s \<Longrightarrow> hoare R (round_post I Q) (body v s)"
    and "\<And>v s v' s'. I v s \<Longrightarrow> body v s = Ret (Inl v') s' \<Longrightarrow> m v' s' < (m v s :: nat)"
    and "I v s"
  shows "hoare R Q (kwhile body v s)"
proof -
  have "hoare R Q (iterate body t)" if "hoare R (round_post I Q) t" for t
    using that
  proof (coinduction arbitrary: t)
    case hoare
    have "\<exists>t'. settle body t = Some t' \<and> hoare R (round_post I Q) t' \<and> (\<forall>v s. t' \<noteq> Ret (Inl v) s)"
    proof (cases t)
      case (Ret r s)
      show ?thesis
      proof (cases r)
        case (Inl v)
        with Ret hoare have "I v s" by simp
        have "\<exists>t'. settle body (body v s) = Some t' \<and> hoare R (round_post I Q) t' \<and> (\<forall>v s. t' \<noteq> Ret (Inl v) s)"
          by (rule settle_ends [where I = I and m = m]) (use assms(1,2) \<open>I v s\<close> in blast)+
        then show ?thesis unfolding Ret Inl settle_simps .
      qed (use Ret hoare in \<open>simp add: settle_simps\<close>)
    qed (use hoare in \<open>auto simp: settle_simps\<close>)
    then obtain t' where t': "settle body t = Some t'" "hoare R (round_post I Q) t'" "\<And>v s. t' \<noteq> Ret (Inl v) s"
      by blast
    show ?case
    proof (cases t')
      case (Ret r s)
      then show ?thesis using t' by (subst (1) iterate.code, cases r) auto
    next
      case (Wait w s k)
      then have "iterate body t = Wait w s (\<lambda>x. iterate body (k x))" using t'(1) by (subst iterate.code) simp
      then show ?thesis using Wait t'(2) by auto
    qed (use t'(2) in auto)
  qed
  then show ?thesis using assms(3) by (simp add: kwhile_def)
qed

lemma hoare_kloop:
  assumes "\<And>s. I s \<Longrightarrow> hoare R (\<lambda>r s'. case r of None \<Rightarrow> I s' | Some a \<Rightarrow> Q a s') (body s)"
    and "\<And>s s'. I s \<Longrightarrow> body s = Ret None s' \<Longrightarrow> m s' < (m s :: nat)" and "I s"
  shows "hoare R Q (kloop body s)"
  unfolding kloop_def
proof (rule hoare_kwhile [where I = "\<lambda>_. I" and m = "\<lambda>_. m"])
  show "hoare R (round_post (\<lambda>_. I) Q) (tbind (body s) (\<lambda>r. case r of None \<Rightarrow> again () | Some a \<Rightarrow> leave a))"
    if "I s" for s
    by (rule hoare_tbind [OF assms(1) [OF that]]) (auto split: option.splits)
  show "m s' < m s" if "I s" and eq: "tbind (body s) (\<lambda>r. case r of None \<Rightarrow> again () | Some a \<Rightarrow> leave a) = Ret (Inl v') s'"
    for s s' and v' :: unit
    using that assms(2) [OF that(1)] by (auto simp: tbind_Ret_iff split: option.splits)
qed (rule assms(3))

end
