(* ===== verification/Cstring.thy ===== *)
theory Cstring
  imports Machine
begin

text \<open>
  The byte and string routines of \<^verbatim>\<open>kernel/string.c\<close>, loop by loop. The routines that work on
  physical memory (\<open>memset\<close>, \<open>memmove\<close>, \<open>memcpy\<close>, \<open>memcmp\<close>) take the memory and byte addresses. A string
  argument is the function from offsets to the bytes behind the pointer, so that the same
  definition serves memory pages, local arrays and the fields of records.

  Shown: \<open>memmove\<close> copies the original contents of the source whatever the overlap; \<open>strncmp\<close>
  decides equality of bounded C strings; \<open>strncpy\<close> and \<open>safestrcpy\<close> write exactly the bytes their
  contracts name and never beyond the bound; \<open>strlen\<close> returns exactly on terminated strings.
\<close>

subsection \<open>Definitions\<close>

type_synonym cptr = "nat \<Rightarrow> u8"

function memset_loop :: "memory \<Rightarrow> nat \<Rightarrow> u8 \<Rightarrow> nat \<Rightarrow> nat \<Rightarrow> memory" where
  "memset_loop m dst c n i =
     (if i < n then memset_loop (m(dst + i := c)) dst c n (Suc i) else m)"
  by pat_completeness auto
termination by (relation "measure (\<lambda>(m, dst, c, n, i). n - i)") auto

definition memset :: "memory \<Rightarrow> nat \<Rightarrow> int \<Rightarrow> nat \<Rightarrow> memory" where
  "memset m dst c n = memset_loop m dst (word_of_int c) n 0"

fun memcmp :: "memory \<Rightarrow> nat \<Rightarrow> nat \<Rightarrow> nat \<Rightarrow> int" where
  "memcmp m s1 s2 0 = 0"
| "memcmp m s1 s2 (Suc n) =
     (if m s1 \<noteq> m s2 then uint (m s1) - uint (m s2) else memcmp m (Suc s1) (Suc s2) n)"

fun copy_backward :: "memory \<Rightarrow> nat \<Rightarrow> nat \<Rightarrow> nat \<Rightarrow> memory" where
  "copy_backward m d s 0 = m"
| "copy_backward m d s (Suc n) = copy_backward (m(d - 1 := m (s - 1))) (d - 1) (s - 1) n"

fun copy_forward :: "memory \<Rightarrow> nat \<Rightarrow> nat \<Rightarrow> nat \<Rightarrow> memory" where
  "copy_forward m d s 0 = m"
| "copy_forward m d s (Suc n) = copy_forward (m(d := m s)) (Suc d) (Suc s) n"

definition memmove :: "memory \<Rightarrow> nat \<Rightarrow> nat \<Rightarrow> nat \<Rightarrow> memory" where
  "memmove m dst src n =
     (if n = 0 then m
      else if src < dst \<and> src + n > dst then copy_backward m (dst + n) (src + n) n
      else copy_forward m dst src n)"

definition memcpy :: "memory \<Rightarrow> nat \<Rightarrow> nat \<Rightarrow> nat \<Rightarrow> memory" where
  "memcpy m dst src n = memmove m dst src n"

function strncmp_loop :: "cptr \<Rightarrow> cptr \<Rightarrow> nat \<Rightarrow> nat \<Rightarrow> int" where
  "strncmp_loop p q n i =
     (if n > 0 \<and> p i \<noteq> 0 \<and> p i = q i then strncmp_loop p q (n - 1) (Suc i)
      else if n = 0 then 0
      else uint (p i) - uint (q i))"
  by pat_completeness auto
termination by (relation "measure (\<lambda>(p, q, n, i). n)") auto

definition strncmp :: "cptr \<Rightarrow> cptr \<Rightarrow> nat \<Rightarrow> int" where
  "strncmp p q n = strncmp_loop p q n 0"

function strncpy_copy :: "cptr \<Rightarrow> cptr \<Rightarrow> int \<Rightarrow> nat \<Rightarrow> cptr \<times> int \<times> nat" where
  "strncpy_copy s t n i =
     (if n > 0
      then (if t i \<noteq> 0 then strncpy_copy (s(i := t i)) t (n - 1) (Suc i)
            else (s(i := t i), n - 1, Suc i))
      else (s, n - 1, i))"
  by pat_completeness auto
termination by (relation "measure (\<lambda>(s, t, n, i). nat n)") auto

function strncpy_fill :: "cptr \<Rightarrow> int \<Rightarrow> nat \<Rightarrow> cptr" where
  "strncpy_fill s n i = (if n > 0 then strncpy_fill (s(i := 0)) (n - 1) (Suc i) else s)"
  by pat_completeness auto
termination by (relation "measure (\<lambda>(s, n, i). nat n)") auto

definition strncpy :: "cptr \<Rightarrow> cptr \<Rightarrow> int \<Rightarrow> cptr" where
  "strncpy s t n = (case strncpy_copy s t n 0 of (s', n', i) \<Rightarrow> strncpy_fill s' n' i)"

function safestrcpy_loop :: "cptr \<Rightarrow> cptr \<Rightarrow> int \<Rightarrow> nat \<Rightarrow> cptr \<times> nat" where
  "safestrcpy_loop s t n i =
     (if n - 1 > 0
      then (if t i \<noteq> 0 then safestrcpy_loop (s(i := t i)) t (n - 1) (Suc i)
            else (s(i := t i), Suc i))
      else (s, i))"
  by pat_completeness auto
termination by (relation "measure (\<lambda>(s, t, n, i). nat n)") auto

definition safestrcpy :: "cptr \<Rightarrow> cptr \<Rightarrow> int \<Rightarrow> cptr" where
  "safestrcpy s t n =
     (if n \<le> 0 then s else case safestrcpy_loop s t n 0 of (s', i) \<Rightarrow> s'(i := 0))"

partial_function (option) strlen_loop :: "cptr \<Rightarrow> nat \<Rightarrow> nat option" where
  "strlen_loop s n = (if s n \<noteq> 0 then strlen_loop s (Suc n) else Some n)"

definition strlen :: "cptr \<Rightarrow> nat option" where
  "strlen s = strlen_loop s 0"

text \<open>The bytes of a list behind a pointer, and the bounded C string behind a pointer.\<close>

definition list_ptr :: "u8 list \<Rightarrow> cptr" where
  "list_ptr bs i = (if i < length bs then bs ! i else 0)"

definition cstr :: "cptr \<Rightarrow> nat \<Rightarrow> u8 list" where
  "cstr p n = takeWhile (\<lambda>b. b \<noteq> 0) (map p [0..<n])"

declare memset_loop.simps [simp del] strncmp_loop.simps [simp del] strncpy_copy.simps [simp del]
  strncpy_fill.simps [simp del] safestrcpy_loop.simps [simp del]

subsection \<open>memset and memmove\<close>

lemma memset_loop_eq:
  "memset_loop m dst c n i = (\<lambda>x. if dst + i \<le> x \<and> x < dst + n then c else m x)"
proof (induction m dst c n i rule: memset_loop.induct)
  case (1 m dst c n i)
  show ?case
  proof (cases "i < n")
    case True
    with 1 have "memset_loop (m(dst + i := c)) dst c n (Suc i) =
      (\<lambda>x. if dst + Suc i \<le> x \<and> x < dst + n then c else (m(dst + i := c)) x)"
      by (simp add: fun_upd_def)
    with True show ?thesis by (subst memset_loop.simps) (auto simp: fun_eq_iff)
  next
    case False
    then show ?thesis by (subst memset_loop.simps) (auto simp: fun_eq_iff)
  qed
qed

lemma memset_apply:
  "memset m dst c n x = (if dst \<le> x \<and> x < dst + n then word_of_int c else m x)"
  by (simp add: memset_def memset_loop_eq)

lemma memset_outside: "x < dst \<or> dst + n \<le> x \<Longrightarrow> memset m dst c n x = m x"
  by (auto simp: memset_apply)

lemma copy_backward_apply:
  "s \<le> d \<Longrightarrow> copy_backward m (d + n) (s + n) n x = (if d \<le> x \<and> x < d + n then m (s + (x - d)) else m x)"
proof (induction n arbitrary: m)
  case (Suc n)
  have "copy_backward m (d + Suc n) (s + Suc n) (Suc n) x =
      copy_backward (m(d + n := m (s + n))) (d + n) (s + n) n x"
    by (simp add: fun_upd_def)
  also have "\<dots> = (if d \<le> x \<and> x < d + n then (m(d + n := m (s + n))) (s + (x - d))
      else (m(d + n := m (s + n))) x)"
    by (rule Suc.IH [OF Suc.prems])
  also have "\<dots> = (if d \<le> x \<and> x < d + Suc n then m (s + (x - d)) else m x)"
    using Suc.prems by (cases "x = d + n") auto
  finally show ?case .
qed auto

lemma copy_forward_apply:
  "d \<le> s \<or> s + n \<le> d \<Longrightarrow>
   copy_forward m d s n x = (if d \<le> x \<and> x < d + n then m (s + (x - d)) else m x)"
proof (induction n arbitrary: m d s)
  case (Suc n)
  have "copy_forward m d s (Suc n) x = copy_forward (m(d := m s)) (Suc d) (Suc s) n x"
    by (simp add: fun_upd_def)
  also have "\<dots> = (if Suc d \<le> x \<and> x < Suc d + n then (m(d := m s)) (Suc s + (x - Suc d))
      else (m(d := m s)) x)"
    using Suc.prems by (intro Suc.IH) auto
  also have "\<dots> = (if d \<le> x \<and> x < d + Suc n then m (s + (x - d)) else m x)"
  proof (cases "d < x \<and> x < d + Suc n")
    case True
    then obtain k where "x = d + Suc k" "k < n" by (auto dest: less_imp_Suc_add)
    with Suc.prems show ?thesis by auto
  qed auto
  finally show ?case .
qed auto

lemma memmove_eq: "memmove m dst src n = mem_write m dst (mem_read m src n)"
  by (auto simp: memmove_def copy_backward_apply copy_forward_apply mem_write_def fun_eq_iff)

lemma memcpy_eq: "memcpy m dst src n = mem_write m dst (mem_read m src n)"
  by (simp add: memcpy_def memmove_eq)

text \<open>C22: \<open>memmove\<close> copies the \<open>n\<close> bytes that were at the source before the call to the destination, and
  changes nothing else, for every overlap of the two ranges: the backward loop is taken exactly
  when copying forward would read bytes already overwritten.
\<close>

theorem memmove_correct: "memmove m dst src n = mem_write m dst (mem_read m src n)"
  by (rule memmove_eq)

lemma memcmp_0_iff: "memcmp m a b n = 0 \<longleftrightarrow> mem_read m a n = mem_read m b n"
proof (induction m a b n rule: memcmp.induct)
  case (2 m s1 s2 n)
  have "mem_read m s1 (Suc n) = m s1 # mem_read m (Suc s1) n"
       "mem_read m s2 (Suc n) = m s2 # mem_read m (Suc s2) n"
    using mem_read_append [of m s1 1 n] mem_read_append [of m s2 1 n] by (simp_all add: mem_read_def)
  with 2 show ?case by (simp add: word_uint_eq_iff)
qed (simp add: mem_read_def)

subsection \<open>strncmp\<close>

lemma cstr_Suc: "cstr p (Suc n) = (if p 0 = 0 then [] else p 0 # cstr (\<lambda>i. p (Suc i)) n)"
  by (simp add: cstr_def upt_conv_Cons map_Suc_upt [symmetric] comp_def del: upt_Suc)

lemma cstr_0 [simp]: "cstr p 0 = []"
  by (simp add: cstr_def)

lemma strncmp_loop_0_iff:
  "strncmp_loop p q n i = 0 \<longleftrightarrow> cstr (\<lambda>k. p (i + k)) n = cstr (\<lambda>k. q (i + k)) n"
proof (induction p q n i rule: strncmp_loop.induct)
  case (1 p q n i)
  show ?case
  proof (cases n)
    case 0
    then show ?thesis by (simp add: strncmp_loop.simps)
  next
    case (Suc k)
    with 1 show ?thesis
      by (subst strncmp_loop.simps) (auto simp: cstr_Suc word_uint_eq_iff)
  qed
qed

text \<open>\<open>strncmp\<close> returns 0 exactly when the two C strings, cut at the bound and at their NUL, are equal.
\<close>

theorem strncmp_zero_iff: "strncmp p q n = 0 \<longleftrightarrow> cstr p n = cstr q n"
  by (simp add: strncmp_def strncmp_loop_0_iff)

lemma strncmp_eq_0: "strncmp p q n = 0 \<longleftrightarrow> cstr p n = cstr q n"
  by (simp add: strncmp_def strncmp_loop_0_iff)

subsection \<open>strncpy and safestrcpy\<close>

lemma strncpy_fill_apply:
  "strncpy_fill s n i x = (if i \<le> x \<and> x < i + nat n then 0 else s x)"
proof (induction s n i rule: strncpy_fill.induct)
  case (1 s n i)
  show ?case
  proof (cases "n > 0")
    case True
    with 1 have "strncpy_fill (s(i := 0)) (n - 1) (Suc i) x =
        (if Suc i \<le> x \<and> x < Suc i + nat (n - 1) then 0 else (s(i := 0)) x)"
      by (simp add: fun_upd_def)
    with True show ?thesis by (subst strncpy_fill.simps) auto
  next
    case False
    then show ?thesis by (subst strncpy_fill.simps) auto
  qed
qed

lemma strncpy_copy_apply:
  assumes "0 \<le> n"
  shows "(case strncpy_copy s t n i of (s', n', i') \<Rightarrow> strncpy_fill s' n' i' x) =
    (if i \<le> x \<and> x < i + nat n then (if \<forall>k. i \<le> k \<and> k < x \<longrightarrow> t k \<noteq> 0 then t x else 0) else s x)"
  using assms
proof (induction s t n i rule: strncpy_copy.induct)
  case (1 s t n i)
  consider "n = 0" | "n > 0" "t i = 0" | "n > 0" "t i \<noteq> 0" using 1(2) by linarith
  then show ?case
  proof cases
    case 1
    then show ?thesis by (subst strncpy_copy.simps) (auto simp: strncpy_fill_apply)
  next
    case 2
    have "(case strncpy_copy s t n i of (s', n', i') \<Rightarrow> strncpy_fill s' n' i' x) =
        (if Suc i \<le> x \<and> x < Suc i + nat (n - 1) then 0 else (s(i := 0)) x)"
      using 2 by (subst strncpy_copy.simps) (simp add: strncpy_fill_apply)
    with 2 show ?thesis by (cases x i rule: linorder_cases) auto
  next
    case 3
    have IH: "(case strncpy_copy (s(i := t i)) t (n - 1) (Suc i) of (s', n', i') \<Rightarrow> strncpy_fill s' n' i' x) =
      (if Suc i \<le> x \<and> x < Suc i + nat (n - 1)
       then (if \<forall>k. Suc i \<le> k \<and> k < x \<longrightarrow> t k \<noteq> 0 then t x else 0) else (s(i := t i)) x)"
      using 1(1) 3 by (simp add: fun_upd_def)
    have "strncpy_copy s t n i = strncpy_copy (s(i := t i)) t (n - 1) (Suc i)"
      using 3 by (subst strncpy_copy.simps) simp
    moreover have "(\<forall>k. Suc i \<le> k \<and> k < x \<longrightarrow> t k \<noteq> 0) \<longleftrightarrow> (\<forall>k. i \<le> k \<and> k < x \<longrightarrow> t k \<noteq> 0)"
      using 3 by (metis Suc_leI le_less Suc_leD)
    ultimately show ?thesis using IH 3 by (cases x i rule: linorder_cases) auto
  qed
qed

lemma length_cstr_less: "x < n \<Longrightarrow> x < length (cstr t n) \<longleftrightarrow> (\<forall>k\<le>x. t k \<noteq> 0)"
proof (induction n arbitrary: t x)
  case (Suc n)
  show ?case
  proof (cases x)
    case 0
    then show ?thesis by (simp add: cstr_Suc)
  next
    case (Suc y)
    have "(\<forall>k\<le>Suc y. t k \<noteq> 0) \<longleftrightarrow> t 0 \<noteq> 0 \<and> (\<forall>k\<le>y. t (Suc k) \<noteq> 0)"
      by (metis Suc_le_mono le0 not0_implies_Suc)
    with Suc Suc.IH [of y "\<lambda>i. t (Suc i)"] Suc.prems show ?thesis by (simp add: cstr_Suc)
  qed
qed simp

lemma nth_cstr: "x < length (cstr t n) \<Longrightarrow> cstr t n ! x = t x"
  using length_takeWhile_le [of "\<lambda>b. b \<noteq> 0" "map t [0..<n]"]
  by (simp add: cstr_def takeWhile_nth)

lemma length_cstr_le: "length (cstr t n) \<le> n"
  using length_takeWhile_le [of "\<lambda>b. b \<noteq> 0" "map t [0..<n]"] by (simp add: cstr_def)

lemma strncpy_apply:
  "strncpy s t (int n) x = (if x < n then (if x < length (cstr t n) then t x else 0) else s x)"
proof -
  have "strncpy s t (int n) x = (if x < n then (if \<forall>k<x. t k \<noteq> 0 then t x else 0) else s x)"
    using strncpy_copy_apply [where n = "int n" and s = s and t = t and i = 0 and x = x]
    by (simp add: strncpy_def split_beta)
  moreover have "(\<forall>k\<le>x. t k \<noteq> 0) \<longleftrightarrow> (\<forall>k<x. t k \<noteq> 0) \<and> t x \<noteq> 0"
    by (metis le_less)
  ultimately show ?thesis using length_cstr_less [of x n t] by auto
qed

text \<open>\<open>strncpy\<close> with bound \<open>n\<close> writes exactly \<open>n\<close> bytes: the source string cut at its NUL or at the bound,
  then zeros; and nothing beyond them.
\<close>

theorem strncpy_pads:
  "map (strncpy s t (int n)) [0..<n] = cstr t n @ replicate (n - length (cstr t n)) 0 \<and>
   (\<forall>x\<ge>n. strncpy s t (int n) x = s x)"
proof (rule conjI)
  show "map (strncpy s t (int n)) [0..<n] = cstr t n @ replicate (n - length (cstr t n)) 0"
    using length_cstr_le [of t n]
    by (intro nth_equalityI) (auto simp: strncpy_apply nth_append nth_cstr)
qed (simp add: strncpy_apply)

theorem strncpy_pads_witness:
  "map (strncpy (\<lambda>_. 7) (list_ptr [97, 98]) (int 4)) [0..<4] = [97, 98, 0, 0] \<and>
   strncpy (\<lambda>_. 7) (list_ptr [97, 98]) (int 4) 4 = 7"
proof -
  have "cstr (list_ptr [97, 98]) 4 = [97, 98]" by code_simp
  then show ?thesis using strncpy_pads [of "\<lambda>_. 7" "list_ptr [97, 98]" 4]
    by (simp add: numeral_eq_Suc)
qed

lemma safestrcpy_loop_spec:
  assumes "0 < n" and "safestrcpy_loop s t n i = (s', i')"
  shows "i \<le> i' \<and> i' < i + nat n \<and> (\<forall>x. x < i \<or> i' \<le> x \<longrightarrow> s' x = s x) \<and>
    (\<forall>x. i \<le> x \<and> x < i' \<longrightarrow> s' x = t x) \<and> (\<forall>x. i \<le> x \<and> Suc x < i' \<longrightarrow> t x \<noteq> 0) \<and>
    (Suc i' = i + nat n \<and> (\<forall>x. i \<le> x \<and> x < i' \<longrightarrow> t x \<noteq> 0) \<or> i < i' \<and> t (i' - 1) = 0)"
  using assms
proof (induction s t n i arbitrary: s' i' rule: safestrcpy_loop.induct)
  case (1 s t n i)
  consider "n = 1" | "n > 1" "t i = 0" | "n > 1" "t i \<noteq> 0" using 1(2) by linarith
  then show ?case
  proof cases
    case 1
    with "1.prems"(2) have "s' = s" "i' = i" by (simp_all add: safestrcpy_loop.simps)
    with 1 show ?thesis by auto
  next
    case 2
    with "1.prems"(2) have "s' = s(i := 0)" "i' = Suc i" by (auto simp: safestrcpy_loop.simps)
    with 2 show ?thesis by (auto simp: le_less_Suc_eq)
  next
    case 3
    have "safestrcpy_loop s t n i = safestrcpy_loop (s(i := t i)) t (n - 1) (Suc i)"
      using 3 by (subst safestrcpy_loop.simps) simp
    with "1.prems"(2) have eq: "safestrcpy_loop (s(i := t i)) t (n - 1) (Suc i) = (s', i')" by simp
    have IH: "Suc i \<le> i'" "i' < Suc i + nat (n - 1)"
      "\<And>x. x < Suc i \<or> i' \<le> x \<Longrightarrow> s' x = (s(i := t i)) x" "\<And>x. Suc i \<le> x \<Longrightarrow> x < i' \<Longrightarrow> s' x = t x"
      "\<And>x. Suc i \<le> x \<Longrightarrow> Suc x < i' \<Longrightarrow> t x \<noteq> 0"
      "Suc i' = Suc i + nat (n - 1) \<and> (\<forall>x. Suc i \<le> x \<and> x < i' \<longrightarrow> t x \<noteq> 0) \<or> Suc i < i' \<and> t (i' - 1) = 0"
      using "1.IH" [of s' i'] 3 eq by (auto simp: fun_upd_def)
    have "s' x = t x" if "i \<le> x" "x < i'" for x
      using that IH(3) [of x] IH(4) [of x] by (cases "x = i") auto
    moreover have "t x \<noteq> 0" if "i \<le> x" "Suc x < i'" for x
      using that IH(5) [of x] 3 by (cases "x = i") auto
    moreover have "\<forall>x. i \<le> x \<and> x < i' \<longrightarrow> t x \<noteq> 0" if "\<forall>x. Suc i \<le> x \<and> x < i' \<longrightarrow> t x \<noteq> 0"
      using that 3 by (metis Suc_leI le_less)
    ultimately show ?thesis using IH 3 by auto
  qed
qed

lemma cstr_eqI:
  assumes "\<And>x. x < l \<Longrightarrow> p x = bs ! x \<and> bs ! x \<noteq> 0" and "l = length bs" and "l = n \<or> l < n \<and> p l = 0"
  shows "cstr p n = bs"
proof -
  have len: "length (cstr p n) = l"
  proof (rule antisym)
    show "length (cstr p n) \<le> l"
      using assms(3) length_cstr_less [of l n p] length_cstr_le [of p n] by (metis linorder_not_less order_refl)
    show "l \<le> length (cstr p n)"
    proof (cases l)
      case (Suc k)
      then have "k < n" "\<forall>j\<le>k. p j \<noteq> 0" using assms by (auto simp: less_Suc_eq_le)
      with length_cstr_less [of k n p] Suc show ?thesis by simp
    qed simp
  qed
  with assms show ?thesis by (intro nth_equalityI) (auto simp: nth_cstr)
qed

text \<open>\<open>safestrcpy\<close> with a positive bound \<open>n\<close> leaves a NUL-terminated string within the \<open>n\<close> bytes of the
  destination, the source cut to at most \<open>n - 1\<close> bytes, and touches nothing beyond the bound.
\<close>

theorem safestrcpy_terminates_string:
  assumes "0 < n"
  shows "cstr (safestrcpy s t (int n)) n = cstr t (n - 1) \<and>
    safestrcpy s t (int n) (length (cstr t (n - 1))) = 0 \<and>
    (\<forall>x\<ge>n. safestrcpy s t (int n) x = s x)"
proof -
  obtain s' i' where eq: "safestrcpy_loop s t (int n) 0 = (s', i')" by (metis surj_pair)
  have r: "safestrcpy s t (int n) = s'(i' := 0)"
    using assms eq by (simp add: safestrcpy_def)
  have len: "length (cstr t (n - 1)) \<le> n - 1" by (rule length_cstr_le)
  have spec: "i' < n" "\<And>x. i' \<le> x \<Longrightarrow> s' x = s x" "\<And>x. x < i' \<Longrightarrow> s' x = t x"
    "\<And>x. Suc x < i' \<Longrightarrow> t x \<noteq> 0"
    and last: "Suc i' = n \<and> (\<forall>x. x < i' \<longrightarrow> t x \<noteq> 0) \<or> 0 < i' \<and> t (i' - 1) = 0"
    using safestrcpy_loop_spec [OF _ eq] assms by simp_all
  obtain l where copied: "\<And>x. x < l \<Longrightarrow> (s'(i' := 0)) x = t x \<and> t x \<noteq> 0"
    and stop: "(s'(i' := 0)) l = 0" and stop': "l = n - 1 \<or> l < n - 1 \<and> t l = 0" and l: "l \<le> n - 1"
  proof (cases "Suc i' = n \<and> (\<forall>x. x < i' \<longrightarrow> t x \<noteq> 0)")
    case True
    with spec that [of i'] show ?thesis by auto
  next
    case False
    with last obtain j where j: "i' = Suc j" "t j = 0" by (cases i') auto
    show ?thesis
      by (rule that [of j]) (use j spec in auto)
  qed
  have i': "\<And>x. n \<le> x \<Longrightarrow> s' x = s x" using spec by auto
  have c: "cstr t (n - 1) = map t [0..<l]"
    using copied stop' by (intro cstr_eqI [where l = l]) auto
  moreover have "cstr (s'(i' := 0)) n = map t [0..<l]"
    using copied stop stop' assms by (intro cstr_eqI [where l = l]) auto
  ultimately show ?thesis using r stop i' spec(1) by auto
qed

theorem safestrcpy_terminates_string_witness:
  "cstr (safestrcpy (\<lambda>_. 7) (list_ptr [97, 98, 99, 100]) (int 3)) 3 = [97, 98] \<and>
   safestrcpy (\<lambda>_. 7) (list_ptr [97, 98, 99, 100]) (int 3) 2 = 0 \<and>
   safestrcpy (\<lambda>_. 7) (list_ptr [97, 98, 99, 100]) (int 3) 3 = 7"
proof -
  have "cstr (list_ptr [97, 98, 99, 100]) (3 - 1) = [97, 98]" by code_simp
  then show ?thesis
    using safestrcpy_terminates_string [of 3 "\<lambda>_. 7" "list_ptr [97, 98, 99, 100]"]
    by (simp add: numeral_2_eq_2)
qed

subsection \<open>strlen\<close>

lemma strlen_loop_Some:
  assumes "p k = 0" and "n \<le> k" and "\<And>j. n \<le> j \<Longrightarrow> j < k \<Longrightarrow> p j \<noteq> 0"
  shows "strlen_loop p n = Some k"
  using assms(2,1,3)
proof (induction n rule: inc_induct)
  case base
  then show ?case by (subst strlen_loop.simps) simp
next
  case (step n)
  then show ?case by (subst strlen_loop.simps) simp
qed

lemma strlen_loop_SomeD:
  assumes "strlen_loop p n = Some k"
  shows "n \<le> k \<and> p k = 0 \<and> (\<forall>j. n \<le> j \<and> j < k \<longrightarrow> p j \<noteq> 0)"
proof (rule strlen_loop.raw_induct [where P = "\<lambda>p n k. n \<le> k \<and> p k = 0 \<and> (\<forall>j. n \<le> j \<and> j < k \<longrightarrow> p j \<noteq> 0)", OF _ assms])
  fix f p n k
  assume IH: "\<And>p n k. f p n = Some k \<Longrightarrow> n \<le> k \<and> p k = 0 \<and> (\<forall>j. n \<le> j \<and> j < k \<longrightarrow> p j \<noteq> 0)"
    and eq: "(if p n \<noteq> 0 then f p (Suc n) else Some n) = Some k"
  show "n \<le> k \<and> p k = 0 \<and> (\<forall>j. n \<le> j \<and> j < k \<longrightarrow> p j \<noteq> 0)"
  proof (cases "p n = 0")
    case False
    with eq IH [of p "Suc n" k] have "Suc n \<le> k" "p k = 0" "\<forall>j. Suc n \<le> j \<and> j < k \<longrightarrow> p j \<noteq> 0"
      by simp_all
    moreover have "j = n \<or> Suc n \<le> j" if "n \<le> j" for j using that by linarith
    ultimately show ?thesis using False by (auto dest: Suc_leD)
  qed (use eq in auto)
qed

lemma strlen_Some_iff: "strlen p = Some k \<longleftrightarrow> p k = 0 \<and> (\<forall>j<k. p j \<noteq> 0)"
proof
  show "strlen p = Some k \<Longrightarrow> p k = 0 \<and> (\<forall>j<k. p j \<noteq> 0)"
    unfolding strlen_def by (drule strlen_loop_SomeD) blast
  show "p k = 0 \<and> (\<forall>j<k. p j \<noteq> 0) \<Longrightarrow> strlen p = Some k"
    unfolding strlen_def by (rule strlen_loop_Some) blast+
qed

lemma strlen_terminated: "p k = 0 \<Longrightarrow> \<exists>l\<le>k. strlen p = Some l"
proof -
  assume z: "p k = 0"
  have "p (LEAST j. p j = 0) = 0" using z by (rule LeastI)
  moreover have "(LEAST j. p j = 0) \<le> k" using z by (rule Least_le)
  moreover have "\<forall>j<(LEAST j. p j = 0). p j \<noteq> 0" using not_less_Least by blast
  ultimately have "strlen p = Some (LEAST j. p j = 0) \<and> (LEAST j. p j = 0) \<le> k"
    by (simp only: strlen_Some_iff simp_thms)
  then show ?thesis by blast
qed

end
