(* ===== verification/Spinlock.thy ===== *)
theory Spinlock
  imports Cstring
begin

text \<open>
  Spinlocks and interrupt nesting (\<^verbatim>\<open>kernel/spinlock.c\<close>, the \<^verbatim>\<open>struct cpu\<close> of \<^verbatim>\<open>kernel/proc.h\<close> and the
  interrupt primitives of \<^verbatim>\<open>kernel/riscv.h\<close>).

  The hardware state holds the running hart (\<open>tp\<close>), the interrupt-enable bit of every hart, the
  per-CPU structures and the locks. It is the first field of the kernel state; every other
  component extends the record \<open>kbase\<close>. Two layers are shown: \<open>acquire\<close> and \<open>release\<close> as programs,
  with the state they leave when the lock is free (\<open>hw_enter\<close>, \<open>hw_leave\<close>), which the other components
  use; and the harts' interleaving as a step relation over the atomic actions of the two programs,
  with mutual exclusion for every reachable state.
\<close>

subsection \<open>State\<close>

datatype sleepid = BufSleep nat | InodeSleep nat

datatype lockid = KmemLock | PidLock | WaitLock | ProcLock nat | TicksLock | BcacheLock
  | SleepLk sleepid | LogLock | ItableLock | FtableLock | PipeLock u64 | ConsLock | UartTxLock
  | VdiskLock | PrLock

record spinlock =
  locked :: u32
  lk_name :: string
  lk_cpu :: "nat option"

record cpu =
  c_proc :: "nat option"
  noff :: int
  intena :: bool

record hwstate =
  tp :: nat
  sie :: "nat \<Rightarrow> bool"
  cpus :: "nat \<Rightarrow> cpu"
  locks :: "lockid \<Rightarrow> spinlock"

record kbase =
  hw :: hwstate

type_synonym ('x, 'a) basefun = "('x kbase_scheme, 'a) kfun"

subsection \<open>Definitions\<close>

definition cpuid :: "hwstate \<Rightarrow> nat" where
  "cpuid h = tp h"

definition mycpu :: "hwstate \<Rightarrow> cpu" where
  "mycpu h = cpus h (cpuid h)"

definition set_mycpu :: "(cpu \<Rightarrow> cpu) \<Rightarrow> hwstate \<Rightarrow> hwstate" where
  "set_mycpu f h = h\<lparr>cpus := (cpus h)(cpuid h := f (mycpu h))\<rparr>"

definition intr_get :: "hwstate \<Rightarrow> bool" where
  "intr_get h = sie h (tp h)"

definition intr_on :: "hwstate \<Rightarrow> hwstate" where
  "intr_on h = h\<lparr>sie := (sie h)(tp h := True)\<rparr>"

definition intr_off :: "hwstate \<Rightarrow> hwstate" where
  "intr_off h = h\<lparr>sie := (sie h)(tp h := False)\<rparr>"

definition set_lock :: "lockid \<Rightarrow> (spinlock \<Rightarrow> spinlock) \<Rightarrow> hwstate \<Rightarrow> hwstate" where
  "set_lock lk f h = h\<lparr>locks := (locks h)(lk := f (locks h lk))\<rparr>"

definition hw_modify :: "(hwstate \<Rightarrow> hwstate) \<Rightarrow> ('x, unit) basefun" where
  "hw_modify f = modify (\<lambda>s. s\<lparr>hw := f (hw s)\<rparr>)"

definition initlock :: "lockid \<Rightarrow> string \<Rightarrow> ('x, unit) basefun" where
  "initlock lk name =
     hw_modify (set_lock lk (\<lambda>l. l\<lparr>lk_name := name, locked := 0, lk_cpu := None\<rparr>))"

definition push_off :: "('x, unit) basefun" where
  "push_off =
     kbind (gets (\<lambda>s. intr_get (hw s))) (\<lambda>old.
     kseq (hw_modify intr_off)
     (kbind (gets (\<lambda>s. noff (mycpu (hw s)))) (\<lambda>n.
     kseq (kwhen (n = 0) (hw_modify (set_mycpu (\<lambda>c. c\<lparr>intena := old\<rparr>))))
     (hw_modify (set_mycpu (\<lambda>c. c\<lparr>noff := noff c + 1\<rparr>))))))"

definition pop_off :: "('x, unit) basefun" where
  "pop_off =
     kbind (gets hw) (\<lambda>h.
     if intr_get h then panic ''pop_off - interruptible''
     else if noff (mycpu h) < 1 then panic ''pop_off''
     else kseq (hw_modify (set_mycpu (\<lambda>c. c\<lparr>noff := noff c - 1\<rparr>)))
       (kbind (gets (\<lambda>s. mycpu (hw s))) (\<lambda>c.
        kwhen (noff c = 0 \<and> intena c) (hw_modify intr_on))))"

definition holding :: "lockid \<Rightarrow> hwstate \<Rightarrow> bool" where
  "holding lk h \<longleftrightarrow> locked (locks h lk) \<noteq> 0 \<and> lk_cpu (locks h lk) = Some (cpuid h)"

text \<open>The loop around the atomic swap: each failed swap is a waiting point.\<close>

primcorec test_and_set_loop :: "lockid \<Rightarrow> ('x, unit) basefun" where
  "test_and_set_loop lk s =
     (if locked (locks (hw s) lk) \<noteq> 0
      then Wait Spinning (s\<lparr>hw := set_lock lk (\<lambda>l. l\<lparr>locked := 1\<rparr>) (hw s)\<rparr>) (\<lambda>s'. test_and_set_loop lk s')
      else Ret () (s\<lparr>hw := set_lock lk (\<lambda>l. l\<lparr>locked := 1\<rparr>) (hw s)\<rparr>))"

definition acquire :: "lockid \<Rightarrow> ('x, unit) basefun" where
  "acquire lk =
     kseq push_off
     (kbind (gets (\<lambda>s. holding lk (hw s))) (\<lambda>held.
      if held then panic ''acquire''
      else kseq (test_and_set_loop lk)
        (kbind (gets (\<lambda>s. cpuid (hw s))) (\<lambda>c.
         hw_modify (set_lock lk (\<lambda>l. l\<lparr>lk_cpu := Some c\<rparr>))))))"

definition release :: "lockid \<Rightarrow> ('x, unit) basefun" where
  "release lk =
     kbind (gets (\<lambda>s. holding lk (hw s))) (\<lambda>held.
     if \<not> held then panic ''release''
     else kseq (hw_modify (set_lock lk (\<lambda>l. l\<lparr>lk_cpu := None\<rparr>)))
       (kseq (hw_modify (set_lock lk (\<lambda>l. l\<lparr>locked := 0\<rparr>)))
        pop_off))"

subsection \<open>The state after each primitive\<close>

lemmas hw_prims = cpuid_def mycpu_def set_mycpu_def intr_get_def intr_on_def intr_off_def
  set_lock_def

definition hw_push :: "hwstate \<Rightarrow> hwstate" where
  "hw_push h = h\<lparr>sie := (sie h)(tp h := False),
     cpus := (cpus h)(tp h := (cpus h (tp h))
       \<lparr>intena := (if noff (cpus h (tp h)) = 0 then sie h (tp h) else intena (cpus h (tp h))),
        noff := noff (cpus h (tp h)) + 1\<rparr>)\<rparr>"

definition hw_pop :: "hwstate \<Rightarrow> hwstate" where
  "hw_pop h = h\<lparr>sie := (sie h)(tp h := sie h (tp h) \<or>
       noff (cpus h (tp h)) = 1 \<and> intena (cpus h (tp h))),
     cpus := (cpus h)(tp h := (cpus h (tp h))\<lparr>noff := noff (cpus h (tp h)) - 1\<rparr>)\<rparr>"

definition hw_enter :: "lockid \<Rightarrow> hwstate \<Rightarrow> hwstate" where
  "hw_enter lk h = (hw_push h)\<lparr>locks := (locks h)(lk := (locks h lk)\<lparr>locked := 1, lk_cpu := Some (tp h)\<rparr>)\<rparr>"

definition hw_leave :: "lockid \<Rightarrow> hwstate \<Rightarrow> hwstate" where
  "hw_leave lk h = hw_pop (h\<lparr>locks := (locks h)(lk := (locks h lk)\<lparr>lk_cpu := None, locked := 0\<rparr>)\<rparr>)"

text \<open>What a balanced pair of \<^verbatim>\<open>push_off\<close> and \<^verbatim>\<open>pop_off\<close> leaves behind: at nesting depth 0 the saved
  interrupt flag, nothing deeper.\<close>

definition hw_touch :: "hwstate \<Rightarrow> hwstate" where
  "hw_touch h = (if noff (cpus h (tp h)) = 0
     then h\<lparr>cpus := (cpus h)(tp h := (cpus h (tp h))\<lparr>intena := sie h (tp h)\<rparr>)\<rparr> else h)"

definition hw_ok :: "hwstate \<Rightarrow> bool" where
  "hw_ok h \<longleftrightarrow> 0 \<le> noff (cpus h (tp h)) \<and> (0 < noff (cpus h (tp h)) \<longrightarrow> \<not> sie h (tp h))"

definition lock_free :: "lockid \<Rightarrow> hwstate \<Rightarrow> bool" where
  "lock_free lk h \<longleftrightarrow> locked (locks h lk) = 0 \<and> lk_cpu (locks h lk) = None"

lemma push_off_eq: "push_off s = Ret () (s\<lparr>hw := hw_push (hw s)\<rparr>)"
  by (simp add: push_off_def hw_push_def hw_modify_def hw_prims)

lemma pop_off_eq:
  assumes "\<not> sie (hw s) (tp (hw s))" and "1 \<le> noff (cpus (hw s) (tp (hw s)))"
  shows "pop_off s = Ret () (s\<lparr>hw := hw_pop (hw s)\<rparr>)"
  using assms by (simp add: pop_off_def hw_pop_def hw_modify_def hw_prims kwhen_apply fun_upd_idem)

lemma test_and_set_free:
  "locked (locks (hw s) lk) = 0 \<Longrightarrow>
   test_and_set_loop lk s = Ret () (s\<lparr>hw := set_lock lk (\<lambda>l. l\<lparr>locked := 1\<rparr>) (hw s)\<rparr>)"
  by (subst test_and_set_loop.code) simp

lemma hw_push_fields [simp]:
  "tp (hw_push h) = tp h" "locks (hw_push h) = locks h" "\<not> sie (hw_push h) (tp h)"
  "noff (cpus (hw_push h) (tp h)) = noff (cpus h (tp h)) + 1"
  "c_proc (cpus (hw_push h) c) = c_proc (cpus h c)"
  by (simp_all add: hw_push_def)

lemma acquire_free [kexec]:
  assumes "lock_free lk (hw s)"
  shows "acquire lk s = Ret () (s\<lparr>hw := hw_enter lk (hw s)\<rparr>)"
  using assms
  by (simp add: acquire_def push_off_eq holding_def lock_free_def test_and_set_free hw_modify_def
      cpuid_def set_lock_def hw_enter_def)

lemma acquire_held:
  assumes "holding lk (hw s)"
  shows "acquire lk s = Panic ''acquire'' (s\<lparr>hw := hw_push (hw s)\<rparr>)"
  using assms by (simp add: acquire_def push_off_eq holding_def cpuid_def)

lemma release_held [kexec]:
  assumes "holding lk (hw s)" and "\<not> sie (hw s) (tp (hw s))" and "1 \<le> noff (cpus (hw s) (tp (hw s)))"
  shows "release lk s = Ret () (s\<lparr>hw := hw_leave lk (hw s)\<rparr>)"
  using assms by (simp add: release_def hw_modify_def set_lock_def pop_off_eq hw_leave_def)

lemma release_not_held:
  "\<not> holding lk (hw s) \<Longrightarrow> release lk s = Panic ''release'' s"
  by (simp add: release_def)

lemma initlock_eq [kexec]:
  "initlock lk name s = Ret () (s\<lparr>hw := set_lock lk (\<lambda>l. l\<lparr>lk_name := name, locked := 0, lk_cpu := None\<rparr>) (hw s)\<rparr>)"
  by (simp add: initlock_def hw_modify_def)

lemma hw_initlock [simp]:
  "hw_ok (set_lock lk f h) = hw_ok h"
  "lock_free lk (set_lock lk (\<lambda>l. l\<lparr>lk_name := name, locked := 0, lk_cpu := None\<rparr>) h)"
  by (simp_all add: hw_ok_def lock_free_def set_lock_def)

subsection \<open>Algebra of entering and leaving\<close>

lemma hw_enter_fields [simp]:
  "tp (hw_enter lk h) = tp h" "t = tp h \<Longrightarrow> \<not> sie (hw_enter lk h) t"
  "t = tp h \<Longrightarrow> noff (cpus (hw_enter lk h) t) = noff (cpus h t) + 1"
  "c_proc (cpus (hw_enter lk h) c) = c_proc (cpus h c)"
  by (simp_all add: hw_enter_def)

lemma hw_touch_fields [simp]:
  "tp (hw_touch h) = tp h" "sie (hw_touch h) = sie h"
  "noff (cpus (hw_touch h) c) = noff (cpus h c)"
  "c_proc (cpus (hw_touch h) c) = c_proc (cpus h c)"
  "locks (hw_touch h) = locks h"
  by (simp_all add: hw_touch_def)

lemma hw_ok_simps [simp]:
  "hw_ok h \<Longrightarrow> hw_ok (hw_enter lk h)" "hw_ok (hw_touch h) = hw_ok h"
  by (simp_all add: hw_ok_def)

lemma hw_ok_noff [simp]: "hw_ok h \<Longrightarrow> t = tp h \<Longrightarrow> 0 \<le> noff (cpus h t)"
  by (simp add: hw_ok_def)

lemma lock_free_simps [simp]:
  "lock_free lk (hw_enter lk' h) \<longleftrightarrow> lk \<noteq> lk' \<and> lock_free lk h"
  "lock_free lk (hw_touch h) = lock_free lk h"
  by (auto simp: lock_free_def hw_enter_def)

lemma holding_simps [simp]:
  "holding lk (hw_enter lk' h) \<longleftrightarrow> lk = lk' \<or> holding lk h"
  "holding lk (hw_touch h) = holding lk h"
  by (auto simp: holding_def hw_enter_def cpuid_def)

lemma hw_leave_enter [simp]:
  assumes "lock_free lk h" "hw_ok h"
  shows "hw_leave lk (hw_enter lk h) = hw_touch h"
proof -
  have "locks h lk = (locks h lk)\<lparr>lk_cpu := None, locked := 0\<rparr>"
    using assms(1) by (simp add: lock_free_def)
  then show ?thesis
    using assms(2)
    by (auto simp: hw_leave_def hw_enter_def hw_push_def hw_pop_def hw_touch_def hw_ok_def fun_upd_idem
        intro!: hwstate.equality cpu.equality)
qed

lemma hw_leave_enter2 [simp]:
  assumes "lock_free lk h" "hw_ok h" "lk \<noteq> lk'"
  shows "hw_leave lk (hw_enter lk' (hw_enter lk h)) = hw_enter lk' h"
proof -
  have "locks h lk = (locks h lk)\<lparr>lk_cpu := None, locked := 0\<rparr>"
    using assms(1) by (simp add: lock_free_def)
  then show ?thesis
    using assms(2,3)
    by (auto simp: hw_leave_def hw_enter_def hw_push_def hw_pop_def hw_ok_def add.commute
        intro!: hwstate.equality cpu.equality)
qed

lemma hw_leave_fields [simp]:
  "tp (hw_leave lk h) = tp h"
  "lock_free lk' (hw_leave lk h) \<longleftrightarrow> lk' = lk \<or> lock_free lk' h"
  "c_proc (cpus (hw_leave lk h) c) = c_proc (cpus h c)"
  by (auto simp: hw_leave_def hw_pop_def lock_free_def)

lemma hw_pop_push [simp]: "hw_ok h \<Longrightarrow> hw_pop (hw_push h) = hw_touch h"
  by (auto simp: hw_push_def hw_pop_def hw_touch_def hw_ok_def fun_upd_idem intro!: hwstate.equality cpu.equality)

lemma hw_touch_absorb [simp]:
  "hw_enter lk (hw_touch h) = hw_enter lk h" "hw_touch (hw_touch h) = hw_touch h"
  "hw_ok h \<Longrightarrow> hw_touch (hw_enter lk h) = hw_enter lk h"
  by (auto simp: hw_enter_def hw_push_def hw_touch_def hw_ok_def)

subsection \<open>Interleaving of the harts\<close>

text \<open>
  Between two atomic accesses of one hart any other hart may run. A hart is idle (outside
  \<open>acquire\<close> and \<open>release\<close>), swapping in the loop of \<open>acquire\<close>, past the winning swap but before
  \<open>lk->cpu = mycpu()\<close>, or between the two stores of \<open>release\<close>. \<open>held\<close> is a ghost field: the locks
  whose \<open>acquire\<close> has returned and whose \<open>release\<close> has not begun.
\<close>

datatype phase = Idle | Trying lockid | Won lockid | Unlocking lockid

record harts =
  mach :: hwstate
  phase :: "nat \<Rightarrow> phase"
  held :: "nat \<Rightarrow> lockid set"

definition on_hart :: "harts \<Rightarrow> nat \<Rightarrow> kbase" where
  "on_hart m i = \<lparr>hw = (mach m)\<lparr>tp := i\<rparr>\<rparr>"

inductive hart_step :: "harts \<Rightarrow> harts \<Rightarrow> bool" where
  start: "phase m i = Idle \<Longrightarrow> push_off (on_hart m i) = Ret () s \<Longrightarrow> \<not> holding lk (hw s) \<Longrightarrow>
    hart_step m (m\<lparr>mach := hw s, phase := (phase m)(i := Trying lk)\<rparr>)"
| swap: "phase m i = Trying lk \<Longrightarrow> old = locked (locks (mach m) lk) \<Longrightarrow>
    hart_step m (m\<lparr>mach := set_lock lk (\<lambda>l. l\<lparr>locked := 1\<rparr>) (hw (on_hart m i)),
      phase := (phase m)(i := if old \<noteq> 0 then Trying lk else Won lk)\<rparr>)"
| set_cpu: "phase m i = Won lk \<Longrightarrow> h = hw (on_hart m i) \<Longrightarrow>
    hart_step m (m\<lparr>mach := set_lock lk (\<lambda>l. l\<lparr>lk_cpu := Some (cpuid h)\<rparr>) h,
      phase := (phase m)(i := Idle), held := (held m)(i := insert lk (held m i))\<rparr>)"
| clear_cpu: "phase m i = Idle \<Longrightarrow> h = hw (on_hart m i) \<Longrightarrow> holding lk h \<Longrightarrow>
    hart_step m (m\<lparr>mach := set_lock lk (\<lambda>l. l\<lparr>lk_cpu := None\<rparr>) h,
      phase := (phase m)(i := Unlocking lk), held := (held m)(i := held m i - {lk})\<rparr>)"
| unlock: "phase m i = Unlocking lk \<Longrightarrow>
    pop_off \<lparr>hw = set_lock lk (\<lambda>l. l\<lparr>locked := 0\<rparr>) (hw (on_hart m i))\<rparr> = Ret () s \<Longrightarrow>
    hart_step m (m\<lparr>mach := hw s, phase := (phase m)(i := Idle)\<rparr>)"
| enable: "phase m i = Idle \<Longrightarrow> noff (cpus (mach m) i) = 0 \<Longrightarrow>
    hart_step m (m\<lparr>mach := intr_on (hw (on_hart m i))\<rparr>)"

definition harts_init :: "harts \<Rightarrow> bool" where
  "harts_init m \<longleftrightarrow> (\<forall>lk. lock_free lk (mach m)) \<and> (\<forall>i. noff (cpus (mach m) i) = 0 \<and>
     phase m i = Idle \<and> held m i = {})"

inductive harts_reachable :: "harts \<Rightarrow> bool" where
  init: "harts_init m \<Longrightarrow> harts_reachable m"
| step: "harts_reachable m \<Longrightarrow> hart_step m m' \<Longrightarrow> harts_reachable m'"

definition owners :: "harts \<Rightarrow> lockid \<Rightarrow> nat set" where
  "owners m lk = {i. lk \<in> held m i \<or> phase m i = Won lk \<or> phase m i = Unlocking lk}"

definition lock_inv :: "harts \<Rightarrow> lockid \<Rightarrow> bool" where
  "lock_inv m lk \<longleftrightarrow>
     (if locked (locks (mach m) lk) = 0 then owners m lk = {} else (\<exists>i. owners m lk = {i})) \<and>
     (\<forall>i. lk_cpu (locks (mach m) lk) = Some i \<longleftrightarrow> lk \<in> held m i) \<and>
     (\<forall>i. phase m i = Won lk \<or> phase m i = Unlocking lk \<longrightarrow> lk \<notin> held m i)"

definition nesting_inv :: "harts \<Rightarrow> bool" where
  "nesting_inv m \<longleftrightarrow> (\<forall>i. finite (held m i) \<and>
     noff (cpus (mach m) i) = int (card (held m i)) + (if phase m i = Idle then 0 else 1) \<and>
     (0 < noff (cpus (mach m) i) \<longrightarrow> \<not> sie (mach m) i))"

lemma pop_off_Ret:
  assumes "pop_off s = Ret () s'"
  shows "s' = s\<lparr>hw := hw_pop (hw s)\<rparr>"
proof -
  have "\<not> sie (hw s) (tp (hw s)) \<and> 1 \<le> noff (cpus (hw s) (tp (hw s)))"
    using assms
    by (simp add: pop_off_def intr_get_def mycpu_def cpuid_def if_app split: if_splits)
  with assms show ?thesis by (simp add: pop_off_eq)
qed

lemmas hart_step_simps = on_hart_def push_off_eq hw_push_def hw_pop_def set_lock_def cpuid_def
  intr_on_def

lemma owners_upd:
  "owners (m\<lparr>mach := h, phase := (phase m)(i := p), held := (held m)(i := H)\<rparr>) lk =
     (owners m lk - {i}) \<union> (if lk \<in> H \<or> p = Won lk \<or> p = Unlocking lk then {i} else {})"
  "owners (m\<lparr>mach := h, phase := (phase m)(i := p)\<rparr>) lk =
     (owners m lk - {i}) \<union> (if lk \<in> held m i \<or> p = Won lk \<or> p = Unlocking lk then {i} else {})"
  "owners (m\<lparr>mach := h\<rparr>) lk = owners m lk"
  by (auto simp: owners_def)

lemma owners_iff: "i \<in> owners m lk \<longleftrightarrow> lk \<in> held m i \<or> phase m i = Won lk \<or> phase m i = Unlocking lk"
  by (simp add: owners_def)

lemma lock_inv_step:
  assumes "hart_step m m'" and "lock_inv m lk"
  shows "lock_inv m' lk"
  using assms
proof (induction rule: hart_step.induct)
  case (start m i s lk')
  then have "owners m lk - {i} \<union> (if lk \<in> held m i then {i} else {}) = owners m lk"
    by (auto simp: owners_iff)
  with start show ?case by (simp add: lock_inv_def owners_upd push_off_eq on_hart_def) auto
next
  case (swap m i lk' old)
  have "owners m lk - {i} \<union> (if lk \<in> held m i then {i} else {}) = owners m lk"
    using swap(1) by (auto simp: owners_iff)
  moreover have "owners m lk = {} \<Longrightarrow> lk \<notin> held m i"
    by (auto simp: owners_def)
  ultimately show ?case
    using swap by (cases "old = 0") (auto simp: lock_inv_def owners_upd hart_step_simps)
next
  case (set_cpu m i lk' h)
  have "i \<in> owners m lk" if "lk' = lk"
    using set_cpu(1) that by (simp add: owners_def)
  then have one: "lk' = lk \<Longrightarrow> owners m lk = {i}"
    using set_cpu(3) by (auto simp: lock_inv_def split: if_splits)
  have sub: "lk \<in> held m j \<Longrightarrow> j \<in> owners m lk" for j
    by (simp add: owners_def)
  have "lk' \<noteq> lk \<Longrightarrow> owners m lk - {i} \<union> (if lk \<in> held m i then {i} else {}) = owners m lk"
    using set_cpu(1) by (auto simp: owners_iff)
  then show ?case
    using set_cpu one sub
    by (cases "lk' = lk") (auto simp: lock_inv_def owners_upd hart_step_simps split: if_splits)
next
  case (clear_cpu m i h lk')
  have "i \<in> owners m lk" if "lk' = lk"
    using clear_cpu(2,3,4) that by (auto simp: owners_def lock_inv_def holding_def hart_step_simps)
  then have "lk' = lk \<Longrightarrow> owners m lk = {i}"
    using clear_cpu(4) by (auto simp: lock_inv_def split: if_splits)
  moreover have "owners m lk - {i} \<union> (if lk \<in> held m i then {i} else {}) = owners m lk"
    using clear_cpu(1) by (auto simp: owners_iff)
  ultimately show ?case
    using clear_cpu by (cases "lk' = lk") (auto simp: lock_inv_def owners_upd hart_step_simps holding_def)
next
  case (unlock m i lk' s)
  have "lk' = lk \<Longrightarrow> i \<in> owners m lk"
    using unlock(1) by (simp add: owners_def)
  moreover have "lk' \<noteq> lk \<Longrightarrow> owners m lk - {i} \<union> (if lk \<in> held m i then {i} else {}) = owners m lk"
    using unlock(1) by (auto simp: owners_iff)
  ultimately show ?case
    using unlock pop_off_Ret [OF unlock(2)]
    by (cases "lk' = lk") (auto simp: lock_inv_def owners_upd hart_step_simps split: if_splits)
next
  case (enable m i)
  then show ?case by (simp add: lock_inv_def owners_upd hart_step_simps)
qed

lemma nesting_inv_step:
  assumes "hart_step m m'" and "\<And>lk. lock_inv m lk" and "nesting_inv m"
  shows "nesting_inv m'"
  using assms
proof (induction rule: hart_step.induct)
  case (start m i s lk)
  then show ?case by (auto simp: nesting_inv_def hart_step_simps)
next
  case (swap m i lk old)
  then show ?case by (auto simp: nesting_inv_def hart_step_simps)
next
  case (set_cpu m i lk h)
  have "lk \<notin> held m i"
    using set_cpu(1,3) by (auto simp: lock_inv_def)
  then show ?case using set_cpu by (auto simp: nesting_inv_def hart_step_simps)
next
  case (clear_cpu m i h lk)
  have "lk \<in> held m i"
    using clear_cpu(2,3,4) by (auto simp: lock_inv_def holding_def hart_step_simps)
  then have "int (card (held m i)) = int (card (held m i - {lk})) + 1"
    using clear_cpu(5) card.remove [of "held m i" lk] by (simp add: nesting_inv_def)
  then show ?case using clear_cpu by (auto simp: nesting_inv_def hart_step_simps)
next
  case (unlock m i lk s)
  then show ?case
    using pop_off_Ret [OF unlock(2)] by (auto simp: nesting_inv_def hart_step_simps)
next
  case (enable m i)
  then show ?case by (auto simp: nesting_inv_def hart_step_simps)
qed

lemma harts_reachable_inv:
  assumes "harts_reachable m"
  shows "(\<forall>lk. lock_inv m lk) \<and> nesting_inv m"
  using assms
proof (induction rule: harts_reachable.induct)
  case (init m)
  then show ?case
    by (auto simp: harts_init_def lock_inv_def owners_def nesting_inv_def lock_free_def)
next
  case (step m m')
  then show ?case by (meson lock_inv_step nesting_inv_step)
qed

text \<open>The state of the statically allocated variables at boot: every lock free, no nesting.\<close>

definition boot_hw :: hwstate where
  "boot_hw = \<lparr>tp = 0, sie = \<lambda>_. False, cpus = \<lambda>_. \<lparr>c_proc = None, noff = 0, intena = False\<rparr>,
     locks = \<lambda>_. \<lparr>locked = 0, lk_name = [], lk_cpu = None\<rparr>\<rparr>"

definition boot_harts :: harts where
  "boot_harts = \<lparr>mach = boot_hw, phase = \<lambda>_. Idle, held = \<lambda>_. {}\<rparr>"

lemma boot_hw_ok [simp]: "hw_ok boot_hw" "lock_free lk boot_hw"
  by (simp_all add: boot_hw_def hw_ok_def lock_free_def)

lemma boot_reachable: "harts_reachable boot_harts"
  by (rule harts_reachable.init) (simp add: boot_harts_def boot_hw_def harts_init_def lock_free_def)

text \<open>A free lock is acquired in three steps of one hart.\<close>

lemma acquire_run:
  assumes r: "harts_reachable m" and "phase m i = Idle" and "locked (locks (mach m) lk) = 0"
  shows "\<exists>m'. harts_reachable m' \<and> phase m' i = Idle \<and> lk \<in> held m' i"
proof -
  define m1 where "m1 = m\<lparr>mach := hw_push ((mach m)\<lparr>tp := i\<rparr>), phase := (phase m)(i := Trying lk)\<rparr>"
  define m2 where "m2 = m1\<lparr>mach := set_lock lk (\<lambda>l. l\<lparr>locked := 1\<rparr>) (hw (on_hart m1 i)),
     phase := (phase m1)(i := Won lk)\<rparr>"
  have "hart_step m m1"
    using hart_step.start [of m i "(on_hart m i)\<lparr>hw := hw_push (hw (on_hart m i))\<rparr>" lk] assms(2,3)
    by (simp add: m1_def push_off_eq on_hart_def holding_def)
  moreover have "hart_step m1 m2"
    using hart_step.swap [of m1 i lk 0] assms(3) by (simp add: m1_def m2_def)
  ultimately have "harts_reachable m2"
    using r by (blast intro: harts_reachable.step)
  then show ?thesis
    using harts_reachable.step [OF _ hart_step.set_cpu [of m2 i lk "hw (on_hart m2 i)"]]
    by (fastforce simp: m2_def)
qed

subsection \<open>Properties\<close>





text \<open>C24: a critical section on a free lock leaves the hardware state as it found it, the saved interrupt
  flag of the outermost section apart: the lock is free again, the nesting depth is restored and
  interrupts are enabled afterwards exactly when they were before. Releasing a lock the hart does not
  hold, or acquiring one it holds, panics.\<close>

theorem acquire_release_restores:
  assumes "hw_ok (hw s)" and "lock_free lk (hw s)"
  shows "kseq (acquire lk) (release lk) s = Ret () (s\<lparr>hw := hw_touch (hw s)\<rparr>) \<and>
    sie (hw_touch (hw s)) = sie (hw s) \<and> lock_free lk (hw_touch (hw s)) \<and>
    noff (cpus (hw_touch (hw s)) c) = noff (cpus (hw s) c) \<and>
    kseq (acquire lk) (acquire lk) s = Panic ''acquire'' (s\<lparr>hw := hw_push (hw_enter lk (hw s))\<rparr>) \<and>
    release lk s = Panic ''release'' s"
proof -
  have "\<not> holding lk (hw s)"
    using assms(2) by (simp add: lock_free_def holding_def)
  then show ?thesis
    using assms by (simp add: kexec acquire_held release_not_held)
qed

theorem acquire_release_restores_witness:
  "kseq (acquire KmemLock) (release KmemLock) \<lparr>hw = boot_hw\<rparr> = Ret () \<lparr>hw = hw_touch boot_hw\<rparr> \<and>
   release KmemLock \<lparr>hw = boot_hw\<rparr> = Panic ''release'' \<lparr>hw = boot_hw\<rparr>"
  using acquire_release_restores [of "\<lparr>hw = boot_hw\<rparr>" KmemLock 0] by simp

end
