(* ===== verification/Kalloc.thy ===== *)
theory Kalloc
  imports Spinlock
begin

text \<open>
  The physical page allocator (\<^verbatim>\<open>kernel/kalloc.c\<close>). The free list is threaded through the free pages
  themselves: \<open>r->next\<close> is the 64-bit word at the start of the page \<open>r\<close> in memory. \<open>kend\<close> is the
  linker's symbol \<open>end\<close>, the first address after the kernel.

  The abstraction is the list of free pages that the chain of \<open>next\<close> words spells out
  (\<open>free_list\<close>). Every operation is shown to be a stack operation on that list, to keep the invariant
  that the free pages are distinct, aligned and inside \<open>[end, PHYSTOP)\<close>, and to leave all other memory alone. The
  locale \<open>page_allocator\<close> states what the rest of the kernel relies on.
\<close>

subsection \<open>State and operations\<close>

record kmem = kbase +
  mem :: memory
  freelist :: u64
  kend :: u64

type_synonym ('x, 'a) kmemfun = "('x kmem_scheme, 'a) kfun"

definition mem_modify :: "(memory \<Rightarrow> memory) \<Rightarrow> ('x, unit) kmemfun" where
  "mem_modify f = modify (\<lambda>s. s\<lparr>mem := f (mem s)\<rparr>)"

definition kfree :: "u64 \<Rightarrow> ('x, unit) kmemfun" where
  "kfree pa =
     kbind (gets kend) (\<lambda>e.
     if pa mod PGSIZE \<noteq> 0 \<or> pa < e \<or> pa \<ge> PHYSTOP then panic ''kfree''
     else
       kseq (mem_modify (\<lambda>m. memset m (unat pa) 1 (unat PGSIZE)))
       (kseq (acquire KmemLock)
       (kseq (modify (\<lambda>s. s\<lparr>mem := store64 (mem s) (unat pa) (freelist s)\<rparr>))
       (kseq (modify (\<lambda>s. s\<lparr>freelist := pa\<rparr>))
       (release KmemLock)))))"

function freerange_loop :: "nat \<Rightarrow> nat \<Rightarrow> ('x, unit) kmemfun" where
  "freerange_loop p e =
     (if p + unat PGSIZE \<le> e
      then kseq (kfree (of_nat p)) (freerange_loop (p + unat PGSIZE) e) else kskip)"
  by pat_completeness auto
termination by (relation "measure (\<lambda>(p, e). e - p)") auto

declare freerange_loop.simps [simp del]

definition freerange :: "u64 \<Rightarrow> u64 \<Rightarrow> ('x, unit) kmemfun" where
  "freerange pa_start pa_end = freerange_loop (unat (PGROUNDUP pa_start)) (unat pa_end)"

definition kinit :: "('x, unit) kmemfun" where
  "kinit = kseq (initlock KmemLock ''kmem'') (kbind (gets kend) (\<lambda>e. freerange e PHYSTOP))"

definition kalloc :: "('x, u64) kmemfun" where
  "kalloc =
     kseq (acquire KmemLock)
     (kbind (gets freelist) (\<lambda>r.
      kseq (kwhen (r \<noteq> 0) (modify (\<lambda>s. s\<lparr>freelist := load64 (mem s) (unat r)\<rparr>)))
      (kseq (release KmemLock)
      (kseq (kwhen (r \<noteq> 0) (mem_modify (\<lambda>m. memset m (unat r) 5 (unat PGSIZE))))
      (kret r)))))"

partial_function (option) getfreemem_loop :: "memory \<Rightarrow> u64 \<Rightarrow> u64 \<Rightarrow> u64 option" where
  "getfreemem_loop m r bytes =
     (if r \<noteq> 0 then getfreemem_loop m (load64 m (unat r)) (bytes + PGSIZE) else Some bytes)"

definition getfreemem :: "('x, u64) kmemfun" where
  "getfreemem =
     kseq (acquire KmemLock)
     (kbind (gets (\<lambda>s. getfreemem_loop (mem s) (freelist s) 0)) (\<lambda>r.
      kbind (of_loop r) (\<lambda>bytes.
      kseq (release KmemLock)
      (kret bytes))))"

subsection \<open>Pages as sets of addresses\<close>

definition in_page :: "u64 \<Rightarrow> nat \<Rightarrow> bool" where
  "in_page p x \<longleftrightarrow> unat p \<le> x \<and> x < unat p + 4096"

lemma page_aligned_gap:
  assumes "page_aligned p" "page_aligned q" "unat p < unat q"
  shows "unat p + 4096 \<le> unat q"
proof -
  obtain i j where "unat p = 4096 * i" "unat q = 4096 * j"
    using assms by (auto simp: page_aligned_def mod_eq_0_iff_dvd elim!: dvdE)
  with assms(3) show ?thesis by simp
qed

lemma in_page_unique:
  assumes "page_aligned p" "page_aligned q" "in_page p x" "in_page q x"
  shows "p = q"
  using page_aligned_gap [of p q] page_aligned_gap [of q p] assms
  by (cases "unat p" "unat q" rule: linorder_cases)
    (auto simp: in_page_def word_unat_eq_iff)

definition same_outside :: "u64 set \<Rightarrow> memory \<Rightarrow> memory \<Rightarrow> bool" where
  "same_outside P m m' \<longleftrightarrow> (\<forall>x. (\<forall>p\<in>P. \<not> in_page p x) \<longrightarrow> m' x = m x)"

lemma same_outside_refl [simp]: "same_outside P m m"
  by (simp add: same_outside_def)

lemma same_outside_trans [trans]:
  "same_outside P m m' \<Longrightarrow> same_outside Q m' m'' \<Longrightarrow> same_outside (P \<union> Q) m m''"
  by (simp add: same_outside_def)

lemma same_outside_trans1:
  "same_outside P m m' \<Longrightarrow> same_outside P m' m'' \<Longrightarrow> same_outside P m m''"
  by (simp add: same_outside_def)

lemma same_outside_mono: "same_outside P m m' \<Longrightarrow> P \<subseteq> Q \<Longrightarrow> same_outside Q m m'"
  by (auto simp: same_outside_def)

lemma same_outside_load64:
  assumes "same_outside P m m'" and "\<forall>q\<in>P. page_aligned q" and "page_aligned p" "p \<notin> P" "k + 8 \<le> 4096"
  shows "load64 m' (unat p + k) = load64 m (unat p + k)"
proof (rule load64_cong)
  fix x assume "unat p + k \<le> x" "x < unat p + k + 8"
  then have "in_page p x" using assms(5) by (simp add: in_page_def)
  then have "\<forall>q\<in>P. \<not> in_page q x"
    using assms(2-4) in_page_unique by blast
  then show "m' x = m x" using assms(1) by (simp add: same_outside_def)
qed

subsection \<open>The free list\<close>

primrec free_chain :: "memory \<Rightarrow> u64 \<Rightarrow> u64 list \<Rightarrow> bool" where
  "free_chain m p [] \<longleftrightarrow> p = 0"
| "free_chain m p (x # xs) \<longleftrightarrow> p = x \<and> p \<noteq> 0 \<and> free_chain m (load64 m (unat p)) xs"

definition page_ok :: "u64 \<Rightarrow> u64 \<Rightarrow> bool" where
  "page_ok e p \<longleftrightarrow> page_aligned p \<and> 0 < p \<and> e \<le> p \<and> p < PHYSTOP"

definition free_list :: "'x kmem_scheme \<Rightarrow> u64 list \<Rightarrow> bool" where
  "free_list s ps \<longleftrightarrow> free_chain (mem s) (freelist s) ps \<and> distinct ps \<and>
     (\<forall>p\<in>set ps. page_ok (kend s) p)"

definition kmem_ready :: "'x kmem_scheme \<Rightarrow> bool" where
  "kmem_ready s \<longleftrightarrow> hw_ok (hw s) \<and> lock_free KmemLock (hw s)"

lemma free_chain_cong:
  assumes "\<And>x. x \<in> set ps \<Longrightarrow> load64 m' (unat x) = load64 m (unat x)"
  shows "free_chain m' p ps = free_chain m p ps"
  using assms by (induction ps arbitrary: p) auto

lemma free_chain_same_outside:
  assumes "same_outside P m m'" and "\<forall>q\<in>P. page_aligned q" and "P \<inter> set ps = {}"
    and "\<forall>p\<in>set ps. page_aligned p"
  shows "free_chain m' p ps = free_chain m p ps"
proof (rule free_chain_cong)
  fix x assume "x \<in> set ps"
  then show "load64 m' (unat x) = load64 m (unat x)"
    using same_outside_load64 [OF assms(1,2), of x 0] assms(3,4) by auto
qed

lemma free_chain_unique: "free_chain m p ps \<Longrightarrow> free_chain m p qs \<Longrightarrow> ps = qs"
proof (induction ps arbitrary: p qs)
  case Nil
  then show ?case by (cases qs) auto
next
  case (Cons x ps)
  then show ?case by (cases qs) auto
qed

lemma same_outside_memset [simp]: "same_outside {p} m (memset m (unat p) c 4096)"
  by (auto simp: same_outside_def in_page_def memset_apply)

lemma same_outside_store64:
  "k + 8 \<le> 4096 \<Longrightarrow> same_outside {p} m (store64 m (unat p + k) v)"
  by (auto simp: same_outside_def in_page_def intro!: store64_outside)


lemma same_outside_store64_0: "same_outside {p} m (store64 m (unat p) v)"
  using same_outside_store64 [of 0 p m v] by simp

subsection \<open>Behaviour of the operations\<close>

lemma kmem_readyD: "kmem_ready s \<Longrightarrow> hw_ok (hw s)" "kmem_ready s \<Longrightarrow> lock_free KmemLock (hw s)"
  by (simp_all add: kmem_ready_def)

lemma kmem_ready_simps [simp]:
  "kmem_ready (s\<lparr>mem := m\<rparr>) = kmem_ready s" "kmem_ready (s\<lparr>freelist := f\<rparr>) = kmem_ready s"
  "kmem_ready (s\<lparr>hw := hw_touch (hw s)\<rparr>) = kmem_ready s"
  by (simp_all add: kmem_ready_def)

lemma free_list_simps [simp]: "free_list (s\<lparr>hw := h\<rparr>) ps = free_list s ps"
  by (simp add: free_list_def)

lemma kalloc_empty:
  assumes "kmem_ready s" and "free_list s []"
  shows "kalloc s = Ret 0 (s\<lparr>hw := hw_touch (hw s)\<rparr>)"
  using assms by (simp add: kalloc_def kexec kmem_readyD free_list_def)

lemma kalloc_page:
  assumes "kmem_ready s" and "free_list s (p # ps)"
  shows "kalloc s = Ret p (s\<lparr>freelist := load64 (mem s) (unat p), hw := hw_touch (hw s),
    mem := memset (mem s) (unat p) 5 4096\<rparr>)"
  using assms by (auto simp: kalloc_def kexec kmem_readyD free_list_def mem_modify_def)

lemma free_list_kalloc:
  assumes "free_list s (p # ps)"
  shows "free_list (s\<lparr>freelist := load64 (mem s) (unat p), hw := h, mem := memset (mem s) (unat p) c 4096\<rparr>) ps"
proof -
  have "free_chain (memset (mem s) (unat p) c 4096) (load64 (mem s) (unat p)) ps =
      free_chain (mem s) (load64 (mem s) (unat p)) ps"
    by (rule free_chain_same_outside [of "{p}"]) (use assms in \<open>auto simp: free_list_def page_ok_def\<close>)
  with assms show ?thesis by (auto simp: free_list_def)
qed

lemma kfree_page:
  assumes "kmem_ready s" and "page_ok (kend s) p"
  shows "kfree p s = Ret () (s\<lparr>hw := hw_touch (hw s),
    mem := store64 (memset (mem s) (unat p) 1 4096) (unat p) (freelist s), freelist := p\<rparr>)"
proof -
  have "p mod PGSIZE = 0" "\<not> p < kend s" "\<not> PHYSTOP \<le> p"
    using assms(2) u64_mod_PGSIZE [of p] by (auto simp: page_ok_def)
  with assms(1) show ?thesis
    by (simp add: kfree_def kexec kmem_readyD mem_modify_def)
qed

lemma kfree_bad_page:
  "\<not> page_ok (kend s) p \<Longrightarrow> p \<noteq> 0 \<Longrightarrow> kfree p s = Panic ''kfree'' s"
  using u64_mod_PGSIZE [of p] by (auto simp: kfree_def page_ok_def word_gt_0)

lemma free_list_kfree:
  assumes "free_list s ps" and "page_ok (kend s) p" and "p \<notin> set ps"
  shows "free_list (s\<lparr>hw := h, mem := store64 (memset (mem s) (unat p) c 4096) (unat p) (freelist s),
    freelist := p\<rparr>) (p # ps)"
proof -
  let ?m = "store64 (memset (mem s) (unat p) c 4096) (unat p) (freelist s)"
  have "same_outside {p} (memset (mem s) (unat p) c 4096) ?m"
    by (rule same_outside_store64_0)
  then have "same_outside {p} (mem s) ?m"
    by (rule same_outside_trans1 [OF same_outside_memset])
  then have "free_chain ?m (freelist s) ps = free_chain (mem s) (freelist s) ps"
    by (rule free_chain_same_outside) (use assms in \<open>auto simp: free_list_def page_ok_def\<close>)
  with assms show ?thesis by (auto simp: free_list_def page_ok_def)
qed

lemma getfreemem_loop_chain:
  assumes "free_chain m p ps"
  shows "getfreemem_loop m p b = Some (b + of_nat (length ps) * PGSIZE)"
  using assms
proof (induction ps arbitrary: p b)
  case Nil
  then show ?case by (subst getfreemem_loop.simps) simp
next
  case (Cons x ps)
  then show ?case by (subst getfreemem_loop.simps) (auto simp: algebra_simps)
qed

lemma getfreemem_eq:
  assumes "kmem_ready s" and "free_list s ps"
  shows "getfreemem s = Ret (of_nat (length ps) * PGSIZE) (s\<lparr>hw := hw_touch (hw s)\<rparr>)"
  using assms getfreemem_loop_chain [of "mem s" "freelist s" ps 0]
  by (simp add: getfreemem_def kexec kmem_readyD free_list_def)

subsection \<open>The contract of the allocator\<close>

text \<open>\<open>avail s ps\<close>: in state \<open>s\<close> the allocator may be called and has exactly the pages \<open>ps\<close> to give.\<close>

locale page_allocator =
  fixes alloc :: "('s, u64) kfun" and free :: "u64 \<Rightarrow> ('s, unit) kfun"
    and avail :: "'s \<Rightarrow> u64 list \<Rightarrow> bool" and usable :: "'s \<Rightarrow> u64 \<Rightarrow> bool" and memof :: "'s \<Rightarrow> memory"
  assumes alloc_none: "avail s [] \<Longrightarrow> \<exists>s'. alloc s = Ret 0 s' \<and> avail s' [] \<and> memof s' = memof s \<and>
      usable s' = usable s"
    and alloc_some: "avail s (p # ps) \<Longrightarrow> \<exists>s'. alloc s = Ret p s' \<and> avail s' ps \<and>
      same_outside {p} (memof s) (memof s') \<and> usable s' = usable s"
    and free_page: "avail s ps \<Longrightarrow> usable s p \<Longrightarrow> p \<notin> set ps \<Longrightarrow> \<exists>s'. free p s = Ret () s' \<and>
      avail s' (p # ps) \<and> same_outside {p} (memof s) (memof s') \<and> usable s' = usable s"
    and avail_ok: "avail s ps \<Longrightarrow> distinct ps \<and> (\<forall>p\<in>set ps. p \<noteq> 0 \<and> usable s p)"
begin

text \<open>A client that takes up to \<open>n\<close> pages, and one that gives a list of pages back.\<close>

primrec alloc_n :: "nat \<Rightarrow> ('s, u64 list) kfun" where
  "alloc_n 0 = kret []"
| "alloc_n (Suc n) = kbind alloc (\<lambda>p.
     if p = 0 then kret [] else kbind (alloc_n n) (\<lambda>ps. kret (p # ps)))"

lemma alloc_n_take:
  assumes "avail s ps"
  shows "\<exists>s'. alloc_n n s = Ret (take n ps) s' \<and> avail s' (drop n ps) \<and> usable s' = usable s \<and>
    same_outside (set (take n ps)) (memof s) (memof s')"
  using assms
proof (induction n arbitrary: s ps)
  case (Suc n)
  show ?case
  proof (cases ps)
    case Nil
    with alloc_none [of s] Suc.prems show ?thesis by auto
  next
    case (Cons p qs)
    then obtain s1 where s1: "alloc s = Ret p s1" "avail s1 qs" "usable s1 = usable s"
        "same_outside {p} (memof s) (memof s1)"
      using alloc_some Suc.prems by blast
    obtain s2 where s2: "alloc_n n s1 = Ret (take n qs) s2" "avail s2 (drop n qs)" "usable s2 = usable s1"
        "same_outside (set (take n qs)) (memof s1) (memof s2)"
      using Suc.IH [OF s1(2)] by blast
    have "p \<noteq> 0" using avail_ok [OF Suc.prems] Cons by simp
    moreover have "same_outside (insert p (set (take n qs))) (memof s) (memof s2)"
      using same_outside_trans [OF s1(4) s2(4)] by simp
    ultimately show ?thesis using s1 s2 Cons by simp
  qed
qed (simp add: assms)

lemma free_all:
  assumes "avail s ps" and "distinct qs" and "set qs \<inter> set ps = {}" and "\<forall>q\<in>set qs. usable s q"
  shows "\<exists>s'. for_each qs free s = Ret () s' \<and> avail s' (rev qs @ ps) \<and> usable s' = usable s \<and>
    same_outside (set qs) (memof s) (memof s')"
  using assms
proof (induction qs arbitrary: s ps)
  case (Cons q qs)
  then obtain s1 where s1: "free q s = Ret () s1" "avail s1 (q # ps)" "usable s1 = usable s"
      "same_outside {q} (memof s) (memof s1)"
    using free_page [of s ps q] by auto
  have "distinct qs" "set qs \<inter> set (q # ps) = {}" "\<forall>q\<in>set qs. usable s1 q"
    using Cons.prems s1(3) by auto
  then obtain s2 where s2: "for_each qs free s1 = Ret () s2" "avail s2 (rev qs @ q # ps)"
      "usable s2 = usable s1" "same_outside (set qs) (memof s1) (memof s2)"
    using Cons.IH [OF s1(2)] by blast
  have "same_outside (set (q # qs)) (memof s) (memof s2)"
    using same_outside_trans [OF s1(4) s2(4)] by simp
  then show ?case using s1 s2 by simp
qed simp

lemma alloc_free_all:
  assumes "avail s ps"
  shows "\<exists>s' s''. alloc_n n s = Ret (take n ps) s' \<and> avail s' (drop n ps) \<and>
    for_each (take n ps) free s' = Ret () s'' \<and> avail s'' (rev (take n ps) @ drop n ps) \<and>
    same_outside (set (take n ps)) (memof s) (memof s'')"
proof -
  obtain s' where s': "alloc_n n s = Ret (take n ps) s'" "avail s' (drop n ps)" "usable s' = usable s"
      "same_outside (set (take n ps)) (memof s) (memof s')"
    using alloc_n_take [OF assms] by blast
  have "distinct (take n ps)" "set (take n ps) \<inter> set (drop n ps) = {}" "\<forall>p\<in>set (take n ps). usable s' p"
    using avail_ok [OF assms] s'(3) set_take_disj_set_drop_if_distinct [of ps n n]
    by (auto dest: in_set_takeD)
  from free_all [OF s'(2) this] obtain s'' where
    "for_each (take n ps) free s' = Ret () s''" "avail s'' (rev (take n ps) @ drop n ps)"
    "same_outside (set (take n ps)) (memof s') (memof s'')" by blast
  then show ?thesis using s' same_outside_trans1 [OF s'(4)] by blast
qed

end

definition kmem_avail :: "'x kmem_scheme \<Rightarrow> u64 list \<Rightarrow> bool" where
  "kmem_avail s ps \<longleftrightarrow> kmem_ready s \<and> free_list s ps"

lemma kmem_ready_cong: "hw s' = hw_touch (hw s) \<Longrightarrow> kmem_ready s' = kmem_ready s"
  by (simp add: kmem_ready_def)

lemma kalloc_avail:
  assumes "kmem_avail s (p # ps)"
  defines "s' \<equiv> s\<lparr>freelist := load64 (mem s) (unat p), hw := hw_touch (hw s),
    mem := memset (mem s) (unat p) 5 4096\<rparr>"
  shows "kalloc s = Ret p s'" "kmem_avail s' ps" "kend s' = kend s"
    "same_outside {p} (mem s) (mem s')"
proof -
  have s: "kmem_ready s" "free_list s (p # ps)"
    using assms(1) by (simp_all add: kmem_avail_def)
  show "kalloc s = Ret p s'" unfolding s'_def by (rule kalloc_page [OF s])
  have "free_list s' ps" unfolding s'_def by (rule free_list_kalloc [OF s(2)])
  moreover have "kmem_ready s'" using s(1) kmem_ready_cong [of s' s] by (simp add: s'_def)
  ultimately show "kmem_avail s' ps" by (simp add: kmem_avail_def)
qed (simp_all add: s'_def)

lemma same_outside_kfree: "same_outside {p} m (store64 (memset m (unat p) c 4096) (unat p) v)"
  by (rule same_outside_trans1 [OF same_outside_memset same_outside_store64_0])

lemma kfree_avail:
  assumes "kmem_avail s ps" and "page_ok (kend s) p" and "p \<notin> set ps"
  defines "s' \<equiv> s\<lparr>hw := hw_touch (hw s),
    mem := store64 (memset (mem s) (unat p) 1 4096) (unat p) (freelist s), freelist := p\<rparr>"
  shows "kfree p s = Ret () s'" "kmem_avail s' (p # ps)" "kend s' = kend s"
    "same_outside {p} (mem s) (mem s')"
proof -
  have s: "kmem_ready s" "free_list s ps"
    using assms(1) by (simp_all add: kmem_avail_def)
  show "kfree p s = Ret () s'" unfolding s'_def by (rule kfree_page [OF s(1) assms(2)])
  have "free_list s' (p # ps)" unfolding s'_def by (rule free_list_kfree [OF s(2) assms(2,3)])
  moreover have "hw s' = hw_touch (hw s)" by (simp add: s'_def)
  then have "kmem_ready s'" using s(1) kmem_ready_cong by blast
  ultimately show "kmem_avail s' (p # ps)" by (simp only: kmem_avail_def)
  show "same_outside {p} (mem s) (mem s')"
    by (simp add: s'_def same_outside_kfree)
  show "kend s' = kend s" by (simp add: s'_def)
qed

lemma kmem_avail_ok:
  "kmem_avail s ps \<Longrightarrow> distinct ps \<and> (\<forall>p\<in>set ps. p \<noteq> 0 \<and> page_ok (kend s) p)"
  unfolding kmem_avail_def free_list_def page_ok_def word_gt_0 by blast

lemma kalloc_avail_none:
  "kmem_avail s [] \<Longrightarrow> kalloc s = Ret 0 (s\<lparr>hw := hw_touch (hw s)\<rparr>) \<and>
     kmem_avail (s\<lparr>hw := hw_touch (hw s)\<rparr>) []"
  by (simp add: kmem_avail_def kalloc_empty)

interpretation kpages: page_allocator kalloc kfree kmem_avail "\<lambda>s. page_ok (kend s)" mem
proof (unfold_locales, goal_cases)
  case (1 s)
  then show ?case
    using kalloc_avail_none [of s] by (intro exI [of _ "s\<lparr>hw := hw_touch (hw s)\<rparr>"]) simp
next
  case (2 s p ps)
  show ?case by (metis kalloc_avail [OF 2])
next
  case (3 s ps p)
  show ?case by (metis kfree_avail [OF 3])
next
  case (4 s ps)
  then show ?case by (rule kmem_avail_ok)
qed

subsection \<open>Building the free list\<close>

lemma freerange_loop_avail:
  assumes "kmem_avail s ps" and "\<forall>q\<in>set ps. unat q < p" and "p mod 4096 = 0" and "0 < p"
    and "unat (kend s) \<le> p" and "e \<le> unat PHYSTOP"
  shows "\<exists>s'. freerange_loop p e s = Ret () s' \<and> kend s' = kend s \<and>
    kmem_avail s' (rev (map (\<lambda>i. of_nat (p + 4096 * i)) [0..<(e - p) div 4096]) @ ps)"
  using assms
proof (induction "(e - p) div 4096" arbitrary: p s ps)
  case 0
  then have "\<not> p + 4096 \<le> e" by (simp add: div_eq_0_iff)
  then show ?case using 0 by (subst freerange_loop.simps) simp
next
  case (Suc n)
  then have le: "p + 4096 \<le> e" and n: "n = (e - (p + 4096)) div 4096"
    by (auto simp: div_greater_zero_iff dest: sym)
  have p: "unat (of_nat p :: u64) = p" and pe: "p < unat PHYSTOP"
    using le Suc.prems(6) by (simp_all add: PHYSTOP_val unat_of_nat)
  then have ok: "page_ok (kend s) (of_nat p)"
    using Suc.prems(3-5) by (simp add: page_ok_def page_aligned_def word_le_nat_alt word_less_nat_alt)
  have new: "of_nat p \<notin> set ps" using Suc.prems(2) p by fastforce
  note kf = kfree_avail [OF Suc.prems(1) ok new]
  let ?s = "s\<lparr>hw := hw_touch (hw s), mem := store64 (memset (mem s) (unat (of_nat p :: u64)) 1 4096)
    (unat (of_nat p :: u64)) (freelist s), freelist := of_nat p\<rparr>"
  have below: "\<forall>q\<in>set (of_nat p # ps). unat q < p + 4096"
    using Suc.prems(2) p by fastforce
  have al: "(p + 4096) mod 4096 = 0" using Suc.prems(3) by simp
  obtain s' where s': "freerange_loop (p + 4096) e ?s = Ret () s'" "kend s' = kend s"
      "kmem_avail s' (rev (map (\<lambda>i. of_nat (p + 4096 + 4096 * i)) [0..<n]) @ of_nat p # ps)"
    using Suc.hyps(1) [OF n kf(2) below al] Suc.prems(5,6) n kf(3) by auto
  have step: "freerange_loop p e s = Ret () s'"
    using le kf(1) s'(1) by (subst freerange_loop.simps) simp
  have "[0..<Suc n] = 0 # map Suc [0..<n]" by (simp add: upt_conv_Cons map_Suc_upt del: upt_Suc)
  then have "rev (map (\<lambda>i. of_nat (p + 4096 * i)) [0..<Suc n]) @ ps =
      rev (map (\<lambda>i. of_nat (p + 4096 + 4096 * i)) [0..<n]) @ (of_nat p :: u64) # ps"
    by (simp add: comp_def add.assoc del: upt_Suc)
  then show ?case using step s'(2,3) Suc.hyps(2) by simp
qed

subsection \<open>Properties\<close>

text \<open>C5: \<open>kalloc\<close> is a pop of the free list. With no free page it returns 0 and changes nothing; otherwise it
  returns the first free page, which is aligned, inside \<open>[end, PHYSTOP)\<close> and no longer free; the page is filled with
  5s, every other byte of memory is unchanged, and the allocator's invariant holds again.\<close>

theorem kalloc_pops:
  assumes "kmem_avail s ps"
  shows "case ps of
      [] \<Rightarrow> kalloc s = Ret 0 (s\<lparr>hw := hw_touch (hw s)\<rparr>)
    | p # qs \<Rightarrow> \<exists>s'. kalloc s = Ret p s' \<and> kmem_avail s' qs \<and> page_ok (kend s) p \<and> p \<notin> set qs \<and>
        same_outside {p} (mem s) (mem s') \<and> (\<forall>x. in_page p x \<longrightarrow> mem s' x = 5)"
proof (cases ps)
  case Nil
  then show ?thesis using kalloc_avail_none [of s] assms by simp
next
  case (Cons p qs)
  have "distinct ps \<and> (\<forall>p\<in>set ps. p \<noteq> 0 \<and> page_ok (kend s) p)" by (rule kmem_avail_ok [OF assms])
  then show ?thesis
    using kalloc_avail [of s p qs] assms Cons by (auto simp: memset_apply in_page_def)
qed

definition two_pages :: kmem where
  "two_pages = \<lparr>hw = boot_hw, mem = store64 (\<lambda>_. 0) 0x87FFF000 0x87FFE000, freelist = 0x87FFF000,
     kend = 0x80020000\<rparr>"

lemma two_pages_avail: "kmem_avail two_pages [0x87FFF000, 0x87FFE000]"
proof -
  have "load64 (store64 (\<lambda>_. 0) 0x87FFF000 v) 0x87FFE000 = 0" for v
    by (subst load64_store64_disj) simp_all
  then show ?thesis
    by (simp add: kmem_avail_def kmem_ready_def free_list_def two_pages_def page_ok_def page_aligned_def
        PHYSTOP_val)
qed

theorem kalloc_pops_witness:
  "\<exists>s'. kalloc two_pages = Ret 0x87FFF000 s' \<and> kmem_avail s' [0x87FFE000] \<and> mem s' 0x87FFFABC = 5"
  using kalloc_pops [OF two_pages_avail] by (auto simp: in_page_def)

text \<open>C6: \<open>kfree\<close> panics on a page that is misaligned or outside \<open>[end, PHYSTOP)\<close>; on any other page that is not
  already free it is a push on the free list that touches no other page, and the next \<open>kalloc\<close> returns
  that page and leaves the list as it was.\<close>

theorem kfree_pushes:
  assumes "kmem_avail s ps" and "p \<notin> set ps" and "p \<noteq> 0"
  shows "if page_ok (kend s) p
    then \<exists>s' s''. kfree p s = Ret () s' \<and> kmem_avail s' (p # ps) \<and> same_outside {p} (mem s) (mem s') \<and>
      kalloc s' = Ret p s'' \<and> kmem_avail s'' ps
    else kfree p s = Panic ''kfree'' s"
proof (cases "page_ok (kend s) p")
  case True
  note kf = kfree_avail [OF assms(1) True assms(2)]
  show ?thesis using True kf(1,2,4) kalloc_avail [OF kf(2)] by auto
next
  case False
  then show ?thesis using kfree_bad_page [OF False assms(3)] by simp
qed

theorem kfree_pushes_witness:
  "(\<exists>s' s''. kfree 0x80020000 two_pages = Ret () s' \<and>
      kmem_avail s' [0x80020000, 0x87FFF000, 0x87FFE000] \<and> kalloc s' = Ret 0x80020000 s'') \<and>
   kfree 0x80000000 two_pages = Panic ''kfree'' two_pages"
  using kfree_pushes [OF two_pages_avail, where p = "0x80020000"]
    kfree_pushes [OF two_pages_avail, where p = "0x80000000"]
  by (auto simp: page_ok_def page_aligned_def PHYSTOP_val two_pages_def)

text \<open>C7: a client that takes \<open>n\<close> pages gets the first \<open>n\<close> free pages, all different; giving them back
  succeeds, restores the number of free pages, and the whole exchange changes no byte outside those pages.\<close>

theorem kalloc_kfree_many:
  assumes "kmem_avail s ps"
  shows "\<exists>s' s''. kpages.alloc_n n s = Ret (take n ps) s' \<and> distinct (take n ps) \<and>
    kmem_avail s' (drop n ps) \<and> for_each (take n ps) kfree s' = Ret () s'' \<and>
    kmem_avail s'' (rev (take n ps) @ drop n ps) \<and> same_outside (set (take n ps)) (mem s) (mem s'')"
  using kpages.alloc_free_all [OF assms, of n] kmem_avail_ok [OF assms] by (simp add: distinct_take)

theorem kalloc_kfree_many_witness:
  "\<exists>s' s''. kpages.alloc_n 2 two_pages = Ret [0x87FFF000, 0x87FFE000] s' \<and>
     for_each [0x87FFF000, 0x87FFE000] kfree s' = Ret () s'' \<and> kmem_avail s'' [0x87FFE000, 0x87FFF000]"
  using kalloc_kfree_many [OF two_pages_avail, of 2] by auto

text \<open>C8: \<open>kinit\<close> puts every whole page between \<open>end\<close> and \<open>PHYSTOP\<close> on the free list, each exactly once.\<close>

theorem kinit_frees_all_pages:
  assumes "hw_ok (hw s)" and "freelist s = 0" and "0 < kend s" and "kend s \<le> PHYSTOP"
  shows "\<exists>s'. kinit s = Ret () s' \<and> kend s' = kend s \<and> kmem_avail s' (rev (map
    (\<lambda>i. of_nat (unat (PGROUNDUP (kend s)) + 4096 * i))
    [0..<(unat PHYSTOP - unat (PGROUNDUP (kend s))) div 4096]))"
proof -
  let ?s = "s\<lparr>hw := set_lock KmemLock (\<lambda>l. l\<lparr>lk_name := ''kmem'', locked := 0, lk_cpu := None\<rparr>) (hw s)\<rparr>"
  have av: "kmem_avail ?s []"
    using assms(1,2) by (simp add: kmem_avail_def kmem_ready_def free_list_def)
  have "unat (kend s) \<le> unat PHYSTOP" using assms(4) by (simp add: word_le_nat_alt)
  then have up: "unat (PGROUNDUP (kend s)) = (unat (kend s) + 4095) div 4096 * 4096"
    by (intro unat_PGROUNDUP) (simp add: PHYSTOP_val)
  have "0 < unat (kend s)" using assms(3) by (simp add: word_less_nat_alt)
  then have "unat (kend s) \<le> unat (PGROUNDUP (kend s))" "unat (PGROUNDUP (kend s)) mod 4096 = 0"
    unfolding up by auto
  with \<open>0 < unat (kend s)\<close> freerange_loop_avail [OF av, of "unat (PGROUNDUP (kend s))" "unat PHYSTOP"]
  show ?thesis by (simp add: kinit_def initlock_eq freerange_def)
qed

definition boot_kmem :: kmem where
  "boot_kmem = \<lparr>hw = boot_hw, mem = \<lambda>_. 0, freelist = 0, kend = 0x87FFD123\<rparr>"

theorem kinit_frees_all_pages_witness:
  "\<exists>s'. kinit boot_kmem = Ret () s' \<and> kmem_avail s' [0x87FFF000, 0x87FFE000]"
  using kinit_frees_all_pages [of boot_kmem]
  by (auto simp: boot_kmem_def PHYSTOP_val PGROUNDUP_def PGSIZE_def upt_rec)

text \<open>C9: \<open>getfreemem\<close> terminates and returns 4096 times the number of free pages, exactly, changing neither memory
  nor the free list; so it is 4096 lower after a successful \<open>kalloc\<close>.\<close>

theorem getfreemem_counts:
  assumes "kmem_avail s ps"
  shows "\<exists>n s'. getfreemem s = Ret n s' \<and> unat n = 4096 * length ps \<and> s' = s\<lparr>hw := hw_touch (hw s)\<rparr> \<and>
    (ps \<noteq> [] \<longrightarrow> (\<exists>p t t'. kalloc s = Ret p t \<and> getfreemem t = Ret (n - 4096) t'))"
proof -
  have "distinct ps \<and> (\<forall>p\<in>set ps. page_ok (kend s) p)"
    using kmem_avail_ok [OF assms] by blast
  then have "inj_on unat (set ps)" "unat ` set ps \<subseteq> {..<unat PHYSTOP}" "distinct ps"
    by (auto simp: inj_on_def word_unat_eq_iff page_ok_def word_less_nat_alt)
  then have "length ps \<le> unat PHYSTOP"
    using card_mono [of "{..<unat PHYSTOP}" "unat ` set ps"] by (simp add: card_image distinct_card)
  then have "4096 * length ps < 2 ^ 64" by (simp add: PHYSTOP_val)
  then have n: "unat (of_nat (length ps) * PGSIZE) = 4096 * length ps"
    by (simp add: unat_word_ariths unat_of_nat)
  have "getfreemem s = Ret (of_nat (length ps) * PGSIZE) (s\<lparr>hw := hw_touch (hw s)\<rparr>)"
    using assms by (simp add: kmem_avail_def getfreemem_eq)
  moreover have "\<exists>p t t'. kalloc s = Ret p t \<and> getfreemem t = Ret (of_nat (length ps) * PGSIZE - 4096) t'"
    if "ps \<noteq> []"
  proof -
    obtain p qs where ps: "ps = p # qs" using \<open>ps \<noteq> []\<close> by (cases ps) auto
    note ka = kalloc_avail [OF assms [unfolded ps]]
    show ?thesis
      using ka(1) getfreemem_eq [OF ka(2) [unfolded kmem_avail_def, THEN conjunct1]
          ka(2) [unfolded kmem_avail_def, THEN conjunct2]]
      by (auto simp: ps PGSIZE_def algebra_simps)
  qed
  ultimately show ?thesis using n by blast
qed

theorem getfreemem_counts_witness:
  "\<exists>n s'. getfreemem two_pages = Ret n s' \<and> unat n = 8192"
  using getfreemem_counts [OF two_pages_avail] by auto

end
