(* ===== verification/Vm.thy ===== *)
theory Vm
  imports Kalloc
begin

text \<open>
  Virtual memory (\<^verbatim>\<open>kernel/vm.c\<close>): three-level Sv39 page tables kept in physical memory, one 64-bit
  entry per word, and the operations on user address spaces built on them.

  A page table is the address of its root page; entry \<open>i\<close> of a table page \<open>t\<close> is the word at
  \<open>t + 8 * i\<close>, so \<open>walk\<close>, \<open>mappages\<close>, \<open>uvmunmap\<close>, \<open>freewalk\<close> read and write the same memory that the
  allocator threads its free list through. A kernel buffer given to \<open>copyout\<close> or filled by \<open>copyin\<close> and
  \<open>copyinstr\<close> is a list of bytes; \<open>copyin\<close> and \<open>copyinstr\<close> return what they have stored in it beside
  their result. Loops over addresses stop at \<open>MAXVA\<close>, where \<open>walk\<close> has panicked, which makes their
  termination evident.
\<close>

subsection \<open>State\<close>

record kvm = kmem +
  kernel_pagetable :: u64
  satp :: "nat \<Rightarrow> u64"
  etext :: u64
  trampoline :: u64

type_synonym ('x, 'a) kvmfun = "('x kvm_scheme, 'a) kfun"

subsection \<open>Walking\<close>

definition pte_addr :: "u64 \<Rightarrow> u64 \<Rightarrow> u64" where
  "pte_addr pagetable i = pagetable + 8 * i"

definition load_pte :: "u64 \<Rightarrow> ('x, u64) kvmfun" where
  "load_pte pte = gets (\<lambda>s. load64 (mem s) (unat pte))"

definition store_pte :: "u64 \<Rightarrow> u64 \<Rightarrow> ('x, unit) kvmfun" where
  "store_pte pte v = mem_modify (\<lambda>m. store64 m (unat pte) v)"

primrec walk_loop :: "nat \<Rightarrow> u64 \<Rightarrow> u64 \<Rightarrow> bool \<Rightarrow> ('x, u64) kvmfun" where
  "walk_loop 0 pagetable va alloc = kret (pte_addr pagetable (PX 0 va))"
| "walk_loop (Suc l) pagetable va alloc =
     kbind (load_pte (pte_addr pagetable (PX (Suc l) va))) (\<lambda>e.
     if e AND PTE_V \<noteq> 0 then walk_loop l (PTE2PA e) va alloc
     else if \<not> alloc then kret 0
     else kbind kalloc (\<lambda>pg.
       if pg = 0 then kret 0
       else kseq (mem_modify (\<lambda>m. memset m (unat pg) 0 (unat PGSIZE)))
         (kseq (store_pte (pte_addr pagetable (PX (Suc l) va)) (PA2PTE pg OR PTE_V))
         (walk_loop l pg va alloc))))"

definition walk :: "u64 \<Rightarrow> u64 \<Rightarrow> bool \<Rightarrow> ('x, u64) kvmfun" where
  "walk pagetable va alloc =
     (if va \<ge> MAXVA then panic ''walk'' else walk_loop 2 pagetable va alloc)"

definition walkaddr :: "u64 \<Rightarrow> u64 \<Rightarrow> ('x, u64) kvmfun" where
  "walkaddr pagetable va =
     (if va \<ge> MAXVA then kret 0
      else kbind (walk pagetable va False) (\<lambda>pte.
        if pte = 0 then kret 0
        else kbind (load_pte pte) (\<lambda>e.
          if e AND PTE_V = 0 then kret 0
          else if e AND PTE_U = 0 then kret 0
          else kret (PTE2PA e))))"

subsection \<open>Mapping and unmapping\<close>

lemma next_page_decreases:
  assumes "a < MAXVA"
  shows "unat (a + PGSIZE) = unat a + 4096" "unat MAXVA + 4096 - unat (a + PGSIZE) < unat MAXVA + 4096 - unat a"
proof -
  have "unat a < unat MAXVA" using assms by (simp add: word_less_nat_alt)
  then show "unat (a + PGSIZE) = unat a + 4096"
    by (simp add: unat_word_ariths MAXVA_val)
  with \<open>unat a < unat MAXVA\<close>
  show "unat MAXVA + 4096 - unat (a + PGSIZE) < unat MAXVA + 4096 - unat a" by simp
qed

function mappages_loop :: "u64 \<Rightarrow> u64 \<Rightarrow> u64 \<Rightarrow> u64 \<Rightarrow> u64 \<Rightarrow> ('x, int) kvmfun" where
  "mappages_loop pagetable a lasta pa perm =
     kbind (walk pagetable a True) (\<lambda>pte.
     if pte = 0 then kret (- 1)
     else kbind (load_pte pte) (\<lambda>e.
       if e AND PTE_V \<noteq> 0 then panic ''mappages: remap''
       else kseq (store_pte pte (PA2PTE pa OR perm OR PTE_V))
         (if a = lasta \<or> \<not> a < MAXVA then kret 0
          else mappages_loop pagetable (a + PGSIZE) lasta (pa + PGSIZE) perm)))"
  by pat_completeness auto

termination
  by (relation "measure (\<lambda>(pagetable, a, lasta, pa, perm). unat MAXVA + 4096 - unat a)")
    (use next_page_decreases(2) in auto)

declare mappages_loop.simps [simp del]

definition mappages :: "u64 \<Rightarrow> u64 \<Rightarrow> u64 \<Rightarrow> u64 \<Rightarrow> u64 \<Rightarrow> ('x, int) kvmfun" where
  "mappages pagetable va sz pa perm =
     (if sz = 0 then panic ''mappages: size''
      else mappages_loop pagetable (PGROUNDDOWN va) (PGROUNDDOWN (va + sz - 1)) pa perm)"

function uvmunmap_loop :: "u64 \<Rightarrow> u64 \<Rightarrow> u64 \<Rightarrow> bool \<Rightarrow> ('x, unit) kvmfun" where
  "uvmunmap_loop pagetable a lasta do_free =
     (if a < lasta then
        kbind (walk pagetable a False) (\<lambda>pte.
        if pte = 0 then panic ''uvmunmap: walk''
        else kbind (load_pte pte) (\<lambda>e.
          if e AND PTE_V = 0 then panic ''uvmunmap: not mapped''
          else if PTE_FLAGS e = PTE_V then panic ''uvmunmap: not a leaf''
          else kseq (kwhen do_free (kfree (PTE2PA e)))
            (kseq (store_pte pte 0)
            (if a < MAXVA then uvmunmap_loop pagetable (a + PGSIZE) lasta do_free else kskip))))
      else kskip)"
  by pat_completeness auto

termination
  by (relation "measure (\<lambda>(pagetable, a, lasta, do_free). unat MAXVA + 4096 - unat a)")
    (use next_page_decreases(2) in auto)

declare uvmunmap_loop.simps [simp del]

definition uvmunmap :: "u64 \<Rightarrow> u64 \<Rightarrow> u64 \<Rightarrow> bool \<Rightarrow> ('x, unit) kvmfun" where
  "uvmunmap pagetable va npages do_free =
     (if va mod PGSIZE \<noteq> 0 then panic ''uvmunmap: not aligned''
      else uvmunmap_loop pagetable va (va + npages * PGSIZE) do_free)"

definition kvmmap :: "u64 \<Rightarrow> u64 \<Rightarrow> u64 \<Rightarrow> u64 \<Rightarrow> u64 \<Rightarrow> ('x, unit) kvmfun" where
  "kvmmap kpgtbl va pa sz perm =
     kbind (mappages kpgtbl va sz pa perm) (\<lambda>r. if r \<noteq> 0 then panic ''kvmmap'' else kskip)"

definition proc_mapstacks :: "u64 \<Rightarrow> ('x, unit) kvmfun" where
  "proc_mapstacks kpgtbl =
     for_each [0..<NPROC] (\<lambda>p.
       kbind kalloc (\<lambda>pa.
       if pa = 0 then panic ''kalloc''
       else kvmmap kpgtbl (KSTACK p) pa PGSIZE (PTE_R OR PTE_W)))"

definition kvmmake :: "('x, u64) kvmfun" where
  "kvmmake =
     kbind kalloc (\<lambda>kpgtbl.
     kseq (mem_modify (\<lambda>m. memset m (unat kpgtbl) 0 (unat PGSIZE)))
     (kseq (kvmmap kpgtbl UART0 UART0 PGSIZE (PTE_R OR PTE_W))
     (kseq (kvmmap kpgtbl VIRTIO0 VIRTIO0 PGSIZE (PTE_R OR PTE_W))
     (kseq (kvmmap kpgtbl PLIC PLIC 0x400000 (PTE_R OR PTE_W))
     (kbind (gets etext) (\<lambda>et.
      kseq (kvmmap kpgtbl KERNBASE KERNBASE (et - KERNBASE) (PTE_R OR PTE_X))
     (kseq (kvmmap kpgtbl et et (PHYSTOP - et) (PTE_R OR PTE_W))
     (kbind (gets trampoline) (\<lambda>tr.
      kseq (kvmmap kpgtbl TRAMPOLINE tr PGSIZE (PTE_R OR PTE_X))
     (kseq (proc_mapstacks kpgtbl)
     (kret kpgtbl)))))))))))"

definition kvminit :: "('x, unit) kvmfun" where
  "kvminit = kbind kvmmake (\<lambda>p. modify (\<lambda>s. s\<lparr>kernel_pagetable := p\<rparr>))"

definition SATP_SV39 :: u64 where "SATP_SV39 = push_bit 60 8"

definition MAKE_SATP :: "u64 \<Rightarrow> u64" where
  "MAKE_SATP pagetable = SATP_SV39 OR drop_bit 12 pagetable"

definition kvminithart :: "('x, unit) kvmfun" where
  "kvminithart = modify (\<lambda>s. s\<lparr>satp := (satp s)(cpuid (hw s) := MAKE_SATP (kernel_pagetable s))\<rparr>)"

subsection \<open>User address spaces\<close>

definition uvmcreate :: "('x, u64) kvmfun" where
  "uvmcreate =
     kbind kalloc (\<lambda>pagetable.
     if pagetable = 0 then kret 0
     else kseq (mem_modify (\<lambda>m. memset m (unat pagetable) 0 (unat PGSIZE))) (kret pagetable))"

definition uvmfirst :: "u64 \<Rightarrow> u8 list \<Rightarrow> u32 \<Rightarrow> ('x, unit) kvmfun" where
  "uvmfirst pagetable src sz =
     (if unat sz \<ge> unat PGSIZE then panic ''uvmfirst: more than a page''
      else kbind kalloc (\<lambda>pg.
        kseq (mem_modify (\<lambda>m. memset m (unat pg) 0 (unat PGSIZE)))
        (kbind (mappages pagetable 0 PGSIZE pg (PTE_W OR PTE_R OR PTE_X OR PTE_U)) (\<lambda>_.
        mem_modify (\<lambda>m. mem_write m (unat pg) (take (unat sz) src))))))"

definition uvmdealloc :: "u64 \<Rightarrow> u64 \<Rightarrow> u64 \<Rightarrow> ('x, u64) kvmfun" where
  "uvmdealloc pagetable oldsz newsz =
     (if newsz \<ge> oldsz then kret oldsz
      else kseq (kwhen (PGROUNDUP newsz < PGROUNDUP oldsz)
          (uvmunmap pagetable (PGROUNDUP newsz) ((PGROUNDUP oldsz - PGROUNDUP newsz) div PGSIZE) True))
        (kret newsz))"

function uvmalloc_loop :: "u64 \<Rightarrow> u64 \<Rightarrow> u64 \<Rightarrow> u64 \<Rightarrow> u64 \<Rightarrow> ('x, u64) kvmfun" where
  "uvmalloc_loop pagetable a oldsz newsz xperm =
     (if a < newsz then
        kbind kalloc (\<lambda>pg.
        if pg = 0 then kseq (uvmdealloc pagetable a oldsz) (kret 0)
        else kseq (mem_modify (\<lambda>m. memset m (unat pg) 0 (unat PGSIZE)))
          (kbind (mappages pagetable a PGSIZE pg (PTE_R OR PTE_U OR xperm)) (\<lambda>r.
           if r \<noteq> 0 then kseq (kfree pg) (kseq (uvmdealloc pagetable a oldsz) (kret 0))
           else if a < MAXVA then uvmalloc_loop pagetable (a + PGSIZE) oldsz newsz xperm
           else kret newsz)))
      else kret newsz)"
  by pat_completeness auto

termination
  by (relation "measure (\<lambda>(pagetable, a, oldsz, newsz, xperm). unat MAXVA + 4096 - unat a)")
    (use next_page_decreases(2) in auto)

declare uvmalloc_loop.simps [simp del]

definition uvmalloc :: "u64 \<Rightarrow> u64 \<Rightarrow> u64 \<Rightarrow> u64 \<Rightarrow> ('x, u64) kvmfun" where
  "uvmalloc pagetable oldsz newsz xperm =
     (if newsz < oldsz then kret oldsz
      else uvmalloc_loop pagetable (PGROUNDUP oldsz) (PGROUNDUP oldsz) newsz xperm)"

text \<open>The recursion of \<open>freewalk\<close> has no bound in the code; the model gives it fuel, and a table deeper than
  the fuel (a cycle: the C code would exhaust its one-page stack) diverges.\<close>

primrec freewalk_fuel :: "nat \<Rightarrow> u64 \<Rightarrow> ('x, unit) kvmfun" where
  "freewalk_fuel 0 pagetable = (\<lambda>s. Diverge)"
| "freewalk_fuel (Suc n) pagetable =
     kseq (for_each [0..<512] (\<lambda>i.
       kbind (load_pte (pte_addr pagetable (of_nat i))) (\<lambda>pte.
       if pte AND PTE_V \<noteq> 0 \<and> pte AND (PTE_R OR PTE_W OR PTE_X) = 0
       then kseq (freewalk_fuel n (PTE2PA pte)) (store_pte (pte_addr pagetable (of_nat i)) 0)
       else if pte AND PTE_V \<noteq> 0 then panic ''freewalk: leaf''
       else kskip)))
     (kfree pagetable)"

definition freewalk :: "u64 \<Rightarrow> ('x, unit) kvmfun" where
  "freewalk pagetable = freewalk_fuel 32768 pagetable"

definition uvmfree :: "u64 \<Rightarrow> u64 \<Rightarrow> ('x, unit) kvmfun" where
  "uvmfree pagetable sz =
     kseq (kwhen (sz > 0) (uvmunmap pagetable 0 (PGROUNDUP sz div PGSIZE) True))
     (freewalk pagetable)"

text \<open>The loop of \<open>uvmcopy\<close> returns the address at which it jumps to \<open>err\<close>, if it does.\<close>

function uvmcopy_loop :: "u64 \<Rightarrow> u64 \<Rightarrow> u64 \<Rightarrow> u64 \<Rightarrow> ('x, u64 option) kvmfun" where
  "uvmcopy_loop old new i sz =
     (if i < sz then
        kbind (walk old i False) (\<lambda>pte.
        if pte = 0 then panic ''uvmcopy: pte should exist''
        else kbind (load_pte pte) (\<lambda>e.
          if e AND PTE_V = 0 then panic ''uvmcopy: page not present''
          else kbind kalloc (\<lambda>pg.
            if pg = 0 then kret (Some i)
            else kseq (mem_modify (\<lambda>m. memmove m (unat pg) (unat (PTE2PA e)) (unat PGSIZE)))
              (kbind (mappages new i PGSIZE pg (PTE_FLAGS e)) (\<lambda>r.
               if r \<noteq> 0 then kseq (kfree pg) (kret (Some i))
               else if i < MAXVA then uvmcopy_loop old new (i + PGSIZE) sz else kret None)))))
      else kret None)"
  by pat_completeness auto

termination
  by (relation "measure (\<lambda>(old, new, i, sz). unat MAXVA + 4096 - unat i)")
    (use next_page_decreases(2) in auto)

declare uvmcopy_loop.simps [simp del]

definition uvmcopy :: "u64 \<Rightarrow> u64 \<Rightarrow> u64 \<Rightarrow> ('x, int) kvmfun" where
  "uvmcopy old new sz =
     kbind (uvmcopy_loop old new 0 sz) (\<lambda>r. case r of
        None \<Rightarrow> kret 0
      | Some i \<Rightarrow> kseq (uvmunmap new 0 (i div PGSIZE) True) (kret (- 1)))"

definition uvmclear :: "u64 \<Rightarrow> u64 \<Rightarrow> ('x, unit) kvmfun" where
  "uvmclear pagetable va =
     kbind (walk pagetable va False) (\<lambda>pte.
     if pte = 0 then panic ''uvmclear''
     else kbind (load_pte pte) (\<lambda>e. store_pte pte (e AND NOT PTE_U)))"

subsection \<open>Copying between kernel and user\<close>

text \<open>The number of bytes up to the end of the page of \<open>va\<close>, cut at \<open>len\<close>.\<close>

definition page_chunk :: "u64 \<Rightarrow> nat \<Rightarrow> nat" where
  "page_chunk va len = min (unat (PGSIZE - (va - PGROUNDDOWN va))) len"

lemma unat_page_rest: "unat (PGSIZE - (va - PGROUNDDOWN va)) = 4096 - unat va mod 4096"
proof -
  have "va - PGROUNDDOWN va \<le> PGSIZE"
    by (simp add: word_le_nat_alt PGROUNDDOWN_offset less_imp_le)
  then show ?thesis by (simp add: unat_sub PGROUNDDOWN_offset)
qed

lemma page_chunk_pos: "0 < len \<Longrightarrow> 0 < page_chunk va len"
  by (simp add: page_chunk_def unat_page_rest)

lemma page_chunk_le: "page_chunk va len \<le> len"
  by (simp add: page_chunk_def)

function copyout :: "u64 \<Rightarrow> u64 \<Rightarrow> u8 list \<Rightarrow> ('x, int) kvmfun" where
  "copyout pagetable dstva src =
     (if src = [] then kret 0
      else let va0 = PGROUNDDOWN dstva; n = page_chunk dstva (length src) in
        kbind (walkaddr pagetable va0) (\<lambda>pa0.
        if pa0 = 0 then kret (- 1)
        else kseq (mem_modify (\<lambda>m. mem_write m (unat (pa0 + (dstva - va0))) (take n src)))
          (copyout pagetable (va0 + PGSIZE) (drop n src))))"
  by pat_completeness auto

termination
  by (relation "measure (\<lambda>(pagetable, dstva, src). length src)") (auto simp: page_chunk_pos)

declare copyout.simps [simp del]

function copyin_loop :: "u64 \<Rightarrow> u64 \<Rightarrow> nat \<Rightarrow> u8 list \<Rightarrow> ('x, int \<times> u8 list) kvmfun" where
  "copyin_loop pagetable srcva len dst =
     (if len = 0 then kret (0, dst)
      else let va0 = PGROUNDDOWN srcva; n = page_chunk srcva len in
        kbind (walkaddr pagetable va0) (\<lambda>pa0.
        if pa0 = 0 then kret (- 1, dst)
        else kbind (gets (\<lambda>s. mem_read (mem s) (unat (pa0 + (srcva - va0))) n)) (\<lambda>bs.
          copyin_loop pagetable (va0 + PGSIZE) (len - n) (dst @ bs))))"
  by pat_completeness auto

termination
  by (relation "measure (\<lambda>(pagetable, srcva, len, dst). len)") (auto simp: page_chunk_pos)

declare copyin_loop.simps [simp del]

definition copyin :: "u64 \<Rightarrow> u64 \<Rightarrow> nat \<Rightarrow> ('x, int \<times> u8 list) kvmfun" where
  "copyin pagetable srcva len = copyin_loop pagetable srcva len []"

text \<open>The inner loop of \<open>copyinstr\<close>: the bytes it stores and whether it met the NUL.\<close>

fun copyinstr_scan :: "memory \<Rightarrow> nat \<Rightarrow> nat \<Rightarrow> u8 list \<times> bool" where
  "copyinstr_scan m p 0 = ([], False)"
| "copyinstr_scan m p (Suc n) =
     (if m p = 0 then ([0], True)
      else case copyinstr_scan m (Suc p) n of (bs, got_null) \<Rightarrow> (m p # bs, got_null))"

function copyinstr_loop :: "u64 \<Rightarrow> u64 \<Rightarrow> nat \<Rightarrow> u8 list \<Rightarrow> ('x, int \<times> u8 list) kvmfun" where
  "copyinstr_loop pagetable srcva mx dst =
     (if mx = 0 then kret (- 1, dst)
      else let va0 = PGROUNDDOWN srcva; n = page_chunk srcva mx in
        kbind (walkaddr pagetable va0) (\<lambda>pa0.
        if pa0 = 0 then kret (- 1, dst)
        else kbind (gets (\<lambda>s. copyinstr_scan (mem s) (unat (pa0 + (srcva - va0))) n)) (\<lambda>(bs, got_null).
          if got_null then kret (0, dst @ bs)
          else copyinstr_loop pagetable (va0 + PGSIZE) (mx - n) (dst @ bs))))"
  by pat_completeness auto

termination
  by (relation "measure (\<lambda>(pagetable, srcva, mx, dst). mx)") (auto simp: page_chunk_pos)

declare copyinstr_loop.simps [simp del]

definition copyinstr :: "u64 \<Rightarrow> u64 \<Rightarrow> nat \<Rightarrow> ('x, int \<times> u8 list) kvmfun" where
  "copyinstr pagetable srcva mx = copyinstr_loop pagetable srcva mx []"

end
