(* ===== verification/Pagetable.thy ===== *)
theory Pagetable
  imports Vm
begin

text \<open>
  Page tables as trees in memory: the encoding of entries and indices, the table page reached through a
  list of indices (\<open>pt_node\<close>), the last-level entry of a virtual address (\<open>pt_leaf\<close>), the
  well-formedness of a table (\<open>pt_wf\<close>: its pages are valid and pairwise different), and what the two
  kinds of write that \<^verbatim>\<open>kernel/vm.c\<close> performs on a table do to it: linking a fresh table page and storing a
  last-level entry.
\<close>

subsection \<open>Page-table entries and indices\<close>

lemma PTE_V_val: "PTE_V = 1" by (simp add: PTE_V_def)

lemma PTE_V_nonzero [simp]: "PTE_V \<noteq> 0" by (simp add: PTE_V_def)

lemma PTE_FLAGS_eq: "PTE_FLAGS e = take_bit 10 e"
proof -
  have "(0x3FF :: u64) = mask 10" by (simp add: mask_eq_exp_minus_1)
  then show ?thesis by (simp add: PTE_FLAGS_def take_bit_eq_mask)
qed

lemma page_aligned_bits: "page_aligned a \<longleftrightarrow> take_bit 12 a = 0"
proof -
  have "unat (take_bit 12 a) = unat a mod 4096"
    by (simp add: unat_mod take_bit_eq_mod)
  then show ?thesis by (simp add: page_aligned_def word_unat_eq_iff)
qed

lemma page_aligned_not_bit: "page_aligned a \<Longrightarrow> n < 12 \<Longrightarrow> \<not> bit a n"
  by (metis bit_0_eq bit_take_bit_iff bot_apply bot_bool_def page_aligned_bits)

lemma flags_not_bit: "PTE_FLAGS f = f \<Longrightarrow> 10 \<le> n \<Longrightarrow> \<not> bit f n"
  by (metis PTE_FLAGS_eq bit_take_bit_iff linorder_not_less)

lemma PTE2PA_PA2PTE:
  assumes "page_aligned pa" and "PTE_FLAGS f = f"
  shows "PTE2PA (PA2PTE pa OR f) = pa"
proof (rule bit_word_eqI)
  fix n assume n: "n < LENGTH(64)"
  show "bit (PTE2PA (PA2PTE pa OR f)) n = bit pa n"
  proof (cases "n < 12")
    case True
    then show ?thesis using page_aligned_not_bit [OF assms(1)] by (simp add: PTE2PA_def bit_simps)
  next
    case False
    then have "\<not> bit f (10 + (n - 12))" using flags_not_bit [OF assms(2)] by simp
    with False n show ?thesis by (auto simp: PTE2PA_def PA2PTE_def bit_simps)
  qed
qed

lemma PTE_FLAGS_PA2PTE:
  assumes "PTE_FLAGS f = f"
  shows "PTE_FLAGS (PA2PTE pa OR f) = f"
proof (rule bit_word_eqI)
  fix n assume "n < LENGTH(64)"
  then show "bit (PTE_FLAGS (PA2PTE pa OR f)) n = bit f n"
    using flags_not_bit [OF assms, of n] by (auto simp: PTE_FLAGS_eq PA2PTE_def bit_simps)
qed

lemma PTE_FLAGS_bits [simp]: "PTE_FLAGS PTE_V = PTE_V" "PTE_FLAGS PTE_R = PTE_R" "PTE_FLAGS PTE_W = PTE_W"
  "PTE_FLAGS PTE_X = PTE_X" "PTE_FLAGS PTE_U = PTE_U"
  by (simp_all add: PTE_FLAGS_def PTE_V_def PTE_R_def PTE_W_def PTE_X_def PTE_U_def)

lemma PTE_FLAGS_or: "PTE_FLAGS (a OR b) = PTE_FLAGS a OR PTE_FLAGS b"
  by (simp add: PTE_FLAGS_eq take_bit_or)

lemma PTE_FLAGS_idem [simp]: "PTE_FLAGS (PTE_FLAGS e) = PTE_FLAGS e"
  by (simp add: PTE_FLAGS_eq)

lemma or_PTE_V_valid [simp]: "(e OR PTE_V) AND PTE_V \<noteq> 0"
proof
  assume "(e OR PTE_V) AND PTE_V = 0"
  then have "bit ((e OR PTE_V) AND PTE_V) 0 = False" by simp
  then show False by (simp add: PTE_V_val bit_simps)
qed

lemma PX_eq: "PX level va = take_bit 9 (drop_bit (12 + 9 * level) va)"
proof -
  have "PXMASK = mask 9" by (simp add: PXMASK_def mask_eq_exp_minus_1)
  then show ?thesis by (simp only: PX_def PXSHIFT_def PGSHIFT_def take_bit_eq_mask)
qed

lemma PX_less: "PX level va < 512"
proof -
  have "unat (PX level va) < 2 ^ 9"
    unfolding PX_eq unsigned_take_bit_eq by (rule take_bit_nat_less_exp)
  then show ?thesis by (simp add: word_less_nat_alt)
qed

lemma bit_PX: "bit (PX level va) n \<longleftrightarrow> n < 9 \<and> bit va (12 + 9 * level + n)"
  by (auto simp: PX_eq bit_simps)

lemma MAXVA_not_bit: "va < MAXVA \<Longrightarrow> 38 \<le> n \<Longrightarrow> \<not> bit va n"
proof -
  assume "va < MAXVA" "38 \<le> n"
  then have "unat va < 2 ^ 38" by (simp add: word_less_nat_alt MAXVA_val)
  also have "(2 :: nat) ^ 38 \<le> 2 ^ n" using \<open>38 \<le> n\<close> by (rule power_increasing) simp
  finally have "\<not> bit (unat va) n" by (simp add: bit_iff_odd)
  then show ?thesis by (simp add: bit_unsigned_iff)
qed

text \<open>The three indices determine the page of a virtual address.\<close>

lemma PX_inj:
  assumes "va < MAXVA" "vb < MAXVA" and "PX 2 va = PX 2 vb" "PX 1 va = PX 1 vb" "PX 0 va = PX 0 vb"
  shows "PGROUNDDOWN va = PGROUNDDOWN vb"
proof (rule bit_word_eqI)
  fix n assume "n < LENGTH(64)"
  have *: "bit va (12 + 9 * l + k) = bit vb (12 + 9 * l + k)" if "l < 3" "k < 9" for l k
  proof -
    have "PX l va = PX l vb" using assms(3-5) that(1) by (cases l rule: nat.exhaust) (auto simp: numeral_eq_Suc less_Suc_eq)
    then show ?thesis using bit_PX [of l va k] bit_PX [of l vb k] that(2) by simp
  qed
  have "bit va n = bit vb n" if "12 \<le> n"
  proof (cases "n < 38")
    case True
    have "n = 12 + 9 * ((n - 12) div 9) + (n - 12) mod 9" using that by simp
    moreover have "(n - 12) div 9 < 3" using True by simp
    ultimately show ?thesis using * [of "(n - 12) div 9" "(n - 12) mod 9"] by simp
  next
    case False
    then show ?thesis using MAXVA_not_bit assms(1,2) by simp
  qed
  moreover have "PGROUNDDOWN a = push_bit 12 (drop_bit 12 a)" for a
    by (simp add: PGROUNDDOWN_def PGSIZE_def mask_12 and_not_mask_eq)
  ultimately show "bit (PGROUNDDOWN va) n = bit (PGROUNDDOWN vb) n"
    by (auto simp: bit_simps)
qed

lemma PX_PGROUNDDOWN: "PX level (PGROUNDDOWN va) = PX level va"
proof (rule bit_word_eqI)
  fix n assume "n < LENGTH(64)"
  have "PGROUNDDOWN va = push_bit 12 (drop_bit 12 va)"
    by (simp add: PGROUNDDOWN_def PGSIZE_def mask_12 and_not_mask_eq)
  then show "bit (PX level (PGROUNDDOWN va)) n = bit (PX level va) n"
    by (auto simp: bit_PX bit_simps add.assoc dest: bit_imp_le_length)
qed

subsection \<open>Page tables as trees\<close>

text \<open>\<open>pt_node m t is\<close> is the table page reached from \<open>t\<close> through the entries \<open>is\<close>; \<open>pt_leaf m pt va\<close> is the last-level
  entry for \<open>va\<close>, 0 (an invalid entry) when the path to it does not exist.\<close>

primrec pt_node :: "memory \<Rightarrow> u64 \<Rightarrow> u64 list \<Rightarrow> u64 option" where
  "pt_node m t [] = Some t"
| "pt_node m t (i # is) =
     (let e = load64 m (unat (pte_addr t i)) in if e AND PTE_V \<noteq> 0 then pt_node m (PTE2PA e) is else None)"

primrec path :: "nat \<Rightarrow> u64 \<Rightarrow> u64 list" where
  "path 0 va = []"
| "path (Suc l) va = PX (Suc l) va # path l va"

definition pt_leaf :: "memory \<Rightarrow> u64 \<Rightarrow> u64 \<Rightarrow> u64" where
  "pt_leaf m pt va = (case pt_node m pt (path 2 va) of
      None \<Rightarrow> 0 | Some t \<Rightarrow> load64 m (unat (pte_addr t (PX 0 va))))"

definition idx_path :: "u64 list \<Rightarrow> bool" where
  "idx_path is \<longleftrightarrow> length is \<le> 2 \<and> (\<forall>i\<in>set is. i < 512)"

definition pt_pages :: "memory \<Rightarrow> u64 \<Rightarrow> u64 set" where
  "pt_pages m pt = {t. \<exists>is. idx_path is \<and> pt_node m pt is = Some t}"

definition pt_wf :: "u64 \<Rightarrow> memory \<Rightarrow> u64 \<Rightarrow> bool" where
  "pt_wf e m pt \<longleftrightarrow> (\<forall>t\<in>pt_pages m pt. page_ok e t) \<and>
     (\<forall>is js t. idx_path is \<longrightarrow> idx_path js \<longrightarrow> pt_node m pt is = Some t \<longrightarrow> pt_node m pt js = Some t \<longrightarrow> is = js)"

lemma pt_node_append:
  "pt_node m t (is @ js) = (case pt_node m t is of None \<Rightarrow> None | Some t' \<Rightarrow> pt_node m t' js)"
  by (induction "is" arbitrary: t) (auto simp: Let_def)

lemma pt_node_snoc:
  "pt_node m t (is @ [i]) = (case pt_node m t is of None \<Rightarrow> None | Some t' \<Rightarrow>
     if load64 m (unat (pte_addr t' i)) AND PTE_V \<noteq> 0 then Some (PTE2PA (load64 m (unat (pte_addr t' i)))) else None)"
  by (simp add: pt_node_append Let_def split: option.split)

lemma length_path [simp]: "length (path l va) = l"
  by (induction l) auto

lemma set_path: "i \<in> set (path l va) \<Longrightarrow> i < 512"
  by (induction l) (auto simp: PX_less)

lemma idx_path_path [simp]: "l \<le> 2 \<Longrightarrow> idx_path (path l va)"
  by (simp add: idx_path_def set_path)

lemma idx_path_snoc [simp]: "idx_path (is @ [i]) \<longleftrightarrow> length is \<le> 1 \<and> idx_path is \<and> i < 512"
  by (auto simp: idx_path_def)

lemma pt_pagesI: "pt_node m pt is = Some t \<Longrightarrow> idx_path is \<Longrightarrow> t \<in> pt_pages m pt"
  by (auto simp: pt_pages_def)

lemma root_in_pt_pages [simp]: "pt \<in> pt_pages m pt"
  by (rule pt_pagesI [of _ _ "[]"]) (simp_all add: idx_path_def)

lemma page_ok_bounds:
  assumes "page_ok e t"
  shows "page_aligned t" "unat t + 4096 \<le> unat PHYSTOP"
proof -
  show al: "page_aligned t" using assms by (simp add: page_ok_def)
  have "page_aligned PHYSTOP" by (simp add: page_aligned_def PHYSTOP_val)
  moreover have "unat t < unat PHYSTOP" using assms by (simp add: page_ok_def word_less_nat_alt)
  ultimately show "unat t + 4096 \<le> unat PHYSTOP" using page_aligned_gap al by blast
qed

lemma unat_pte_addr:
  assumes "page_ok e t" and "i < 512"
  shows "unat (pte_addr t i) = unat t + 8 * unat i" "8 * unat i + 8 \<le> 4096"
proof -
  have i: "unat i < 512" using assms(2) by (simp add: word_less_nat_alt)
  then show "8 * unat i + 8 \<le> 4096" by simp
  have "unat t + 4096 \<le> 0x88000000" using page_ok_bounds(2) [OF assms(1)] by (simp add: PHYSTOP_val)
  then show "unat (pte_addr t i) = unat t + 8 * unat i"
    using i by (simp add: pte_addr_def unat_word_ariths)
qed

lemma pte_addr_nonzero: "page_ok e t \<Longrightarrow> i < 512 \<Longrightarrow> pte_addr t i \<noteq> 0"
proof -
  assume "page_ok e t" "i < 512"
  then have "unat (pte_addr t i) = unat t + 8 * unat i" by (rule unat_pte_addr)
  moreover have "0 < unat t" using \<open>page_ok e t\<close> by (simp add: page_ok_def word_less_nat_alt)
  ultimately show ?thesis by (metis add_is_0 less_numeral_extra(3) unat_0)
qed

text \<open>Entries of the same or of different tables are different words of memory.\<close>

lemma load_store_pte_disj:
  assumes "page_ok e t" "page_ok e' u" "i < 512" "j < 512" "t \<noteq> u \<or> i \<noteq> j"
  shows "load64 (store64 m (unat (pte_addr u j)) v) (unat (pte_addr t i)) = load64 m (unat (pte_addr t i))"
proof (rule load64_store64_disj)
  note a = unat_pte_addr [OF assms(1,3)] unat_pte_addr [OF assms(2,4)]
  show "unat (pte_addr t i) + 8 \<le> unat (pte_addr u j) \<or> unat (pte_addr u j) + 8 \<le> unat (pte_addr t i)"
  proof (cases "t = u")
    case True
    then have "unat i \<noteq> unat j" using assms(5) by (simp add: word_unat_eq_iff)
    then show ?thesis unfolding a(1) a(3) using True by (simp add: nat_neq_iff) linarith
  next
    case False
    then have "unat t \<noteq> unat u" by (simp add: word_unat_eq_iff)
    then have "unat t + 4096 \<le> unat u \<or> unat u + 4096 \<le> unat t"
      using page_aligned_gap [OF page_ok_bounds(1)[OF assms(1)] page_ok_bounds(1)[OF assms(2)]]
        page_aligned_gap [OF page_ok_bounds(1)[OF assms(2)] page_ok_bounds(1)[OF assms(1)]] by linarith
    then show ?thesis unfolding a(1) a(3) using a(2,4) by linarith
  qed
qed

lemma same_outside_pte:
  assumes "same_outside P m m'" "\<forall>q\<in>P. page_aligned q" "page_ok e t" "t \<notin> P" "i < 512"
  shows "load64 m' (unat (pte_addr t i)) = load64 m (unat (pte_addr t i))"
  using same_outside_load64 [OF assms(1,2) page_ok_bounds(1) [OF assms(3)] assms(4), of "8 * unat i"]
    unat_pte_addr [OF assms(3,5)] by simp

lemma pt_node_same_outside:
  assumes "pt_wf e m pt" "same_outside P m m'" "\<forall>q\<in>P. page_aligned q" "P \<inter> pt_pages m pt = {}" "idx_path is"
  shows "pt_node m' pt is = pt_node m pt is"
  using assms(5)
proof (induction "is" rule: rev_induct)
  case (snoc i "is")
  then have IH: "pt_node m' pt is = pt_node m pt is" and i: "i < 512" "idx_path is" by auto
  show ?case
  proof (cases "pt_node m pt is")
    case (Some t)
    then have "t \<in> pt_pages m pt" using i(2) by (rule pt_pagesI)
    then have "page_ok e t" "t \<notin> P" using assms(1,4) by (auto simp: pt_wf_def)
    from same_outside_pte [OF assms(2,3) this i(1)] show ?thesis by (simp add: pt_node_snoc IH Some)
  qed (simp add: pt_node_snoc IH)
qed simp

lemma pt_same_outside:
  assumes "pt_wf e m pt" "same_outside P m m'" "\<forall>q\<in>P. page_aligned q" "P \<inter> pt_pages m pt = {}"
  shows "pt_pages m' pt = pt_pages m pt" "pt_wf e m' pt" "pt_leaf m' pt va = pt_leaf m pt va"
proof -
  note node = pt_node_same_outside [OF assms]
  show pages: "pt_pages m' pt = pt_pages m pt" using node by (auto simp: pt_pages_def)
  show "pt_wf e m' pt" using assms(1) node unfolding pt_wf_def pages by auto
  show "pt_leaf m' pt va = pt_leaf m pt va"
  proof (cases "pt_node m pt (path 2 va)")
    case None
    then show ?thesis using node [of "path 2 va"] by (simp add: pt_leaf_def)
  next
    case (Some t)
    then have "t \<in> pt_pages m pt" by (rule pt_pagesI) simp
    then have "page_ok e t" "t \<notin> P" using assms(1,4) by (auto simp: pt_wf_def)
    from same_outside_pte [OF assms(2,3) this PX_less, of 0 va] show ?thesis
      using node [of "path 2 va"] Some by (simp add: pt_leaf_def)
  qed
qed

subsection \<open>Updating a page table\<close>

text \<open>Linking a fresh zeroed page \<open>pg\<close> into entry \<open>i\<close> of the table at \<open>is\<close>.\<close>

definition link_table :: "memory \<Rightarrow> u64 \<Rightarrow> u64 \<Rightarrow> u64 \<Rightarrow> memory" where
  "link_table m t i pg = store64 (memset m (unat pg) 0 4096) (unat (pte_addr t i)) (PA2PTE pg OR PTE_V)"

lemma load64_memset_0:
  assumes "unat pg \<le> a" "a + 8 \<le> unat pg + 4096"
  shows "load64 (memset m (unat pg) 0 4096) a = 0"
proof -
  have "mem_read (memset m (unat pg) 0 4096) a 8 = mem_read (\<lambda>_. 0) a 8"
    using assms by (intro mem_read_cong) (auto simp: memset_apply)
  then show ?thesis by (simp add: load64_def mem_read_def map_replicate_const)
qed

lemma load_link_table:
  assumes "page_ok e t" "page_ok e pg" "t \<noteq> pg" "i < 512" "page_ok e u" "j < 512"
  shows "load64 (link_table m t i pg) (unat (pte_addr u j)) =
    (if u = t \<and> j = i then PA2PTE pg OR PTE_V else if u = pg then 0 else load64 m (unat (pte_addr u j)))"
proof (cases "u = t \<and> j = i")
  case False
  then have eq: "load64 (link_table m t i pg) (unat (pte_addr u j)) =
      load64 (memset m (unat pg) 0 4096) (unat (pte_addr u j))"
    unfolding link_table_def by (intro load_store_pte_disj [OF assms(5,1,6,4)]) auto
  show ?thesis
  proof (cases "u = pg")
    case True
    then show ?thesis using False eq unat_pte_addr [OF assms(5,6)] assms(3) by (auto simp: load64_memset_0)
  next
    case ne: False
    then show ?thesis
      using False eq same_outside_pte [OF same_outside_memset [of pg m 0] _ assms(5) _ assms(6)]
        page_ok_bounds(1) [OF assms(2)] by auto
  qed
qed (simp add: link_table_def)

lemma pt_node_link_table:
  assumes wf: "pt_wf e m pt" and "pt_node m pt is = Some t" "idx_path (is @ [i])" "pt_node m pt (is @ [i]) = None"
    and pg: "page_ok e pg" "pg \<notin> pt_pages m pt" and "idx_path js"
  shows "pt_node (link_table m t i pg) pt js =
    (if js = is @ [i] then Some pg else if \<exists>j. js = is @ [i, j] then None else pt_node m pt js)"
  using assms(7)
proof (induction js rule: rev_induct)
  case (snoc k ks)
  have k: "k < 512" "idx_path ks" "length ks \<le> 1" using snoc.prems by auto
  have i: "i < 512" "idx_path is" "length is \<le> 1" using assms(3) by auto
  have t: "t \<in> pt_pages m pt" "page_ok e t" "t \<noteq> pg"
    using pt_pagesI [OF assms(2) i(2)] wf pg(2) by (auto simp: pt_wf_def)
  note IH = snoc.IH [OF k(2)]
  have len: "\<And>j. ks \<noteq> is @ [i, j]" using k(3) by auto
  show ?case
  proof (cases "ks = is @ [i]")
    case True
    then have "pt_node (link_table m t i pg) pt ks = Some pg" using IH by simp
    then have "pt_node (link_table m t i pg) pt (ks @ [k]) = None"
      using load_link_table [OF t(2) pg(1) t(3) i(1) pg(1) k(1)] t(3) by (simp add: pt_node_snoc [of _ _ ks])
    then show ?thesis using True by simp
  next
    case False
    then have ks: "pt_node (link_table m t i pg) pt ks = pt_node m pt ks" using IH len by simp
    have ne: "\<And>j. ks @ [k] \<noteq> is @ [i, j]" using False by auto
    show ?thesis
    proof (cases "pt_node m pt ks")
      case None
      then have "ks \<noteq> is" using assms(2) by auto
      then show ?thesis using ks ne None by (auto simp: pt_node_snoc)
    next
      case (Some u)
      then have u: "u \<in> pt_pages m pt" using k(2) by (rule pt_pagesI)
      then have u2: "page_ok e u" "u \<noteq> pg" using wf pg(2) by (auto simp: pt_wf_def)
      have "u = t \<longleftrightarrow> ks = is"
        using wf Some assms(2) i(2) k(2) unfolding pt_wf_def by (metis option.inject)
      moreover have "PTE2PA (PA2PTE pg OR PTE_V) = pg"
        using pg(1) by (intro PTE2PA_PA2PTE) (simp_all add: page_ok_def)
      ultimately show ?thesis
        using load_link_table [OF t(2) pg(1) t(3) i(1) u2(1) k(1), of m] u2(2) ks ne Some
        by (auto simp: pt_node_snoc)
    qed
  qed
qed simp

lemma idx_path_Suc: "length is \<le> 1 \<Longrightarrow> idx_path is \<Longrightarrow> i < 512 \<Longrightarrow> idx_path (is @ [i])"
  by simp

lemma pt_pages_link_table:
  assumes "pt_wf e m pt" "pt_node m pt is = Some t" "idx_path (is @ [i])" "pt_node m pt (is @ [i]) = None"
    "page_ok e pg" "pg \<notin> pt_pages m pt"
  shows "pt_pages (link_table m t i pg) pt = insert pg (pt_pages m pt)"
proof -
  note node = pt_node_link_table [OF assms]
  have none: "pt_node m pt (is @ [i, j]) = None" for j
    using assms(4) pt_node_append [of m pt "is @ [i]" "[j]"] by simp
  have "pt_node (link_table m t i pg) pt (is @ [i]) = Some pg" using node [OF assms(3)] by simp
  moreover have "pt_node m pt js = Some u \<Longrightarrow> idx_path js \<Longrightarrow> pt_node (link_table m t i pg) pt js = Some u" for js u
    using node [of js] none assms(4) by (auto split: if_splits)
  moreover have "u = pg \<or> pt_node m pt js = Some u"
    if "pt_node (link_table m t i pg) pt js = Some u" "idx_path js" for js u
    using node [OF that(2)] that(1) by (auto split: if_splits)
  ultimately show ?thesis
    using assms(3) unfolding pt_pages_def by blast
qed

lemma pt_wf_link_table:
  assumes "pt_wf e m pt" "pt_node m pt is = Some t" "idx_path (is @ [i])" "pt_node m pt (is @ [i]) = None"
    "page_ok e pg" "pg \<notin> pt_pages m pt"
  shows "pt_wf e (link_table m t i pg) pt"
proof -
  note node = pt_node_link_table [OF assms]
  have "ks = js" if "idx_path ks" "idx_path js" "pt_node (link_table m t i pg) pt ks = Some u"
    "pt_node (link_table m t i pg) pt js = Some u" for ks js u
    using that node [OF that(1)] node [OF that(2)] assms(1,6)
    by (auto simp: pt_wf_def pt_pages_def split: if_splits)
  then show ?thesis
    using assms(1,5) unfolding pt_wf_def pt_pages_link_table [OF assms] by auto
qed

lemma pt_leaf_link_table:
  assumes "pt_wf e m pt" "pt_node m pt is = Some t" "idx_path (is @ [i])" "pt_node m pt (is @ [i]) = None"
    "page_ok e pg" "pg \<notin> pt_pages m pt"
  shows "pt_leaf (link_table m t i pg) pt va = pt_leaf m pt va"
proof -
  note node = pt_node_link_table [OF assms]
  have t: "t \<in> pt_pages m pt" "page_ok e t" "t \<noteq> pg" "i < 512"
    using pt_pagesI [OF assms(2)] assms(1,3,6) by (auto simp: pt_wf_def)
  have none: "pt_node m pt (is @ [i, j]) = None" for j
    using assms(4) pt_node_append [of m pt "is @ [i]" "[j]"] by simp
  show ?thesis
  proof (cases "pt_node m pt (path 2 va)")
    case None
    then show ?thesis
      using node [of "path 2 va"] load_link_table [OF t(2) assms(5) t(3,4) assms(5) PX_less, of m 0 va] t(3)
      by (auto simp: pt_leaf_def split: if_splits)
  next
    case (Some u)
    have u: "u \<in> pt_pages m pt" "page_ok e u" "u \<noteq> pg"
      using pt_pagesI [OF Some] assms(1,6) by (auto simp: pt_wf_def)
    have "path 2 va \<noteq> is" using assms(3) by (metis idx_path_snoc length_path numeral_le_one_iff semiring_norm(69))
    then have "u \<noteq> t" using assms(1-3) Some unfolding pt_wf_def by (metis idx_path_path idx_path_snoc order_refl)
    then show ?thesis
      using node [of "path 2 va"] Some none assms(4) u(3)
        load_link_table [OF t(2) assms(5) t(3,4) u(2) PX_less, of m 0 va]
      by (auto simp: pt_leaf_def split: if_splits)
  qed
qed

text \<open>Writing the last-level entry of \<open>va\<close> changes the leaf of exactly the addresses of that page.\<close>

lemma pt_node_leaf_store:
  assumes wf: "pt_wf e m pt" and t: "pt_node m pt is = Some t" "idx_path is" "length is = 2" and "i < 512" "idx_path js"
  shows "pt_node (store64 m (unat (pte_addr t i)) v) pt js = pt_node m pt js"
  using assms(6)
proof (induction js rule: rev_induct)
  case (snoc k ks)
  then have k: "k < 512" "idx_path ks" "length ks \<le> 1" and
    IH: "pt_node (store64 m (unat (pte_addr t i)) v) pt ks = pt_node m pt ks" by auto
  show ?case
  proof (cases "pt_node m pt ks")
    case (Some u)
    have "page_ok e t" "page_ok e u"
      using pt_pagesI [OF t(1,2)] pt_pagesI [OF Some k(2)] wf by (auto simp: pt_wf_def)
    moreover have "u \<noteq> t" using wf Some t k(2,3) unfolding pt_wf_def
      by (metis numeral_le_one_iff semiring_norm(69))
    ultimately have "load64 (store64 m (unat (pte_addr t i)) v) (unat (pte_addr u k)) = load64 m (unat (pte_addr u k))"
      using k(1) assms(5) by (intro load_store_pte_disj) auto
    then show ?thesis by (simp add: pt_node_snoc IH Some)
  qed (simp add: pt_node_snoc IH)
qed simp

lemma pt_leaf_store:
  assumes wf: "pt_wf e m pt" and t: "pt_node m pt (path 2 va) = Some t" and "va < MAXVA" "vb < MAXVA"
    and m': "m' = store64 m (unat (pte_addr t (PX 0 va))) v"
  shows "pt_pages m' pt = pt_pages m pt" "pt_wf e m' pt"
    "pt_leaf m' pt vb = (if PGROUNDDOWN vb = PGROUNDDOWN va then v else pt_leaf m pt vb)"
proof -
  have node: "idx_path js \<Longrightarrow> pt_node m' pt js = pt_node m pt js" for js
    unfolding m' by (rule pt_node_leaf_store [OF wf t]) (simp_all add: PX_less)
  show pages: "pt_pages m' pt = pt_pages m pt" using node by (auto simp: pt_pages_def)
  show "pt_wf e m' pt" using wf node unfolding pt_wf_def pages by auto
  show "pt_leaf m' pt vb = (if PGROUNDDOWN vb = PGROUNDDOWN va then v else pt_leaf m pt vb)"
  proof (cases "PGROUNDDOWN vb = PGROUNDDOWN va")
    case True
    then have "PX l vb = PX l va" for l by (metis PX_PGROUNDDOWN)
    then have "path 2 vb = path 2 va" "PX 0 vb = PX 0 va" by (simp_all add: numeral_2_eq_2)
    then show ?thesis using t node [of "path 2 va"] True by (simp add: pt_leaf_def m')
  next
    case False
    show ?thesis
    proof (cases "pt_node m pt (path 2 vb)")
      case None
      then show ?thesis using node [of "path 2 vb"] False by (simp add: pt_leaf_def)
    next
      case (Some u)
      have ok: "page_ok e t" "page_ok e u"
        using pt_pagesI [OF t] pt_pagesI [OF Some] wf by (auto simp: pt_wf_def)
      have "u \<noteq> t \<or> PX 0 vb \<noteq> PX 0 va"
      proof (rule ccontr)
        assume "\<not> (u \<noteq> t \<or> PX 0 vb \<noteq> PX 0 va)"
        then have "path 2 va = path 2 vb" "PX 0 vb = PX 0 va"
          using wf t Some unfolding pt_wf_def by (metis idx_path_path order_refl)+
        then show False
          using PX_inj [OF assms(4,3)] False by (simp add: numeral_2_eq_2)
      qed
      then show ?thesis
        using load_store_pte_disj [OF ok(2,1) PX_less PX_less, of 0 vb 0 va] node [of "path 2 vb"] Some False
        by (simp add: pt_leaf_def m')
    qed
  qed
qed

end
