(* ===== verification/Uvm.thy ===== *)
theory Uvm
  imports Pagetable
begin

text \<open>
  Correctness of the operations of \<^verbatim>\<open>kernel/vm.c\<close> on well-formed page tables.
\<close>

subsection \<open>The state kept by the operations on page tables\<close>

text \<open>\<open>kmem_frame\<close>: only memory, the free list and the saved interrupt flag may differ. \<open>pt_inv\<close>: the allocator
  and the page table are well formed and no table page is free. \<open>pt_grow\<close>: table pages were taken from the
  free list and memory outside the table's pages is untouched.\<close>

definition kmem_frame :: "'x kmem_scheme \<Rightarrow> 'x kmem_scheme \<Rightarrow> bool" where
  "kmem_frame s s' \<longleftrightarrow> s' = s\<lparr>hw := hw s', mem := mem s', freelist := freelist s'\<rparr> \<and>
     (hw s' = hw s \<or> hw s' = hw_touch (hw s))"

definition pt_inv :: "'x kmem_scheme \<Rightarrow> u64 \<Rightarrow> u64 list \<Rightarrow> bool" where
  "pt_inv s pt ps \<longleftrightarrow> kmem_avail s ps \<and> pt_wf (kend s) (mem s) pt \<and> pt_pages (mem s) pt \<inter> set ps = {}"

definition pt_grow :: "'x kmem_scheme \<Rightarrow> u64 \<Rightarrow> u64 list \<Rightarrow> 'x kmem_scheme \<Rightarrow> u64 list \<Rightarrow> bool" where
  "pt_grow s pt ps s' ps' \<longleftrightarrow> kmem_frame s s' \<and> pt_inv s' pt ps' \<and> (\<exists>k. ps' = drop k ps) \<and>
     pt_pages (mem s) pt \<subseteq> pt_pages (mem s') pt \<and>
     pt_pages (mem s') pt \<subseteq> pt_pages (mem s) pt \<union> (set ps - set ps') \<and>
     same_outside (pt_pages (mem s') pt) (mem s) (mem s')"

lemma kmem_frame_refl [simp]: "kmem_frame s s"
  by (simp add: kmem_frame_def)

lemma kmem_frame_trans:
  assumes "kmem_frame s s'" and "kmem_frame s' s''"
  shows "kmem_frame s s''"
proof -
  have 1: "s' = s\<lparr>hw := hw s', mem := mem s', freelist := freelist s'\<rparr>"
    and 2: "s'' = s'\<lparr>hw := hw s'', mem := mem s'', freelist := freelist s''\<rparr>"
    using assms unfolding kmem_frame_def by blast+
  have "s'' = (s\<lparr>hw := hw s', mem := mem s', freelist := freelist s'\<rparr>)
      \<lparr>hw := hw s'', mem := mem s'', freelist := freelist s''\<rparr>"
    by (subst 1 [symmetric]) (rule 2)
  then have "s'' = s\<lparr>hw := hw s'', mem := mem s'', freelist := freelist s''\<rparr>" by simp
  moreover have "hw s' = hw s \<or> hw s' = hw_touch (hw s)" "hw s'' = hw s' \<or> hw s'' = hw_touch (hw s')"
    using assms unfolding kmem_frame_def by blast+
  then have "hw s'' = hw s \<or> hw s'' = hw_touch (hw s)" by auto
  ultimately show ?thesis unfolding kmem_frame_def by (rule conjI)
qed

lemma kmem_frame_field:
  assumes "kmem_frame s s'" and "\<And>s h m f. g (s\<lparr>hw := h, mem := m, freelist := f\<rparr>) = g s"
  shows "g s' = g s"
  using assms(1) assms(2) [where s = s and h = "hw s'" and m = "mem s'" and f = "freelist s'"]
  unfolding kmem_frame_def by presburger

lemma kmem_frame_kend: "kmem_frame s s' \<Longrightarrow> kend s' = kend s"
  by (rule kmem_frame_field) simp_all

lemma kmem_frameI:
  "h = hw s \<or> h = hw_touch (hw s) \<Longrightarrow> kmem_frame s (s\<lparr>hw := h, mem := m, freelist := f\<rparr>)"
  by (simp add: kmem_frame_def)

lemma kmem_avail_mem:
  assumes "kmem_avail s ps" "same_outside P (mem s) m" "\<forall>q\<in>P. page_aligned q" "P \<inter> set ps = {}"
  shows "kmem_avail (s\<lparr>mem := m\<rparr>) ps"
proof -
  have "\<forall>p\<in>set ps. page_aligned p"
    using kmem_avail_ok [OF assms(1)] by (auto simp: page_ok_def)
  then have "free_chain m (freelist s) ps = free_chain (mem s) (freelist s) ps"
    by (rule free_chain_same_outside [OF assms(2-4)])
  with assms(1) show ?thesis by (simp add: kmem_avail_def free_list_def)
qed

lemma memset_memset: "memset (memset m a c n) a d n = memset m a d n"
  by (simp add: fun_eq_iff memset_apply)

lemma same_outside_pte_store:
  "page_ok e t \<Longrightarrow> i < 512 \<Longrightarrow> same_outside {t} m (store64 m (unat (pte_addr t i)) v)"
  using unat_pte_addr [of e t i] same_outside_store64 [of "8 * unat i" t m v] by simp

lemma same_outside_link_table:
  assumes "page_ok e t" "i < 512"
  shows "same_outside {t, pg} m (link_table m t i pg)"
  using same_outside_trans [OF same_outside_memset same_outside_pte_store [OF assms]]
  by (simp add: link_table_def insert_commute)

lemma pt_grow_refl: "pt_inv s pt ps \<Longrightarrow> pt_grow s pt ps s ps"
  by (auto simp: pt_grow_def intro: exI [of _ 0])

lemma pt_grow_touch:
  assumes "pt_inv s pt ps"
  shows "pt_grow s pt ps (s\<lparr>hw := hw_touch (hw s)\<rparr>) ps"
proof -
  have "kmem_frame s (s\<lparr>hw := hw_touch (hw s)\<rparr>)" by (simp add: kmem_frame_def)
  moreover have "pt_inv (s\<lparr>hw := hw_touch (hw s)\<rparr>) pt ps"
    using assms by (simp add: pt_inv_def kmem_avail_def kmem_ready_def)
  ultimately show ?thesis by (auto simp: pt_grow_def intro: exI [of _ 0])
qed

lemma pt_grow_trans:
  assumes "pt_grow s pt ps s' ps'" and "pt_grow s' pt ps' s'' ps''"
  shows "pt_grow s pt ps s'' ps''"
proof -
  have 1: "kmem_frame s s'" "pt_pages (mem s) pt \<subseteq> pt_pages (mem s') pt" "\<exists>k. ps' = drop k ps"
      "pt_pages (mem s') pt \<subseteq> pt_pages (mem s) pt \<union> (set ps - set ps')"
      "same_outside (pt_pages (mem s') pt) (mem s) (mem s')"
    using assms(1) unfolding pt_grow_def by blast+
  have 2: "kmem_frame s' s''" "pt_pages (mem s') pt \<subseteq> pt_pages (mem s'') pt" "\<exists>k. ps'' = drop k ps'"
      "pt_pages (mem s'') pt \<subseteq> pt_pages (mem s') pt \<union> (set ps' - set ps'')"
      "same_outside (pt_pages (mem s'') pt) (mem s') (mem s'')" "pt_inv s'' pt ps''"
    using assms(2) unfolding pt_grow_def by blast+
  have sub: "\<exists>k. ps'' = drop k ps" "set ps' \<subseteq> set ps" "set ps'' \<subseteq> set ps'"
    using 1(3) 2(3) by (auto dest: in_set_dropD)
  moreover have "same_outside (pt_pages (mem s'') pt) (mem s) (mem s'')"
    using same_outside_trans1 [OF same_outside_mono [OF 1(5) 2(2)] 2(5)] .
  ultimately show ?thesis
    using kmem_frame_trans [OF 1(1) 2(1)] 1 2 unfolding pt_grow_def by blast
qed

lemma pt_grow_link:
  assumes "pt_inv s pt (pg # ps)" "pt_node (mem s) pt is = Some t" "idx_path (is @ [i])"
    "pt_node (mem s) pt (is @ [i]) = None"
  shows "pt_grow s pt (pg # ps) (s\<lparr>freelist := load64 (mem s) (unat pg), hw := hw_touch (hw s),
    mem := link_table (mem s) t i pg\<rparr>) ps"
proof -
  let ?s1 = "s\<lparr>freelist := load64 (mem s) (unat pg), hw := hw_touch (hw s), mem := memset (mem s) (unat pg) 5 4096\<rparr>"
  let ?s2 = "s\<lparr>freelist := load64 (mem s) (unat pg), hw := hw_touch (hw s), mem := link_table (mem s) t i pg\<rparr>"
  have av: "kmem_avail s (pg # ps)" and wf: "pt_wf (kend s) (mem s) pt" and disj: "pt_pages (mem s) pt \<inter> set (pg # ps) = {}"
    using assms(1) by (simp_all add: pt_inv_def)
  have pg: "page_ok (kend s) pg" "pg \<notin> set ps" "pg \<notin> pt_pages (mem s) pt"
    using kmem_avail_ok [OF av] disj by auto
  have i: "i < 512" "idx_path is" using assms(3) by auto
  have t: "t \<in> pt_pages (mem s) pt" using pt_pagesI [OF assms(2) i(2)] .
  then have tok: "page_ok (kend s) t" "t \<notin> set ps" using wf disj by (auto simp: pt_wf_def)
  note lt = pt_pages_link_table [OF wf assms(2-4) pg(1,3)] pt_wf_link_table [OF wf assms(2-4) pg(1,3)]
  note so = same_outside_link_table [OF tok(1) i(1), of pg "mem s"]
  have "same_outside {t, pg} (memset (mem s) (unat pg) 5 4096) (link_table (mem s) t i pg)"
    unfolding link_table_def
    using same_outside_trans [OF same_outside_memset [of pg "memset (mem s) (unat pg) 5 4096" 0]
        same_outside_pte_store [OF tok(1) i(1)]]
    by (simp add: memset_memset insert_commute)
  then have "kmem_avail (?s1\<lparr>mem := link_table (mem s) t i pg\<rparr>) ps"
    using kalloc_avail(2) [OF av] tok pg page_ok_bounds(1)
    by (intro kmem_avail_mem [of ?s1 ps "{t, pg}"]) auto
  then have inv: "pt_inv ?s2 pt ps"
    using lt pg(2) disj by (simp add: pt_inv_def)
  have "same_outside (pt_pages (mem ?s2) pt) (mem s) (mem ?s2)"
    using same_outside_mono [OF so, of "pt_pages (mem ?s2) pt"] lt(1) t by simp
  moreover have "kmem_frame s ?s2" by (simp add: kmem_frame_def)
  ultimately show ?thesis
    using inv lt(1) pg(2) unfolding pt_grow_def by (intro conjI exI [of _ 1]) auto
qed

subsection \<open>walk\<close>

lemma walk_loop_lookup:
  "walk_loop l t va False s = Ret (case pt_node (mem s) t (path l va) of
     None \<Rightarrow> 0 | Some t' \<Rightarrow> pte_addr t' (PX 0 va)) s"
  by (induction l arbitrary: t) (auto simp: load_pte_def Let_def)

lemma walk_lookup:
  "va < MAXVA \<Longrightarrow> walk pt va False s = Ret (case pt_node (mem s) pt (path 2 va) of
     None \<Rightarrow> 0 | Some t \<Rightarrow> pte_addr t (PX 0 va)) s"
  by (simp add: walk_def walk_loop_lookup)

lemma walk_loop_alloc:
  assumes "pt_inv s pt ps" "pt_node (mem s) pt is = Some t" "idx_path is" "length is + l = 2"
  shows "\<exists>r s' ps'. walk_loop l t va True s = Ret r s' \<and> pt_grow s pt ps s' ps' \<and>
    (\<forall>vb. pt_leaf (mem s') pt vb = pt_leaf (mem s) pt vb) \<and> (r = 0 \<longrightarrow> ps' = [] \<and> length ps < l) \<and>
    length ps \<le> length ps' + l \<and>
    (r \<noteq> 0 \<longrightarrow> (\<exists>t'. pt_node (mem s') pt (is @ path l va) = Some t' \<and> r = pte_addr t' (PX 0 va)))"
  using assms
proof (induction l arbitrary: s ps "is" t)
  case 0
  have "t \<in> pt_pages (mem s) pt" using pt_pagesI [OF 0(2,3)] .
  then have "page_ok (kend s) t" using 0(1) by (auto simp: pt_inv_def pt_wf_def)
  then have "pte_addr t (PX 0 va) \<noteq> 0" using pte_addr_nonzero PX_less by blast
  then show ?case using pt_grow_refl [OF 0(1)] 0(2) by (intro exI [of _ s] exI) (auto intro!: exI [of _ ps])
next
  case (Suc l)
  let ?i = "PX (Suc l) va"
  have isi: "idx_path (is @ [?i])" "length (is @ [?i]) + l = 2" using Suc.prems(3,4) PX_less by auto
  show ?case
  proof (cases "pt_node (mem s) pt (is @ [?i])")
    case (Some u)
    then have "load64 (mem s) (unat (pte_addr t ?i)) AND PTE_V \<noteq> 0" "PTE2PA (load64 (mem s) (unat (pte_addr t ?i))) = u"
      using Suc.prems(2) by (auto simp: pt_node_snoc split: if_splits)
    moreover obtain r s' ps' where "walk_loop l u va True s = Ret r s'" "pt_grow s pt ps s' ps'"
        "\<forall>vb. pt_leaf (mem s') pt vb = pt_leaf (mem s) pt vb" "r = 0 \<longrightarrow> ps' = [] \<and> length ps < l"
        "length ps \<le> length ps' + l"
        "r \<noteq> 0 \<longrightarrow> (\<exists>t'. pt_node (mem s') pt ((is @ [?i]) @ path l va) = Some t' \<and> r = pte_addr t' (PX 0 va))"
      using Suc.IH [OF Suc.prems(1) Some isi] by blast
    ultimately show ?thesis
      by (intro exI [of _ r] exI [of _ s'] exI [of _ ps']) (auto simp: load_pte_def)
  next
    case None
    then have inval: "load64 (mem s) (unat (pte_addr t ?i)) AND PTE_V = 0"
      using Suc.prems(2) by (auto simp: pt_node_snoc split: if_splits)
    have av: "kmem_avail s ps" using Suc.prems(1) by (simp add: pt_inv_def)
    show ?thesis
    proof (cases ps)
      case Nil
      have "walk_loop (Suc l) t va True s = Ret 0 (s\<lparr>hw := hw_touch (hw s)\<rparr>)"
        using inval kalloc_avail_none [of s] av Nil by (simp add: load_pte_def)
      then show ?thesis using pt_grow_touch [OF Suc.prems(1)] Nil
        by (intro exI [of _ 0] exI [of _ "s\<lparr>hw := hw_touch (hw s)\<rparr>"] exI [of _ ps]) simp
    next
      case (Cons pg qs)
      let ?s = "s\<lparr>freelist := load64 (mem s) (unat pg), hw := hw_touch (hw s), mem := link_table (mem s) t ?i pg\<rparr>"
      have pg: "page_ok (kend s) pg" "pg \<notin> pt_pages (mem s) pt" "pg \<noteq> 0" and wf: "pt_wf (kend s) (mem s) pt"
        using kmem_avail_ok [OF av] Suc.prems(1) Cons by (auto simp: pt_inv_def)
      have run: "walk_loop (Suc l) t va True s = walk_loop l pg va True ?s"
        using inval kalloc_avail(1) [OF av [unfolded Cons]] pg(3)
        by (simp add: load_pte_def store_pte_def mem_modify_def memset_memset link_table_def)
      note inv = Suc.prems(1) [unfolded Cons]
      have g: "pt_grow s pt ps ?s qs" using pt_grow_link [OF inv Suc.prems(2) isi(1) None] Cons by simp
      then have inv': "pt_inv ?s pt qs" by (simp add: pt_grow_def)
      have node: "pt_node (mem ?s) pt (is @ [?i]) = Some pg"
        using pt_node_link_table [OF wf Suc.prems(2) isi(1) None pg(1,2) isi(1)] by simp
      have leaf: "pt_leaf (mem ?s) pt vb = pt_leaf (mem s) pt vb" for vb
        using pt_leaf_link_table [OF wf Suc.prems(2) isi(1) None pg(1,2)] by simp
      obtain r s' ps' where "walk_loop l pg va True ?s = Ret r s'" "pt_grow ?s pt qs s' ps'"
          "\<forall>vb. pt_leaf (mem s') pt vb = pt_leaf (mem ?s) pt vb" "r = 0 \<longrightarrow> ps' = [] \<and> length qs < l"
          "length qs \<le> length ps' + l"
          "r \<noteq> 0 \<longrightarrow> (\<exists>t'. pt_node (mem s') pt ((is @ [?i]) @ path l va) = Some t' \<and> r = pte_addr t' (PX 0 va))"
        using Suc.IH [OF inv' node isi] by blast
      then show ?thesis
        using pt_grow_trans [OF g] leaf run Cons by (intro exI [of _ r] exI [of _ s'] exI [of _ ps']) auto
    qed
  qed
qed

lemma walk_alloc:
  assumes "pt_inv s pt ps" "va < MAXVA"
  obtains s' ps' where "walk pt va True s = Ret 0 s'" "pt_grow s pt ps s' ps'" "ps' = []" "length ps < 2"
    "\<And>vb. pt_leaf (mem s') pt vb = pt_leaf (mem s) pt vb"
  | s' ps' t where "walk pt va True s = Ret (pte_addr t (PX 0 va)) s'" "pte_addr t (PX 0 va) \<noteq> 0"
    "pt_grow s pt ps s' ps'" "length ps \<le> length ps' + 2" "pt_node (mem s') pt (path 2 va) = Some t"
    "\<And>vb. pt_leaf (mem s') pt vb = pt_leaf (mem s) pt vb"
proof -
  have w: "walk pt va True s = walk_loop 2 pt va True s" using assms(2) by (simp add: walk_def linorder_not_le [symmetric])
  obtain r s' ps' where *: "walk pt va True s = Ret r s'" "pt_grow s pt ps s' ps'"
      "\<forall>vb. pt_leaf (mem s') pt vb = pt_leaf (mem s) pt vb" "r = 0 \<longrightarrow> ps' = [] \<and> length ps < 2"
      "length ps \<le> length ps' + 2"
      "r \<noteq> 0 \<longrightarrow> (\<exists>t'. pt_node (mem s') pt (path 2 va) = Some t' \<and> r = pte_addr t' (PX 0 va))"
    using walk_loop_alloc [of s pt ps "[]" pt 2 va] assms(1)
    by (simp add: idx_path_def w) blast
  show thesis
  proof (cases "r = 0")
    case True
    then show thesis using that(1) [of s' ps'] * by simp
  next
    case False
    then obtain t where "pt_node (mem s') pt (path 2 va) = Some t" "r = pte_addr t (PX 0 va)" using * by blast
    then show thesis using that(2) [of t s' ps'] * False by simp
  qed
qed

subsection \<open>mappages\<close>

text \<open>The abstract effect: \<open>n\<close> pages of addresses from \<open>a\<close> get entries for the physical pages from \<open>pa\<close>.\<close>

definition mapped :: "(u64 \<Rightarrow> u64) \<Rightarrow> u64 \<Rightarrow> nat \<Rightarrow> u64 \<Rightarrow> u64 \<Rightarrow> u64 \<Rightarrow> u64" where
  "mapped L a n pa perm vb =
     (if unat a \<le> unat vb \<and> unat vb < unat a + 4096 * n
      then PA2PTE (pa + of_nat ((unat vb - unat a) div 4096) * PGSIZE) OR perm OR PTE_V else L vb)"

lemma mapped_0 [simp]: "mapped L a 0 pa perm vb = L vb"
  by (auto simp: mapped_def)

lemma PGROUNDDOWN_eq_iff:
  assumes "page_aligned a"
  shows "PGROUNDDOWN vb = a \<longleftrightarrow> unat a \<le> unat vb \<and> unat vb < unat a + 4096"
proof -
  obtain k where k: "unat a = 4096 * k" using assms by (auto simp: page_aligned_def)
  have "PGROUNDDOWN vb = a \<longleftrightarrow> unat vb div 4096 = k"
    by (simp add: word_unat_eq_iff unat_PGROUNDDOWN k)
  moreover have "unat vb div 4096 = k \<Longrightarrow> 4096 * k \<le> unat vb \<and> unat vb < 4096 * k + 4096" by linarith
  moreover have "4096 * k \<le> unat vb \<Longrightarrow> unat vb < 4096 * k + 4096 \<Longrightarrow> unat vb div 4096 = k"
    by (rule div_nat_eqI) simp_all
  ultimately show ?thesis unfolding k by blast
qed

lemma mapped_Suc:
  assumes "page_aligned a" "unat (a + PGSIZE) = unat a + 4096"
    and "L' vb = (if PGROUNDDOWN vb = a then PA2PTE pa OR perm OR PTE_V else L vb)"
  shows "mapped L' (a + PGSIZE) n (pa + PGSIZE) perm vb = mapped L a (Suc n) pa perm vb"
proof (cases "PGROUNDDOWN vb = a")
  case True
  then have "unat a \<le> unat vb" "unat vb < unat a + 4096" using PGROUNDDOWN_eq_iff [OF assms(1)] by auto
  moreover from this have "(unat vb - unat a) div 4096 = 0" by simp
  ultimately show ?thesis using True by (simp add: mapped_def assms(2,3))
next
  case False
  then have out: "\<not> (unat a \<le> unat vb \<and> unat vb < unat a + 4096)" using PGROUNDDOWN_eq_iff [OF assms(1)] by auto
  show ?thesis
  proof (cases "unat a + 4096 \<le> unat vb")
    case True
    define d where "d = unat vb - (unat a + 4096)"
    have "unat vb - unat a = d + 4096" using True by (simp add: d_def)
    then have "(unat vb - unat a) div 4096 = Suc (d div 4096)" by simp
    moreover have "unat vb < unat a + 4096 + 4096 * n \<longleftrightarrow> unat vb < unat a + 4096 * Suc n" by auto
    ultimately show ?thesis using True False unfolding mapped_def assms(2,3) d_def
      by (simp add: algebra_simps del: mult_Suc_right)
  next
    case no: False
    then show ?thesis using out False by (auto simp: mapped_def assms(2,3))
  qed
qed

lemma pt_grow_store:
  assumes "pt_inv s pt ps" "pt_node (mem s) pt (path 2 va) = Some t" "va < MAXVA"
  shows "pt_grow s pt ps (s\<lparr>mem := store64 (mem s) (unat (pte_addr t (PX 0 va))) v\<rparr>) ps"
proof -
  let ?m = "store64 (mem s) (unat (pte_addr t (PX 0 va))) v"
  have av: "kmem_avail s ps" and wf: "pt_wf (kend s) (mem s) pt" and disj: "pt_pages (mem s) pt \<inter> set ps = {}"
    using assms(1) by (simp_all add: pt_inv_def)
  have t: "t \<in> pt_pages (mem s) pt" using pt_pagesI [OF assms(2)] by simp
  then have tok: "page_ok (kend s) t" "t \<notin> set ps" using wf disj by (auto simp: pt_wf_def)
  note ls = pt_leaf_store [OF wf assms(2,3,3) refl, of v]
  have so: "same_outside {t} (mem s) ?m" by (rule same_outside_pte_store [OF tok(1) PX_less])
  have "kmem_avail (s\<lparr>mem := ?m\<rparr>) ps"
    by (rule kmem_avail_mem [OF av so]) (use tok page_ok_bounds in auto)
  moreover have "same_outside (pt_pages ?m pt) (mem s) ?m"
    using same_outside_mono [OF so] t ls(1) by simp
  ultimately show ?thesis
    using ls disj by (auto simp: pt_grow_def pt_inv_def kmem_frame_def intro: exI [of _ 0])
qed

lemma pt_growD: "pt_grow s pt ps s' ps' \<Longrightarrow> pt_inv s' pt ps'" "pt_grow s pt ps s' ps' \<Longrightarrow> kmem_frame s s'"
  "pt_grow s pt ps s' ps' \<Longrightarrow> same_outside (pt_pages (mem s') pt) (mem s) (mem s')"
  by (simp_all add: pt_grow_def)

lemma mappages_loop_step:
  assumes inv: "pt_inv s pt ps" and a: "page_aligned a" "a < MAXVA" and free: "pt_leaf (mem s) pt a AND PTE_V = 0"
  obtains s' where "mappages_loop pt a l pa perm s = Ret (- 1) s'" "pt_grow s pt ps s' []" "length ps < 2"
    "\<And>vb. pt_leaf (mem s') pt vb = pt_leaf (mem s) pt vb"
  | s' ps' where "mappages_loop pt a l pa perm s =
      (if a = l then Ret 0 s' else mappages_loop pt (a + PGSIZE) l (pa + PGSIZE) perm s')" "pt_grow s pt ps s' ps'"
    "length ps \<le> length ps' + 2"
    "\<And>vb. vb < MAXVA \<Longrightarrow> pt_leaf (mem s') pt vb =
       (if PGROUNDDOWN vb = a then PA2PTE pa OR perm OR PTE_V else pt_leaf (mem s) pt vb)"
  using walk_alloc [OF inv a(2)]
proof cases
  case (1 s' ps')
  then show ?thesis by (intro that(1) [of s']) (simp_all add: mappages_loop.simps [of pt a])
next
  case (2 s' ps' t)
  let ?s = "s'\<lparr>mem := store64 (mem s') (unat (pte_addr t (PX 0 a))) (PA2PTE pa OR perm OR PTE_V)\<rparr>"
  have inv': "pt_inv s' pt ps'" by (rule pt_growD [OF 2(3)])
  then have wf: "pt_wf (kend s') (mem s') pt" by (simp add: pt_inv_def)
  have "load64 (mem s') (unat (pte_addr t (PX 0 a))) AND PTE_V = 0"
    using free 2(5) 2(6) [of a] by (simp add: pt_leaf_def)
  then have "mappages_loop pt a l pa perm s =
      (if a = l then Ret 0 ?s else mappages_loop pt (a + PGSIZE) l (pa + PGSIZE) perm ?s)"
    using 2(1,2) a(2) by (simp add: mappages_loop.simps [of pt a] load_pte_def store_pte_def mem_modify_def if_app)
  moreover have "pt_grow s pt ps ?s ps'"
    using pt_grow_trans [OF 2(3) pt_grow_store [OF inv' 2(5) a(2)]] .
  moreover note 2(4)
  moreover have "pt_leaf (mem ?s) pt vb = (if PGROUNDDOWN vb = a then PA2PTE pa OR perm OR PTE_V else pt_leaf (mem s) pt vb)"
    if "vb < MAXVA" for vb
    using pt_leaf_store(3) [OF wf 2(5) a(2) that refl] 2(6) PGROUNDDOWN_aligned [OF a(1)] by simp
  ultimately show ?thesis by (rule that(2))
qed

lemma mappages_loop_spec:
  assumes "pt_inv s pt ps" "page_aligned a" "unat a + 4096 * n < unat MAXVA" "l = a + of_nat n * PGSIZE"
    "\<forall>vb. unat a \<le> unat vb \<and> unat vb < unat a + 4096 * Suc n \<longrightarrow> pt_leaf (mem s) pt vb AND PTE_V = 0"
  shows "\<exists>r s' ps' j. mappages_loop pt a l pa perm s = Ret r s' \<and> pt_grow s pt ps s' ps' \<and>
    (\<forall>vb<MAXVA. pt_leaf (mem s') pt vb = mapped (pt_leaf (mem s) pt) a j pa perm vb) \<and>
    (r = 0 \<and> j = Suc n \<or> r = - 1 \<and> j \<le> n \<and> ps' = [] \<and> length ps < 2 * Suc n)"
  using assms
proof (induction n arbitrary: s ps a pa)
  case 0
  have a: "a < MAXVA" using "0.prems"(3) by (simp add: word_less_nat_alt)
  have free: "pt_leaf (mem s) pt a AND PTE_V = 0" using "0.prems"(5) by simp
  show ?case
    using mappages_loop_step [OF "0.prems"(1,2) a free, of l pa perm]
  proof cases
    case (1 s')
    then show ?thesis by (intro exI [of _ "- 1"] exI [of _ s'] exI [of _ "[]"] exI [of _ 0]) simp
  next
    case (2 s' ps')
    moreover have "pt_leaf (mem s') pt vb = mapped (pt_leaf (mem s) pt) a 1 pa perm vb" if "vb < MAXVA" for vb
      using 2(4) [OF that] mapped_Suc [OF "0.prems"(2) next_page_decreases(1) [OF a], of "pt_leaf (mem s') pt" vb pa perm
          "pt_leaf (mem s) pt" 0] by simp
    ultimately show ?thesis using "0.prems"(4)
      by (intro exI [of _ 0] exI [of _ s'] exI [of _ ps'] exI [of _ 1]) simp
  qed
next
  case (Suc n)
  have a: "a < MAXVA" using Suc.prems(3) by (simp add: word_less_nat_alt)
  note na = next_page_decreases(1) [OF a]
  have free: "pt_leaf (mem s) pt a AND PTE_V = 0" using Suc.prems(5) by simp
  show ?case
    using mappages_loop_step [OF Suc.prems(1,2) a free, of l pa perm]
  proof cases
    case (1 s')
    then show ?thesis by (intro exI [of _ "- 1"] exI [of _ s'] exI [of _ "[]"] exI [of _ 0]) simp
  next
    case (2 s' ps')
    have "a \<noteq> l"
    proof
      assume "a = l"
      then have "of_nat (Suc n) * PGSIZE = 0" using Suc.prems(4) by simp
      moreover have "unat (of_nat (Suc n) * PGSIZE) = 4096 * Suc n"
        using Suc.prems(3) by (simp add: unat_word_ariths unat_of_nat MAXVA_val)
      ultimately show False by simp
    qed
    have al: "page_aligned (a + PGSIZE)" using Suc.prems(2) na by (simp add: page_aligned_def)
    have lt: "unat (a + PGSIZE) + 4096 * n < unat MAXVA" using Suc.prems(3) na by simp
    have l: "l = a + PGSIZE + of_nat n * PGSIZE" using Suc.prems(4) by (simp add: algebra_simps)
    have fr: "\<forall>vb. unat (a + PGSIZE) \<le> unat vb \<and> unat vb < unat (a + PGSIZE) + 4096 * Suc n \<longrightarrow>
        pt_leaf (mem s') pt vb AND PTE_V = 0"
    proof (intro allI impI)
      fix vb :: u64 assume vb: "unat (a + PGSIZE) \<le> unat vb \<and> unat vb < unat (a + PGSIZE) + 4096 * Suc n"
      moreover obtain j where j: "unat (a + PGSIZE) = 4096 * j" using al by (auto simp: page_aligned_def)
      then have "4096 * (j + n) < 4096 * 67108864" using lt by (simp add: MAXVA_val)
      then have "j + n < 67108864" by (simp only: mult_less_cancel1)
      ultimately have "vb < MAXVA" using j by (simp add: word_less_nat_alt MAXVA_val)
      moreover have "PGROUNDDOWN vb \<noteq> a" using vb na PGROUNDDOWN_eq_iff [OF Suc.prems(2)] by simp
      moreover have "pt_leaf (mem s) pt vb AND PTE_V = 0" using Suc.prems(5) vb na by simp
      ultimately show "pt_leaf (mem s') pt vb AND PTE_V = 0" using 2(4) by simp
    qed
    obtain r s'' ps'' j where *: "mappages_loop pt (a + PGSIZE) l (pa + PGSIZE) perm s' = Ret r s''"
        "pt_grow s' pt ps' s'' ps''"
        "\<forall>vb<MAXVA. pt_leaf (mem s'') pt vb = mapped (pt_leaf (mem s') pt) (a + PGSIZE) j (pa + PGSIZE) perm vb"
        "r = 0 \<and> j = Suc n \<or> r = - 1 \<and> j \<le> n \<and> ps'' = [] \<and> length ps' < 2 * Suc n"
      using Suc.IH [OF pt_growD(1) [OF 2(2)] al lt l fr] by blast
    have "pt_leaf (mem s'') pt vb = mapped (pt_leaf (mem s) pt) a (Suc j) pa perm vb" if "vb < MAXVA" for vb
      using *(3) that mapped_Suc [where L' = "pt_leaf (mem s') pt" and L = "pt_leaf (mem s) pt" and n = j,
          OF Suc.prems(2) na 2(4) [OF that]] by simp
    then show ?thesis using 2(1,3) *(1,4) \<open>a \<noteq> l\<close> pt_grow_trans [OF 2(2) *(2)]
      by (intro exI [of _ r] exI [of _ s''] exI [of _ ps''] exI [of _ "Suc j"]) auto
  qed
qed

subsection \<open>Fresh tables\<close>

lemma zero_table:
  assumes "page_ok e t" "\<And>x. in_page t x \<Longrightarrow> m x = 0"
  shows "pt_wf e m t" "pt_pages m t = {t}" "pt_leaf m t va = 0"
proof -
  have z: "load64 m (unat (pte_addr t i)) = 0" if "i < 512" for i
  proof -
    have "mem_read m (unat (pte_addr t i)) 8 = mem_read (\<lambda>_. 0) (unat (pte_addr t i)) 8"
      using unat_pte_addr [OF assms(1) that] by (intro mem_read_cong assms(2)) (auto simp: in_page_def)
    then show ?thesis by (simp add: load64_def mem_read_def map_replicate_const)
  qed
  have node: "pt_node m t is = (if is = [] then Some t else None)" if "idx_path is" for "is"
    using that z by (cases "is") (auto simp: idx_path_def Let_def)
  show pages: "pt_pages m t = {t}"
  proof -
    have "u = t" if "u \<in> pt_pages m t" for u
      using that node by (auto simp: pt_pages_def split: if_splits)
    then show ?thesis using root_in_pt_pages by blast
  qed
  show "pt_wf e m t"
    using node assms(1) unfolding pt_wf_def pages by (auto split: if_splits)
  show "pt_leaf m t va = 0"
    using node [of "path 2 va"] length_path [of 2 va] by (auto simp: pt_leaf_def simp del: length_path)
qed

definition small_kmem :: kvm where
  "small_kmem = \<lparr>hw = boot_hw, mem = store64 (\<lambda>_. 0) 0x87FFF000 0x87FFE000, freelist = 0x87FFF000,
     kend = 0x80020000, kernel_pagetable = 0, satp = \<lambda>_. 0, etext = 0x80008000, trampoline = 0x80007000\<rparr>"

lemma small_kmem_avail: "kmem_avail small_kmem [0x87FFF000, 0x87FFE000]"
proof -
  have "load64 (store64 (\<lambda>_. 0) 0x87FFF000 v) 0x87FFE000 = 0" for v
    by (subst load64_store64_disj) simp_all
  then show ?thesis
    by (simp add: kmem_avail_def kmem_ready_def free_list_def small_kmem_def page_ok_def page_aligned_def PHYSTOP_val)
qed

lemma small_kmem_inv: "pt_inv small_kmem 0x87FFD000 [0x87FFF000, 0x87FFE000]"
  "pt_leaf (mem small_kmem) 0x87FFD000 va = 0"
proof -
  have ok: "page_ok (kend small_kmem) 0x87FFD000"
    by (simp add: page_ok_def page_aligned_def PHYSTOP_val small_kmem_def)
  have z: "mem small_kmem x = 0" if "in_page 0x87FFD000 x" for x
    using that by (simp add: small_kmem_def in_page_def store64_outside)
  note zt = zero_table [OF ok z]
  show "pt_leaf (mem small_kmem) 0x87FFD000 va = 0" by (rule zt(3))
  show "pt_inv small_kmem 0x87FFD000 [0x87FFF000, 0x87FFE000]"
    using zt(1,2) small_kmem_avail by (simp add: pt_inv_def)
qed

subsection \<open>Properties\<close>

text \<open>a page-table entry made from a page address and permission bits gives both back: \<open>PTE2PA\<close> and
  \<open>PTE_FLAGS\<close> invert \<open>PA2PTE\<close> with any flags or-ed in.\<close>

theorem pte_roundtrip:
  assumes "page_aligned pa" and "PTE_FLAGS perm = perm"
  shows "PTE2PA (PA2PTE pa OR perm OR PTE_V) = pa \<and> PTE_FLAGS (PA2PTE pa OR perm OR PTE_V) = perm OR PTE_V"
proof -
  have "PTE_FLAGS (perm OR PTE_V) = perm OR PTE_V" using assms(2) by (simp add: PTE_FLAGS_or)
  then show ?thesis
    using PTE2PA_PA2PTE [OF assms(1), of "perm OR PTE_V"] PTE_FLAGS_PA2PTE [of "perm OR PTE_V" pa]
    by (simp add: or.assoc)
qed

theorem pte_roundtrip_witness:
  "PTE2PA (PA2PTE 0x87FFF000 OR (PTE_R OR PTE_U) OR PTE_V) = 0x87FFF000"
  using pte_roundtrip [of "0x87FFF000" "PTE_R OR PTE_U"]
  by (simp add: page_aligned_def PTE_FLAGS_or)

lemma mappages_spec:
  assumes inv: "pt_inv s pt ps" and sz: "0 < sz" "unat va + unat sz \<le> unat MAXVA"
    and free: "\<forall>vb. unat va div 4096 \<le> unat vb div 4096 \<and> unat vb div 4096 \<le> (unat va + unat sz - 1) div 4096 \<longrightarrow>
      pt_leaf (mem s) pt vb AND PTE_V = 0"
  defines "n \<equiv> (unat va + unat sz - 1) div 4096 - unat va div 4096"
  shows "\<exists>r s' ps' j. mappages pt va sz pa perm s = Ret r s' \<and> pt_grow s pt ps s' ps' \<and>
    (\<forall>vb<MAXVA. pt_leaf (mem s') pt vb = mapped (pt_leaf (mem s) pt) (PGROUNDDOWN va) j pa perm vb) \<and>
    (r = 0 \<and> j = Suc n \<or> r = - 1 \<and> j \<le> n \<and> ps' = [] \<and> length ps < 2 * Suc n)"
proof -
  have sz0: "0 < unat sz" using sz(1) by (simp add: word_less_nat_alt)
  then have lt: "unat va + unat sz - 1 < unat MAXVA" using sz(2) by simp
  then have e: "unat (va + sz - 1) = unat va + unat sz - 1"
    using sz0 by (simp add: unat_word_ariths MAXVA_val unat_sub_if' split: if_splits)
  have d: "unat va div 4096 \<le> (unat va + unat sz - 1) div 4096" using sz0 by (intro div_le_mono) simp
  have a: "unat (PGROUNDDOWN va) + 4096 * n = (unat va + unat sz - 1) div 4096 * 4096"
    using d unfolding n_def unat_PGROUNDDOWN by (simp add: algebra_simps)
  then have "unat (PGROUNDDOWN va) + 4096 * n < unat MAXVA"
    using lt div_times_less_eq_dividend [of "unat va + unat sz - 1" 4096] by linarith
  moreover from this have "PGROUNDDOWN (va + sz - 1) = PGROUNDDOWN va + of_nat n * PGSIZE"
    using a e by (simp add: word_unat_eq_iff unat_PGROUNDDOWN unat_word_ariths unat_of_nat MAXVA_val)
  moreover have "\<forall>vb. unat (PGROUNDDOWN va) \<le> unat vb \<and> unat vb < unat (PGROUNDDOWN va) + 4096 * Suc n \<longrightarrow>
      pt_leaf (mem s) pt vb AND PTE_V = 0"
  proof (intro allI impI)
    fix vb :: u64
    assume vb: "unat (PGROUNDDOWN va) \<le> unat vb \<and> unat vb < unat (PGROUNDDOWN va) + 4096 * Suc n"
    then have "unat va div 4096 \<le> unat vb div 4096"
      using div_le_mono [of "unat (PGROUNDDOWN va)" "unat vb" 4096] by (simp add: unat_PGROUNDDOWN)
    moreover have "unat vb < Suc ((unat va + unat sz - 1) div 4096) * 4096"
      using vb a by simp
    then have "unat vb div 4096 < Suc ((unat va + unat sz - 1) div 4096)" by (rule less_mult_imp_div_less)
    ultimately show "pt_leaf (mem s) pt vb AND PTE_V = 0" using free by simp
  qed
  ultimately have "\<exists>r s' ps' j. mappages_loop pt (PGROUNDDOWN va) (PGROUNDDOWN (va + sz - 1)) pa perm s = Ret r s' \<and>
      pt_grow s pt ps s' ps' \<and>
      (\<forall>vb<MAXVA. pt_leaf (mem s') pt vb = mapped (pt_leaf (mem s) pt) (PGROUNDDOWN va) j pa perm vb) \<and>
      (r = 0 \<and> j = Suc n \<or> r = - 1 \<and> j \<le> n \<and> ps' = [] \<and> length ps < 2 * Suc n)"
    using mappages_loop_spec [OF inv page_aligned_PGROUNDDOWN, of va n] by simp
  then show ?thesis using sz0 by (simp add: mappages_def word_unat_eq_iff)
qed

text \<open>C10: \<open>mappages\<close> on a well-formed page table and a range of unmapped addresses below \<open>MAXVA\<close> never panics. If
  it returns 0, exactly the pages of the range have got the entries for consecutive physical pages with the
  given permissions, and every other address translates as before; if it returns -1, memory is exhausted (there were
  fewer than two free pages for each page to map) and a proper prefix of the range is mapped. In both cases the table stays well formed, table pages were only taken from the
  free list, and no byte outside the table's own pages has changed.\<close>

theorem mappages_correct:
  assumes "pt_inv s pt ps" and "0 < sz" "unat va + unat sz \<le> unat MAXVA"
    and "\<forall>vb. unat va div 4096 \<le> unat vb div 4096 \<and> unat vb div 4096 \<le> (unat va + unat sz - 1) div 4096 \<longrightarrow>
      pt_leaf (mem s) pt vb AND PTE_V = 0"
  shows "\<exists>r s' ps' j. mappages pt va sz pa perm s = Ret r s' \<and> pt_grow s pt ps s' ps' \<and>
    (\<forall>vb<MAXVA. pt_leaf (mem s') pt vb = mapped (pt_leaf (mem s) pt) (PGROUNDDOWN va) j pa perm vb) \<and>
    (r = 0 \<and> j = Suc ((unat va + unat sz - 1) div 4096 - unat va div 4096) \<or>
     r = - 1 \<and> j \<le> (unat va + unat sz - 1) div 4096 - unat va div 4096 \<and> ps' = [] \<and>
     length ps < 2 * Suc ((unat va + unat sz - 1) div 4096 - unat va div 4096))"
  using mappages_spec [OF assms] .

theorem mappages_correct_witness:
  "\<exists>s'. mappages 0x87FFD000 0x1000 0x1000 0x80100000 PTE_R small_kmem = Ret 0 s' \<and>
     pt_leaf (mem s') 0x87FFD000 0x1234 = PA2PTE 0x80100000 OR PTE_R OR PTE_V"
  using mappages_correct [OF small_kmem_inv(1), of "0x1000" "0x1000" "0x80100000" PTE_R]
  by (auto simp: small_kmem_inv(2) MAXVA_val mapped_def PGROUNDDOWN_def PGSIZE_def)

end
