(* ===== verification/Usercopy.thy ===== *)
theory Usercopy
  imports Uvm
begin

text \<open>
  Copying between kernel buffers and user memory (\<open>copyin\<close>, \<open>copyout\<close>, \<open>copyinstr\<close> of \<^verbatim>\<open>kernel/vm.c\<close>). Each is shown
  equal to a reference that translates and copies one byte at a time; the round trip and the isolation of
  other memory follow.
\<close>

subsection \<open>Translation of user addresses\<close>

definition uaddr :: "memory \<Rightarrow> u64 \<Rightarrow> u64 \<Rightarrow> u64" where
  "uaddr m pt va =
     (if va \<ge> MAXVA \<or> pt_leaf m pt va AND PTE_V = 0 \<or> pt_leaf m pt va AND PTE_U = 0 then 0
      else PTE2PA (pt_leaf m pt va))"

text \<open>The byte of memory behind a mapped user address.\<close>

definition ubyte_at :: "memory \<Rightarrow> u64 \<Rightarrow> u64 \<Rightarrow> nat" where
  "ubyte_at m pt va = unat (uaddr m pt (PGROUNDDOWN va)) + unat va mod 4096"

definition user_ok :: "u64 \<Rightarrow> memory \<Rightarrow> u64 \<Rightarrow> bool" where
  "user_ok e m pt \<longleftrightarrow> pt_wf e m pt \<and>
     (\<forall>va. uaddr m pt va \<noteq> 0 \<longrightarrow> page_ok e (uaddr m pt va) \<and> uaddr m pt va \<notin> pt_pages m pt) \<and>
     (\<forall>va vb. uaddr m pt va \<noteq> 0 \<longrightarrow> uaddr m pt va = uaddr m pt vb \<longrightarrow> PGROUNDDOWN va = PGROUNDDOWN vb)"

lemma walkaddr_eq:
  assumes "pt_wf e (mem s) pt"
  shows "walkaddr pt va s = Ret (uaddr (mem s) pt va) s"
proof (cases "va \<ge> MAXVA")
  case True
  then show ?thesis by (simp add: walkaddr_def uaddr_def)
next
  case False
  then have va: "va < MAXVA" by simp
  show ?thesis
  proof (cases "pt_node (mem s) pt (path 2 va)")
    case None
    then show ?thesis using False by (simp add: walkaddr_def walk_lookup [OF va] uaddr_def pt_leaf_def)
  next
    case (Some t)
    have "t \<in> pt_pages (mem s) pt" using pt_pagesI [OF Some] by simp
    then have "page_ok e t" using assms by (auto simp: pt_wf_def)
    then have "pte_addr t (PX 0 va) \<noteq> 0" using pte_addr_nonzero PX_less by blast
    then show ?thesis
      using False Some by (simp add: walkaddr_def walk_lookup [OF va] uaddr_def pt_leaf_def load_pte_def)
  qed
qed

lemma user_okD:
  assumes "user_ok e m pt"
  shows "pt_wf e m pt" "uaddr m pt va \<noteq> 0 \<Longrightarrow> page_ok e (uaddr m pt va)"
    "uaddr m pt va \<noteq> 0 \<Longrightarrow> uaddr m pt va \<notin> pt_pages m pt"
    "uaddr m pt va \<noteq> 0 \<Longrightarrow> uaddr m pt va = uaddr m pt vb \<Longrightarrow> PGROUNDDOWN va = PGROUNDDOWN vb"
  using assms unfolding user_ok_def by blast+

lemma user_ok_same_outside:
  assumes "user_ok e m pt" "same_outside P m m'" "\<forall>q\<in>P. page_aligned q" "P \<inter> pt_pages m pt = {}"
  shows "user_ok e m' pt" "uaddr m' pt va = uaddr m pt va"
proof -
  note so = pt_same_outside [OF user_okD(1) [OF assms(1)] assms(2-4)]
  show ua: "uaddr m' pt va = uaddr m pt va" for va by (simp add: uaddr_def so(3))
  show "user_ok e m' pt" using assms(1) unfolding user_ok_def ua so(1) using so(2) by blast
qed

subsection \<open>Addresses inside a page\<close>

lemma in_page_addr:
  assumes "i < 4096 - unat va mod 4096"
  shows "unat (va + of_nat i) = unat va + i" "PGROUNDDOWN (va + of_nat i) = PGROUNDDOWN va"
    "unat (va + of_nat i) mod 4096 = unat va mod 4096 + i"
proof -
  define q r where "q = unat va div 4096" and "r = unat va mod 4096"
  have va: "unat va = 4096 * q + r" and r: "r < 4096" by (simp_all add: q_def r_def)
  have i: "r + i < 4096" using assms by (simp add: r_def)
  have "4096 * q < 4096 * 4503599627370496" using va unat_lt2p [of va] by simp
  then have "q < 4503599627370496" by (simp only: mult_less_cancel1)
  then have "unat va + i < 18446744073709551616" using va i by linarith
  then show u: "unat (va + of_nat i) = unat va + i"
    by (simp add: unat_word_ariths unat_of_nat)
  have "(unat va + i) div 4096 = q" using va i by (intro div_nat_eqI) simp_all
  then show "PGROUNDDOWN (va + of_nat i) = PGROUNDDOWN va"
    by (simp add: word_unat_eq_iff unat_PGROUNDDOWN u q_def)
  have "unat va + i = 4096 * q + (r + i)" using va by simp
  also have "\<dots> mod 4096 = r + i" using i by simp
  finally show "unat (va + of_nat i) mod 4096 = unat va mod 4096 + i" by (simp only: u r_def)
qed

lemma next_page_addr: "PGROUNDDOWN va + PGSIZE = va + of_nat (4096 - unat va mod 4096)"
proof -
  have "va = PGROUNDDOWN va + of_nat (unat va mod 4096)"
    by (simp flip: PGROUNDDOWN_offset)
  then have "va + of_nat (4096 - unat va mod 4096) =
      PGROUNDDOWN va + of_nat (unat va mod 4096 + (4096 - unat va mod 4096))"
    by (metis (no_types, lifting) add.assoc of_nat_add)
  also have "unat va mod 4096 + (4096 - unat va mod 4096) = 4096" by (simp add: less_imp_le)
  finally show ?thesis by (simp add: PGSIZE_def)
qed

lemma user_page_byte:
  assumes "page_ok e p"
  shows "unat (p + (va - PGROUNDDOWN va)) = unat p + unat va mod 4096"
proof -
  have "unat p + unat va mod 4096 < 2 ^ 64"
    using page_ok_bounds(2) [OF assms] mod_less_divisor [of 4096 "unat va"] by (simp add: PHYSTOP_val)
  then show ?thesis by (simp add: unat_word_ariths PGROUNDDOWN_offset)
qed

subsection \<open>The reference: one byte at a time\<close>

primrec ufetch :: "memory \<Rightarrow> u64 \<Rightarrow> u64 \<Rightarrow> nat \<Rightarrow> int \<times> u8 list" where
  "ufetch m pt va 0 = (0, [])"
| "ufetch m pt va (Suc len) =
     (if uaddr m pt (PGROUNDDOWN va) = 0 then (- 1, [])
      else case ufetch m pt (va + 1) len of (r, bs) \<Rightarrow> (r, m (ubyte_at m pt va) # bs))"

primrec ufetchstr :: "memory \<Rightarrow> u64 \<Rightarrow> u64 \<Rightarrow> nat \<Rightarrow> int \<times> u8 list" where
  "ufetchstr m pt va 0 = (- 1, [])"
| "ufetchstr m pt va (Suc len) =
     (if uaddr m pt (PGROUNDDOWN va) = 0 then (- 1, [])
      else if m (ubyte_at m pt va) = 0 then (0, [0])
      else case ufetchstr m pt (va + 1) len of (r, bs) \<Rightarrow> (r, m (ubyte_at m pt va) # bs))"

primrec ustore :: "memory \<Rightarrow> u64 \<Rightarrow> u64 \<Rightarrow> u8 list \<Rightarrow> int \<times> memory" where
  "ustore m pt va [] = (0, m)"
| "ustore m pt va (b # bs) =
     (if uaddr m pt (PGROUNDDOWN va) = 0 then (- 1, m)
      else ustore (m(ubyte_at m pt va := b)) pt (va + 1) bs)"

lemma in_page_Suc:
  assumes "Suc i < 4096 - unat va mod 4096"
  shows "i < 4096 - unat (va + 1) mod 4096" "PGROUNDDOWN (va + 1) = PGROUNDDOWN va"
    "ubyte_at m pt (va + 1) = Suc (ubyte_at m pt va)"
  using in_page_addr [of 1 va] assms by (simp_all add: ubyte_at_def)

lemma ufetch_chunk:
  assumes "n \<le> 4096 - unat va mod 4096" "n \<le> len" "uaddr m pt (PGROUNDDOWN va) \<noteq> 0"
  shows "ufetch m pt va len = (case ufetch m pt (va + of_nat n) (len - n) of (r, bs) \<Rightarrow>
    (r, mem_read m (ubyte_at m pt va) n @ bs))"
  using assms
proof (induction n arbitrary: va len)
  case (Suc n)
  then obtain len' where len: "len = Suc len'" "n \<le> len'" by (cases len) auto
  show ?case
  proof (cases "n = 0")
    case True
    then show ?thesis using Suc.prems(3) len by (simp add: mem_read_def split: prod.split)
  next
    case False
    then have lt: "Suc 0 < 4096 - unat va mod 4096" using Suc.prems(1) by linarith
    note step = in_page_Suc [OF lt]
    have "n \<le> 4096 - unat (va + 1) mod 4096"
      using in_page_addr(3) [of 1 va] lt Suc.prems(1) by simp
    from Suc.IH [OF this len(2)] show ?thesis
      using Suc.prems(3) len step mem_read_append [of m "ubyte_at m pt va" 1 n]
      by (simp add: add.assoc mem_read_def split: prod.split)
  qed
qed simp

lemma page_chunk_bound: "page_chunk va len \<le> 4096 - unat va mod 4096"
  by (simp add: page_chunk_def unat_page_rest)

lemma page_chunk_next:
  assumes "page_chunk va len < len"
  shows "PGROUNDDOWN va + PGSIZE = va + of_nat (page_chunk va len)"
proof -
  have "page_chunk va len = 4096 - unat va mod 4096" using assms by (simp add: page_chunk_def unat_page_rest)
  then show ?thesis by (simp only: next_page_addr)
qed

lemma copyin_loop_eq:
  assumes "user_ok e (mem s) pt"
  shows "copyin_loop pt va len dst s = Ret (case ufetch (mem s) pt va len of (r, bs) \<Rightarrow> (r, dst @ bs)) s"
proof (induction len arbitrary: va dst rule: less_induct)
  case (less len)
  let ?n = "page_chunk va len"
  let ?pa = "uaddr (mem s) pt (PGROUNDDOWN va)"
  note wa = walkaddr_eq [OF user_okD(1) [OF assms], of "PGROUNDDOWN va"]
  show ?case
  proof (cases "len = 0 \<or> ?pa = 0")
    case True
    then show ?thesis using wa by (cases len) (auto simp: copyin_loop.simps [of pt va] Let_def)
  next
    case False
    then have pa: "?pa \<noteq> 0" and len: "0 < len" by auto
    have n: "0 < ?n" "?n \<le> len" using page_chunk_pos [OF len] page_chunk_le by auto
    have a: "unat (?pa + (va - PGROUNDDOWN va)) = ubyte_at (mem s) pt va"
      using user_page_byte [OF user_okD(2) [OF assms pa]] by (simp add: ubyte_at_def)
    have "copyin_loop pt va len dst s = copyin_loop pt (PGROUNDDOWN va + PGSIZE) (len - ?n)
        (dst @ mem_read (mem s) (ubyte_at (mem s) pt va) ?n) s"
      using wa pa len a by (simp add: copyin_loop.simps [of pt va] Let_def)
    also have "\<dots> = Ret (case ufetch (mem s) pt (PGROUNDDOWN va + PGSIZE) (len - ?n) of (r, bs) \<Rightarrow>
        (r, (dst @ mem_read (mem s) (ubyte_at (mem s) pt va) ?n) @ bs)) s"
      using n by (intro less.IH) simp
    also have "ufetch (mem s) pt (PGROUNDDOWN va + PGSIZE) (len - ?n) = ufetch (mem s) pt (va + of_nat ?n) (len - ?n)"
      using page_chunk_next [of va len] n(2) by (cases "?n < len") auto
    finally show ?thesis
      using ufetch_chunk [OF page_chunk_bound n(2) pa] by (simp split: prod.split)
  qed
qed

lemma ufetchstr_chunk:
  assumes "n \<le> 4096 - unat va mod 4096" "n \<le> len" "uaddr m pt (PGROUNDDOWN va) \<noteq> 0"
  shows "ufetchstr m pt va len = (case copyinstr_scan m (ubyte_at m pt va) n of (bs, got_null) \<Rightarrow>
    if got_null then (0, bs)
    else case ufetchstr m pt (va + of_nat n) (len - n) of (r, cs) \<Rightarrow> (r, bs @ cs))"
  using assms
proof (induction n arbitrary: va len)
  case (Suc n)
  then obtain len' where len: "len = Suc len'" "n \<le> len'" by (cases len) auto
  show ?case
  proof (cases "n = 0")
    case True
    then show ?thesis using Suc.prems(3) len by (simp split: prod.split)
  next
    case False
    then have lt: "Suc 0 < 4096 - unat va mod 4096" using Suc.prems(1) by linarith
    note step = in_page_Suc [OF lt]
    have "n \<le> 4096 - unat (va + 1) mod 4096"
      using in_page_addr(3) [of 1 va] lt Suc.prems(1) by simp
    from Suc.IH [OF this len(2)] show ?thesis
      using Suc.prems(3) len step by (auto simp: add.assoc split: prod.split)
  qed
qed simp

lemma copyinstr_loop_eq:
  assumes "user_ok e (mem s) pt"
  shows "copyinstr_loop pt va len dst s = Ret (case ufetchstr (mem s) pt va len of (r, bs) \<Rightarrow> (r, dst @ bs)) s"
proof (induction len arbitrary: va dst rule: less_induct)
  case (less len)
  let ?n = "page_chunk va len"
  let ?pa = "uaddr (mem s) pt (PGROUNDDOWN va)"
  note wa = walkaddr_eq [OF user_okD(1) [OF assms], of "PGROUNDDOWN va"]
  show ?case
  proof (cases "len = 0 \<or> ?pa = 0")
    case True
    then show ?thesis using wa by (cases len) (auto simp: copyinstr_loop.simps [of pt va] Let_def)
  next
    case False
    then have pa: "?pa \<noteq> 0" and len: "0 < len" by auto
    have n: "0 < ?n" "?n \<le> len" using page_chunk_pos [OF len] page_chunk_le by auto
    have a: "unat (?pa + (va - PGROUNDDOWN va)) = ubyte_at (mem s) pt va"
      using user_page_byte [OF user_okD(2) [OF assms pa]] by (simp add: ubyte_at_def)
    obtain bs got where sc: "copyinstr_scan (mem s) (ubyte_at (mem s) pt va) ?n = (bs, got)" by force
    have next_eq: "ufetchstr (mem s) pt (PGROUNDDOWN va + PGSIZE) (len - ?n) = ufetchstr (mem s) pt (va + of_nat ?n) (len - ?n)"
      using page_chunk_next [of va len] n(2) by (cases "?n < len") auto
    show ?thesis
    proof (cases got)
      case True
      then show ?thesis using wa pa len a sc ufetchstr_chunk [OF page_chunk_bound n(2) pa]
        by (simp add: copyinstr_loop.simps [of pt va] Let_def)
    next
      case no: False
      have "copyinstr_loop pt va len dst s = copyinstr_loop pt (PGROUNDDOWN va + PGSIZE) (len - ?n) (dst @ bs) s"
        using wa pa len a sc no by (simp add: copyinstr_loop.simps [of pt va] Let_def)
      also have "\<dots> = Ret (case ufetchstr (mem s) pt (PGROUNDDOWN va + PGSIZE) (len - ?n) of (r, cs) \<Rightarrow>
          (r, (dst @ bs) @ cs)) s"
        using n by (intro less.IH) simp
      finally show ?thesis
        using ufetchstr_chunk [OF page_chunk_bound n(2) pa] sc no next_eq by (simp split: prod.split)
    qed
  qed
qed

subsection \<open>Storing\<close>

lemma ubyte_in_page: "in_page (uaddr m pt (PGROUNDDOWN va)) (ubyte_at m pt va)"
  by (simp add: in_page_def ubyte_at_def)

lemma uaddr_mapped_bound:
  assumes "uaddr m pt (PGROUNDDOWN va) \<noteq> 0"
  shows "va < MAXVA"
proof (rule ccontr)
  assume "\<not> va < MAXVA"
  then have "unat MAXVA \<le> unat va" by (simp add: word_less_nat_alt)
  then have "unat MAXVA div 4096 * 4096 \<le> unat va div 4096 * 4096" by (intro mult_le_mono div_le_mono) simp_all
  then have "MAXVA \<le> PGROUNDDOWN va" by (simp add: word_le_nat_alt unat_PGROUNDDOWN MAXVA_val)
  with assms show False by (simp add: uaddr_def)
qed

lemma user_ok_upd:
  assumes "user_ok e m pt" "uaddr m pt (PGROUNDDOWN va) \<noteq> 0" "\<And>x. \<not> in_page (uaddr m pt (PGROUNDDOWN va)) x \<Longrightarrow> m' x = m x"
  shows "user_ok e m' pt" "uaddr m' pt vb = uaddr m pt vb" "ubyte_at m' pt vb = ubyte_at m pt vb"
proof -
  let ?p = "uaddr m pt (PGROUNDDOWN va)"
  have so: "same_outside {?p} m m'" using assms(3) by (simp add: same_outside_def)
  have "\<forall>q\<in>{?p}. page_aligned q" "{?p} \<inter> pt_pages m pt = {}"
    using user_okD(2,3) [OF assms(1,2)] page_ok_bounds(1) by auto
  note u = user_ok_same_outside [OF assms(1) so this]
  then show "user_ok e m' pt" "uaddr m' pt vb = uaddr m pt vb" "ubyte_at m' pt vb = ubyte_at m pt vb"
    by (simp_all add: ubyte_at_def)
qed

lemma user_ok_poke:
  assumes "user_ok e m pt" "uaddr m pt (PGROUNDDOWN va) \<noteq> 0"
  shows "user_ok e (m(ubyte_at m pt va := b)) pt" "uaddr (m(ubyte_at m pt va := b)) pt vb = uaddr m pt vb"
    "ubyte_at (m(ubyte_at m pt va := b)) pt vb = ubyte_at m pt vb"
proof -
  have *: "\<not> in_page (uaddr m pt (PGROUNDDOWN va)) x \<Longrightarrow> (m(ubyte_at m pt va := b)) x = m x" for x
    using ubyte_in_page by auto
  show "user_ok e (m(ubyte_at m pt va := b)) pt" using * by (rule user_ok_upd(1) [OF assms])
  show "uaddr (m(ubyte_at m pt va := b)) pt vb = uaddr m pt vb" using * by (rule user_ok_upd(2) [OF assms])
  show "ubyte_at (m(ubyte_at m pt va := b)) pt vb = ubyte_at m pt vb" using * by (rule user_ok_upd(3) [OF assms])
qed

lemma mem_write_Cons: "mem_write m a (b # bs) = mem_write (m(a := b)) (Suc a) bs"
  by (auto simp: fun_eq_iff mem_write_def nth_Cons' Suc_le_eq)

lemma ustore_chunk:
  assumes "n \<le> 4096 - unat va mod 4096" "n \<le> length bs" "uaddr m pt (PGROUNDDOWN va) \<noteq> 0" "user_ok e m pt"
  shows "ustore m pt va bs = ustore (mem_write m (ubyte_at m pt va) (take n bs)) pt (va + of_nat n) (drop n bs)"
  using assms
proof (induction n arbitrary: va bs m)
  case (Suc n)
  then obtain b cs where bs: "bs = b # cs" "n \<le> length cs" by (cases bs) auto
  let ?m = "m(ubyte_at m pt va := b)"
  note poke = user_ok_poke [OF Suc.prems(4,3)]
  show ?case
  proof (cases "n = 0")
    case True
    then show ?thesis using Suc.prems(3) bs by (simp add: mem_write_Cons fun_upd_def)
  next
    case False
    then have lt: "Suc 0 < 4096 - unat va mod 4096" using Suc.prems(1) by linarith
    note step = in_page_Suc [OF lt]
    have "n \<le> 4096 - unat (va + 1) mod 4096"
      using in_page_addr(3) [of 1 va] lt Suc.prems(1) by simp
    moreover have "uaddr ?m pt (PGROUNDDOWN (va + 1)) \<noteq> 0" using poke(2) step(2) Suc.prems(3) by simp
    ultimately have "ustore ?m pt (va + 1) cs =
        ustore (mem_write ?m (ubyte_at ?m pt (va + 1)) (take n cs)) pt (va + 1 + of_nat n) (drop n cs)"
      using bs(2) poke(1) by (intro Suc.IH)
    then show ?thesis
      using Suc.prems(3) bs step(3) poke(3) [of "b" "va + 1"] by (simp add: mem_write_Cons add.assoc)
  qed
qed simp

lemma user_ok_mem_write:
  assumes "user_ok e m pt" "uaddr m pt (PGROUNDDOWN va) \<noteq> 0" "length bs \<le> 4096 - unat va mod 4096"
  shows "user_ok e (mem_write m (ubyte_at m pt va) bs) pt"
proof (rule user_ok_upd(1) [OF assms(1,2)])
  fix x assume "\<not> in_page (uaddr m pt (PGROUNDDOWN va)) x"
  then have "x < ubyte_at m pt va \<or> ubyte_at m pt va + length bs \<le> x"
    using assms(3) by (simp add: in_page_def ubyte_at_def not_le not_less) linarith
  then show "mem_write m (ubyte_at m pt va) bs x = m x" by (rule mem_write_outside)
qed

lemma copyout_eq:
  assumes "user_ok e (mem s) pt"
  shows "copyout pt va src s = (case ustore (mem s) pt va src of (r, m) \<Rightarrow> Ret r (s\<lparr>mem := m\<rparr>))"
  using assms
proof (induction "length src" arbitrary: va src s rule: less_induct)
  case less
  let ?n = "page_chunk va (length src)"
  let ?pa = "uaddr (mem s) pt (PGROUNDDOWN va)"
  note wa = walkaddr_eq [OF user_okD(1) [OF less.prems], of "PGROUNDDOWN va"]
  show ?case
  proof (cases "src = [] \<or> ?pa = 0")
    case True
    then show ?thesis using wa by (cases src) (auto simp: copyout.simps [of pt va] Let_def)
  next
    case False
    then have pa: "?pa \<noteq> 0" and len: "src \<noteq> []" by auto
    have n: "0 < ?n" "?n \<le> length src" using page_chunk_pos [of "length src"] page_chunk_le len by auto
    have a: "unat (?pa + (va - PGROUNDDOWN va)) = ubyte_at (mem s) pt va"
      using user_page_byte [OF user_okD(2) [OF less.prems pa]] by (simp add: ubyte_at_def)
    let ?s = "s\<lparr>mem := mem_write (mem s) (ubyte_at (mem s) pt va) (take ?n src)\<rparr>"
    have "copyout pt va src s = copyout pt (PGROUNDDOWN va + PGSIZE) (drop ?n src) ?s"
      using wa pa len a by (simp add: copyout.simps [of pt va] Let_def mem_modify_def)
    also have "\<dots> = (case ustore (mem ?s) pt (PGROUNDDOWN va + PGSIZE) (drop ?n src) of (r, m) \<Rightarrow> Ret r (?s\<lparr>mem := m\<rparr>))"
      using n page_chunk_bound user_ok_mem_write [OF less.prems pa, of "take ?n src"] by (intro less.hyps) simp_all
    also have "ustore (mem ?s) pt (PGROUNDDOWN va + PGSIZE) (drop ?n src) = ustore (mem ?s) pt (va + of_nat ?n) (drop ?n src)"
      using page_chunk_next [of va "length src"] n(2) by (cases "?n < length src") auto
    finally show ?thesis
      using ustore_chunk [OF page_chunk_bound n(2) pa less.prems] by (simp split: prod.split)
  qed
qed

lemma ustore_keeps:
  assumes "user_ok e m pt" "ustore m pt va bs = (r, m')"
  shows "user_ok e m' pt \<and> uaddr m' pt vb = uaddr m pt vb \<and> (r = 0 \<or> r = - 1)"
  using assms
proof (induction bs arbitrary: m va)
  case (Cons b bs)
  show ?case
  proof (cases "uaddr m pt (PGROUNDDOWN va) = 0")
    case False
    note poke = user_ok_poke [OF Cons.prems(1) False]
    have "ustore (m(ubyte_at m pt va := b)) pt (va + 1) bs = (r, m')" using Cons.prems(2) False by simp
    from Cons.IH [OF poke(1) this] show ?thesis unfolding poke(2) .
  qed (use Cons.prems in simp)
qed simp

lemma ustore_frame:
  assumes "user_ok e m pt" "ustore m pt va bs = (r, m')"
    "\<And>i. i < length bs \<Longrightarrow> uaddr m pt (PGROUNDDOWN (va + of_nat i)) \<noteq> 0 \<Longrightarrow> x \<noteq> ubyte_at m pt (va + of_nat i)"
  shows "m' x = m x"
  using assms
proof (induction bs arbitrary: m va)
  case (Cons b bs)
  show ?case
  proof (cases "uaddr m pt (PGROUNDDOWN va) = 0")
    case False
    note poke = user_ok_poke [OF Cons.prems(1) False]
    have "m' x = (m(ubyte_at m pt va := b)) x"
    proof (rule Cons.IH [OF poke(1) [of b]])
      show "ustore (m(ubyte_at m pt va := b)) pt (va + 1) bs = (r, m')" using Cons.prems(2) False by simp
      show "x \<noteq> ubyte_at (m(ubyte_at m pt va := b)) pt (va + 1 + of_nat i)"
        if "i < length bs" "uaddr (m(ubyte_at m pt va := b)) pt (PGROUNDDOWN (va + 1 + of_nat i)) \<noteq> 0" for i
        using Cons.prems(3) [of "Suc i"] that poke(2,3) by (simp add: add.assoc)
    qed
    also have "\<dots> = m x" using Cons.prems(3) [of 0] False by simp
    finally show ?thesis .
  qed (use Cons.prems in simp)
qed simp

lemma ubyte_inj:
  assumes "user_ok e m pt" "uaddr m pt (PGROUNDDOWN va) \<noteq> 0" "uaddr m pt (PGROUNDDOWN vb) \<noteq> 0"
    "ubyte_at m pt va = ubyte_at m pt vb"
  shows "va = vb"
proof -
  have "page_aligned (uaddr m pt (PGROUNDDOWN va))" "page_aligned (uaddr m pt (PGROUNDDOWN vb))"
    using user_okD(2) [OF assms(1)] assms(2,3) page_ok_bounds(1) by blast+
  then have same: "uaddr m pt (PGROUNDDOWN va) = uaddr m pt (PGROUNDDOWN vb)"
    using in_page_unique ubyte_in_page assms(4) by metis
  then have "PGROUNDDOWN va = PGROUNDDOWN vb"
    using user_okD(4) [OF assms(1,2) same] by (simp add: PGROUNDDOWN_aligned)
  moreover have "unat va mod 4096 = unat vb mod 4096" using assms(4) same by (simp add: ubyte_at_def)
  ultimately have "va - PGROUNDDOWN va = vb - PGROUNDDOWN va"
    by (metis PGROUNDDOWN_offset word_unat_eq_iff)
  then show ?thesis by simp
qed

lemma ustore_success:
  assumes "user_ok e m pt" "ustore m pt va bs = (0, m')" "i < length bs"
  shows "uaddr m pt (PGROUNDDOWN (va + of_nat i)) \<noteq> 0"
  using assms
proof (induction bs arbitrary: m va i)
  case (Cons b bs)
  then have ne: "uaddr m pt (PGROUNDDOWN va) \<noteq> 0" by (auto split: if_splits)
  note poke = user_ok_poke [OF Cons.prems(1) ne]
  show ?case
  proof (cases i)
    case (Suc j)
    have "ustore (m(ubyte_at m pt va := b)) pt (va + 1) bs = (0, m')" using Cons.prems(2) ne by simp
    moreover have "j < length bs" using Cons.prems(3) Suc by simp
    ultimately have "uaddr m pt (PGROUNDDOWN (va + 1 + of_nat j)) \<noteq> 0"
      using Cons.IH [OF poke(1)] unfolding poke(2) by blast
    then show ?thesis using Suc by (simp add: add.assoc)
  qed (use ne in simp)
qed simp

lemma ustore_mapped:
  assumes "user_ok e m pt" "\<And>i. i < length bs \<Longrightarrow> uaddr m pt (PGROUNDDOWN (va + of_nat i)) \<noteq> 0"
  shows "fst (ustore m pt va bs) = 0"
  using assms
proof (induction bs arbitrary: m va)
  case (Cons b bs)
  have ne: "uaddr m pt (PGROUNDDOWN va) \<noteq> 0" using Cons.prems(2) [of 0] by simp
  note poke = user_ok_poke [OF Cons.prems(1) ne]
  have "fst (ustore (m(ubyte_at m pt va := b)) pt (va + 1) bs) = 0"
  proof (rule Cons.IH [OF poke(1)])
    fix i assume "i < length bs"
    then show "uaddr (m(ubyte_at m pt va := b)) pt (PGROUNDDOWN (va + 1 + of_nat i)) \<noteq> 0"
      using Cons.prems(2) [of "Suc i"] unfolding poke(2) by (simp add: add.assoc)
  qed
  then show ?case using ne by simp
qed simp

lemma unat_Suc_below_MAXVA: "w < MAXVA \<Longrightarrow> unat (w + 1) = unat w + 1"
  by (simp add: unat_word_ariths word_less_nat_alt MAXVA_val)

text \<open>Consecutive mapped addresses do not wrap around.\<close>

lemma mapped_run:
  assumes "\<And>j. j < k \<Longrightarrow> uaddr m pt (PGROUNDDOWN (va + of_nat j)) \<noteq> 0"
  shows "unat (va + of_nat k) = unat va + k"
  using assms
proof (induction k)
  case (Suc k)
  then have "va + of_nat k < MAXVA" using uaddr_mapped_bound by blast
  then have "unat (va + of_nat k + 1) = unat (va + of_nat k) + 1" by (rule unat_Suc_below_MAXVA)
  then show ?case using Suc by (simp add: add.commute add.left_commute)
qed simp

lemma ufetch_ustore:
  assumes "user_ok e m pt" "ustore m pt va bs = (0, m')"
  shows "ufetch m' pt va (length bs) = (0, bs)"
  using assms
proof (induction bs arbitrary: m va)
  case (Cons b bs)
  then have ne: "uaddr m pt (PGROUNDDOWN va) \<noteq> 0" by (auto split: if_splits)
  let ?m = "m(ubyte_at m pt va := b)"
  note poke = user_ok_poke [OF Cons.prems(1) ne]
  have rest: "ustore ?m pt (va + 1) bs = (0, m')" using Cons.prems(2) ne by simp
  have IH: "ufetch m' pt (va + 1) (length bs) = (0, bs)" using Cons.IH [OF poke(1) rest] .
  have keep: "uaddr m' pt vb = uaddr m pt vb" for vb
    using ustore_keeps [OF Cons.prems] by blast
  then have ub: "ubyte_at m' pt vb = ubyte_at m pt vb" for vb by (simp add: ubyte_at_def)
  have "m' (ubyte_at m pt va) = ?m (ubyte_at m pt va)"
  proof (rule ustore_frame [OF poke(1) rest])
    fix i assume i: "i < length bs" "uaddr ?m pt (PGROUNDDOWN (va + 1 + of_nat i)) \<noteq> 0"
    have "unat (va + of_nat (Suc i)) = unat va + Suc i"
      using ustore_success [OF Cons.prems] i(1) by (intro mapped_run [where m = m and pt = pt]) simp
    then have "unat (va + of_nat (Suc i)) \<noteq> unat va" by simp
    then have "va \<noteq> va + of_nat (Suc i)" by metis
    moreover have "va + of_nat (Suc i) = va + 1 + of_nat i" by (simp add: add.assoc)
    ultimately have "va \<noteq> va + 1 + of_nat i" by metis
    then show "ubyte_at m pt va \<noteq> ubyte_at ?m pt (va + 1 + of_nat i)"
      using ubyte_inj [OF Cons.prems(1) ne] i(2) unfolding poke(2,3) by blast
  qed
  then have "m' (ubyte_at m' pt va) = b" by (simp add: ub)
  then show ?case using ne IH keep by simp
qed simp

text \<open>An address space with one user page, made by \<open>mappages\<close>.\<close>

lemma one_page_space:
  obtains s where "user_ok (kend s) (mem s) 0x87FFD000" "uaddr (mem s) 0x87FFD000 0 = 0x87FFA000"
    "kmem_frame small_kmem s"
proof -
  let ?perm = "PTE_R OR PTE_W OR PTE_U"
  obtain s ps where s: "mappages 0x87FFD000 0 0x1000 0x87FFA000 ?perm small_kmem = Ret 0 s"
      "pt_grow small_kmem 0x87FFD000 [0x87FFF000, 0x87FFE000] s ps"
      "\<forall>vb<MAXVA. pt_leaf (mem s) 0x87FFD000 vb =
        mapped (pt_leaf (mem small_kmem) 0x87FFD000) 0 1 0x87FFA000 ?perm vb"
    using mappages_spec [OF small_kmem_inv(1), of "0x1000" 0 "0x87FFA000" ?perm]
    by (auto simp: small_kmem_inv(2) MAXVA_val PGROUNDDOWN_def)
  have fr: "kmem_frame small_kmem s" and inv: "pt_inv s 0x87FFD000 ps"
    using s(2) by (simp_all add: pt_grow_def)
  have "pt_pages (mem small_kmem) 0x87FFD000 = {0x87FFD000}"
    by (rule zero_table(2) [of "kend small_kmem"])
      (simp_all add: small_kmem_def page_ok_def page_aligned_def PHYSTOP_val in_page_def store64_outside)
  then have notin: "0x87FFA000 \<notin> pt_pages (mem s) 0x87FFD000"
    using s(2) by (auto simp: pt_grow_def)
  have e: "PTE2PA (PA2PTE 0x87FFA000 OR (?perm OR PTE_V)) = 0x87FFA000"
    by (rule PTE2PA_PA2PTE) (simp_all add: page_aligned_def PTE_FLAGS_or)
  have u: "uaddr (mem s) 0x87FFD000 va = (if va < MAXVA \<and> unat va < 4096 then 0x87FFA000 else 0)" for va
    using s(3) e by (auto simp: uaddr_def mapped_def small_kmem_inv(2) or.assoc not_le PTE_V_def PTE_R_def
        PTE_W_def PTE_U_def PA2PTE_def)
  have k: "kend s = 0x80020000" using kmem_frame_kend [OF fr] by (simp add: small_kmem_def)
  have "PGROUNDDOWN va = PGROUNDDOWN vb" if "unat va < 4096" "unat vb < 4096" for va vb :: u64
    using that by (simp add: word_unat_eq_iff unat_PGROUNDDOWN)
  then have "user_ok (kend s) (mem s) 0x87FFD000"
    using inv notin unfolding user_ok_def u k
    by (auto simp: pt_inv_def k page_ok_def page_aligned_def PHYSTOP_val split: if_splits)
  then show thesis using that u [of 0] fr by (simp add: MAXVA_val)
qed

subsection \<open>Properties\<close>

text \<open>C12: \<open>copyin\<close> and \<open>copyinstr\<close>, which translate once per page and copy in chunks, give for every user
  address, length and page table exactly what translating and copying byte by byte gives, partial copies before an
  unmapped page included; they change no state.\<close>

theorem copyin_bytewise:
  assumes "user_ok e (mem s) pt"
  shows "copyin pt srcva len s = Ret (ufetch (mem s) pt srcva len) s \<and>
    copyinstr pt srcva len s = Ret (ufetchstr (mem s) pt srcva len) s"
  using copyin_loop_eq [OF assms, of srcva len "[]"] copyinstr_loop_eq [OF assms, of srcva len "[]"]
  by (simp add: copyin_def copyinstr_def split_def)

theorem copyin_bytewise_witness:
  "\<exists>s :: kvm. copyin 0x87FFD000 0 1 s = Ret (0, [mem s 0x87FFA000]) s \<and> copyin 0x87FFD000 0x4000000000 1 s = Ret (- 1, []) s"
proof -
  obtain s :: kvm where s: "user_ok (kend s) (mem s) 0x87FFD000" "uaddr (mem s) 0x87FFD000 0 = 0x87FFA000"
    using one_page_space by blast
  show ?thesis
    using copyin_bytewise [OF s(1), of 0 1] copyin_bytewise [OF s(1), of "0x4000000000" 1] s(2)
    by (intro exI [of _ s]) (simp add: ubyte_at_def PGROUNDDOWN_def PGSIZE_def uaddr_def MAXVA_val)
qed

text \<open>C11: \<open>copyout\<close> returns 0 when every address of the range is mapped for the user, having stored every byte, so
  that \<open>copyin\<close> of the same range returns the bytes; otherwise it returns -1. In both cases the only bytes of memory that may have changed are those behind the mapped
  addresses of the range, and the user address space stays well formed with the same translation.\<close>

theorem copyout_copyin:
  assumes "user_ok e (mem s) pt"
  shows "\<exists>r m'. copyout pt va src s = Ret r (s\<lparr>mem := m'\<rparr>) \<and>
    r = (if \<forall>i<length src. uaddr (mem s) pt (PGROUNDDOWN (va + of_nat i)) \<noteq> 0 then 0 else - 1) \<and>
    (r = 0 \<longrightarrow> copyin pt va (length src) (s\<lparr>mem := m'\<rparr>) = Ret (0, src) (s\<lparr>mem := m'\<rparr>)) \<and>
    (\<forall>x. (\<forall>i<length src. uaddr (mem s) pt (PGROUNDDOWN (va + of_nat i)) \<noteq> 0 \<longrightarrow>
        x \<noteq> ubyte_at (mem s) pt (va + of_nat i)) \<longrightarrow> m' x = mem s x) \<and>
    user_ok e m' pt \<and> (\<forall>vb. uaddr m' pt vb = uaddr (mem s) pt vb)"
proof -
  obtain r m' where st: "ustore (mem s) pt va src = (r, m')" by force
  have keep: "user_ok e m' pt" "\<And>vb. uaddr m' pt vb = uaddr (mem s) pt vb" "r = 0 \<or> r = - 1"
    using ustore_keeps [OF assms st] by blast+
  have "copyin pt va (length src) (s\<lparr>mem := m'\<rparr>) = Ret (0, src) (s\<lparr>mem := m'\<rparr>)" if "r = 0"
    using ufetch_ustore [OF assms, of va src m'] st that copyin_loop_eq [of e "s\<lparr>mem := m'\<rparr>" pt va "length src" "[]"] keep(1)
    by (simp add: copyin_def)
  moreover have "copyout pt va src s = Ret r (s\<lparr>mem := m'\<rparr>)" using copyout_eq [OF assms, of va src] st by simp
  moreover have "r = 0 \<longleftrightarrow> (\<forall>i<length src. uaddr (mem s) pt (PGROUNDDOWN (va + of_nat i)) \<noteq> 0)"
    using ustore_mapped [OF assms, of src va] ustore_success [OF assms, of va src m'] st by auto
  with keep(3) have "r = (if \<forall>i<length src. uaddr (mem s) pt (PGROUNDDOWN (va + of_nat i)) \<noteq> 0 then 0 else - 1)"
    by auto
  ultimately show ?thesis using keep(1,2) ustore_frame [OF assms st] by blast
qed


theorem copyout_copyin_witness:
  "\<exists>(s :: kvm) s'. copyout 0x87FFD000 0 [7] s = Ret 0 s' \<and> copyin 0x87FFD000 0 1 s' = Ret (0, [7]) s'"
proof -
  obtain s :: kvm where s: "user_ok (kend s) (mem s) 0x87FFD000" "uaddr (mem s) 0x87FFD000 0 = 0x87FFA000"
    using one_page_space by blast
  have z: "PGROUNDDOWN 0 = 0" by (simp add: PGROUNDDOWN_def)
  obtain m' where "copyout 0x87FFD000 0 [7] s = Ret 0 (s\<lparr>mem := m'\<rparr>)"
      "copyin 0x87FFD000 0 1 (s\<lparr>mem := m'\<rparr>) = Ret (0, [7]) (s\<lparr>mem := m'\<rparr>)"
    using copyout_copyin [OF s(1), of 0 "[7]"] s(2) z by auto
  then show ?thesis by blast
qed

end
