(* ===== verification/Proc.thy ===== *)
theory Proc
  imports Usercopy
begin

text \<open>
  The process table and the primitives of scheduling (\<^verbatim>\<open>kernel/proc.c\<close>, \<^verbatim>\<open>kernel/proc.h\<close>): allocation of
  process slots and page tables, \<open>sleep\<close>, \<open>wakeup\<close>, \<open>sched\<close>, \<open>yield\<close>, the scheduler's loop, \<open>kill\<close>, and the MP1
  addition \<open>getnproc\<close>. A process is its index in the table; a context switch (\<open>swtch\<close> to the
  scheduler) is a waiting point at which the rest of the system runs. The parts of \<^verbatim>\<open>proc.c\<close> that need the file
  layer (\<open>fork\<close>, \<open>exit\<close>, \<open>wait\<close>, \<open>userinit\<close>) are in the theory of processes.

  A C pointer to the current process is dereferenced after \<open>myproc()\<close>; with no current process that is a load through
  a null pointer, which \<^verbatim>\<open>kerneltrap\<close> turns into a panic.
\<close>

subsection \<open>State\<close>

datatype wchan = TicksChan | UartTxChan | ProcChan nat | LogChan | SleepChan sleepid | ConsChan
  | PipeReadChan u64 | PipeWriteChan u64 | DiskFreeChan | BufChan nat

datatype procstate = UNUSED | USED | SLEEPING | RUNNABLE | RUNNING | ZOMBIE

record ctxt =
  ctx_ra :: u64
  ctx_sp :: u64
  ctx_saved :: "u64 list"

record proc =
  p_state :: procstate
  p_chan :: "wchan option"
  p_killed :: int
  p_xstate :: int
  p_pid :: int
  p_parent :: "nat option"
  p_kstack :: u64
  p_sz :: u64
  p_pagetable :: u64
  p_trapframe :: u64
  p_context :: ctxt
  p_ofile :: "nat \<Rightarrow> nat option"
  p_cwd :: "nat option"
  p_name :: cptr
  p_trace_mask :: int

record kproc = kvm +
  procs :: "nat \<Rightarrow> proc"
  nextpid :: int
  initproc :: "nat option"
  forkret_addr :: u64

type_synonym ('x, 'a) procfun = "('x kproc_scheme, 'a) kfun"

definition upd_proc :: "nat \<Rightarrow> (proc \<Rightarrow> proc) \<Rightarrow> ('x, unit) procfun" where
  "upd_proc i f = modify (\<lambda>s. s\<lparr>procs := (procs s)(i := f (procs s i))\<rparr>)"

definition get_proc :: "nat \<Rightarrow> (proc \<Rightarrow> 'a) \<Rightarrow> ('x, 'a) procfun" where
  "get_proc i f = gets (\<lambda>s. f (procs s i))"

text \<open>Offsets in the trapframe page (\<^verbatim>\<open>struct trapframe\<close>).\<close>

definition tf_kernel_satp :: nat where "tf_kernel_satp = 0"
definition tf_kernel_sp :: nat where "tf_kernel_sp = 8"
definition tf_kernel_trap :: nat where "tf_kernel_trap = 16"
definition tf_epc :: nat where "tf_epc = 24"
definition tf_kernel_hartid :: nat where "tf_kernel_hartid = 32"
definition tf_sp :: nat where "tf_sp = 48"
definition tf_a :: "nat \<Rightarrow> nat" where "tf_a n = 112 + 8 * n"

definition trapframe_layout :: "string list" where
  "trapframe_layout = [''kernel_satp'', ''kernel_sp'', ''kernel_trap'', ''epc'', ''kernel_hartid'', ''ra'', ''sp'',
     ''gp'', ''tp'', ''t0'', ''t1'', ''t2'', ''s0'', ''s1'', ''a0'', ''a1'', ''a2'', ''a3'', ''a4'', ''a5'', ''a6'', ''a7'',
     ''s2'', ''s3'', ''s4'', ''s5'', ''s6'', ''s7'', ''s8'', ''s9'', ''s10'', ''s11'', ''t3'', ''t4'', ''t5'', ''t6'']"

definition tf_size :: nat where "tf_size = 8 * length trapframe_layout"

lemma tf_offsets:
  "trapframe_layout ! (tf_epc div 8) = ''epc''" "trapframe_layout ! (tf_sp div 8) = ''sp''"
  "trapframe_layout ! (tf_a 0 div 8) = ''a0''" "trapframe_layout ! (tf_a 7 div 8) = ''a7''"
  "trapframe_layout ! (tf_kernel_hartid div 8) = ''kernel_hartid''" "tf_size = 288"
  by (simp_all add: trapframe_layout_def tf_epc_def tf_sp_def tf_a_def tf_kernel_hartid_def tf_size_def)

definition load_tf :: "nat \<Rightarrow> nat \<Rightarrow> ('x, u64) procfun" where
  "load_tf p fld = gets (\<lambda>s. load64 (mem s) (unat (p_trapframe (procs s p)) + fld))"

definition store_tf :: "nat \<Rightarrow> nat \<Rightarrow> u64 \<Rightarrow> ('x, unit) procfun" where
  "store_tf p fld v = modify (\<lambda>s. s\<lparr>mem := store64 (mem s) (unat (p_trapframe (procs s p)) + fld) v\<rparr>)"

subsection \<open>The current process\<close>

definition myproc :: "('x, nat option) procfun" where
  "myproc = kseq push_off (kbind (gets (\<lambda>s. c_proc (mycpu (hw s)))) (\<lambda>p. kseq pop_off (kret p)))"

definition with_myproc :: "(nat \<Rightarrow> ('x, 'a) procfun) \<Rightarrow> ('x, 'a) procfun" where
  "with_myproc f = kbind myproc (\<lambda>p. case p of None \<Rightarrow> panic ''kerneltrap'' | Some i \<Rightarrow> f i)"

subsection \<open>Allocation of processes\<close>

definition procinit :: "('x, unit) procfun" where
  "procinit =
     kseq (initlock PidLock ''nextpid'')
     (kseq (initlock WaitLock ''wait_lock'')
     (for_each [0..<NPROC] (\<lambda>p.
        kseq (initlock (ProcLock p) ''proc'')
        (kseq (upd_proc p (\<lambda>x. x\<lparr>p_state := UNUSED\<rparr>))
        (upd_proc p (\<lambda>x. x\<lparr>p_kstack := KSTACK p\<rparr>))))))"

definition allocpid :: "('x, int) procfun" where
  "allocpid =
     kseq (acquire PidLock)
     (kbind (gets nextpid) (\<lambda>pid.
      kseq (modify (\<lambda>s. s\<lparr>nextpid := nextpid s + 1\<rparr>))
      (kseq (release PidLock)
      (kret pid))))"

definition proc_pagetable :: "nat \<Rightarrow> ('x, u64) procfun" where
  "proc_pagetable p =
     kbind uvmcreate (\<lambda>pt.
     if pt = 0 then kret 0
     else kbind (gets trampoline) (\<lambda>tr.
       kbind (mappages pt TRAMPOLINE PGSIZE tr (PTE_R OR PTE_X)) (\<lambda>r.
       if r < 0 then kseq (uvmfree pt 0) (kret 0)
       else kbind (get_proc p p_trapframe) (\<lambda>tf.
         kbind (mappages pt TRAPFRAME PGSIZE tf (PTE_R OR PTE_W)) (\<lambda>r.
         if r < 0 then
           kseq (uvmunmap pt TRAMPOLINE 1 False)
           (kseq (uvmfree pt 0)
           (kret 0))
         else kret pt)))))"

definition proc_freepagetable :: "u64 \<Rightarrow> u64 \<Rightarrow> ('x, unit) procfun" where
  "proc_freepagetable pt sz =
     kseq (uvmunmap pt TRAMPOLINE 1 False)
     (kseq (uvmunmap pt TRAPFRAME 1 False)
     (uvmfree pt sz))"

definition freeproc :: "nat \<Rightarrow> ('x, unit) procfun" where
  "freeproc p =
     kbind (get_proc p p_trapframe) (\<lambda>tf.
     kseq (kwhen (tf \<noteq> 0) (kfree tf))
     (kseq (upd_proc p (\<lambda>x. x\<lparr>p_trapframe := 0\<rparr>))
     (kbind (get_proc p p_pagetable) (\<lambda>pt.
      kbind (get_proc p p_sz) (\<lambda>sz.
      kseq (kwhen (pt \<noteq> 0) (proc_freepagetable pt sz))
      (upd_proc p (\<lambda>x. x\<lparr>p_pagetable := 0, p_sz := 0, p_pid := 0, p_parent := None,
         p_name := (p_name x)(0 := 0), p_chan := None, p_killed := 0, p_xstate := 0, p_state := UNUSED\<rparr>)))))))"

text \<open>The search loop of \<open>allocproc\<close> ends with the lock of the slot it found held.\<close>

definition allocproc_find :: "('x, nat option) procfun" where
  "allocproc_find =
     for_first [0..<NPROC] (\<lambda>p.
       kseq (acquire (ProcLock p))
       (kbind (get_proc p p_state) (\<lambda>st.
        if st = UNUSED then kret (Some p)
        else kseq (release (ProcLock p)) (kret None))))"

definition allocproc :: "('x, nat option) procfun" where
  "allocproc =
     kbind allocproc_find (\<lambda>found. case found of
       None \<Rightarrow> kret None
     | Some p \<Rightarrow>
       kbind allocpid (\<lambda>pid.
       kseq (upd_proc p (\<lambda>x. x\<lparr>p_pid := pid\<rparr>))
       (kseq (upd_proc p (\<lambda>x. x\<lparr>p_state := USED\<rparr>))
       (kbind kalloc (\<lambda>tf.
        kseq (upd_proc p (\<lambda>x. x\<lparr>p_trapframe := tf\<rparr>))
        (if tf = 0 then kseq (freeproc p) (kseq (release (ProcLock p)) (kret None))
         else kbind (proc_pagetable p) (\<lambda>pt.
          kseq (upd_proc p (\<lambda>x. x\<lparr>p_pagetable := pt\<rparr>))
          (if pt = 0 then kseq (freeproc p) (kseq (release (ProcLock p)) (kret None))
           else kbind (gets forkret_addr) (\<lambda>fr.
             kseq (upd_proc p (\<lambda>x. x\<lparr>p_context := \<lparr>ctx_ra = fr, ctx_sp = p_kstack x + PGSIZE,
               ctx_saved = replicate 12 0\<rparr>\<rparr>))
             (kret (Some p)))))))))))"

definition growproc :: "int \<Rightarrow> ('x, int) procfun" where
  "growproc n =
     with_myproc (\<lambda>p.
     kbind (get_proc p p_pagetable) (\<lambda>pt.
     kbind (get_proc p p_sz) (\<lambda>sz.
     if n > 0 then
       kbind (uvmalloc pt sz (sz + word_of_int n) PTE_W) (\<lambda>sz'.
       if sz' = 0 then kret (- 1)
       else kseq (upd_proc p (\<lambda>x. x\<lparr>p_sz := sz'\<rparr>)) (kret 0))
     else if n < 0 then
       kbind (uvmdealloc pt sz (sz + word_of_int n)) (\<lambda>sz'.
       kseq (upd_proc p (\<lambda>x. x\<lparr>p_sz := sz'\<rparr>)) (kret 0))
     else kseq (upd_proc p (\<lambda>x. x\<lparr>p_sz := sz\<rparr>)) (kret 0))))"

subsection \<open>Scheduling\<close>

definition swtch :: "('x, unit) procfun" where
  "swtch s = Wait Switched s (\<lambda>s'. Ret () s')"

definition sched :: "('x, unit) procfun" where
  "sched =
     with_myproc (\<lambda>p.
     kbind (gets hw) (\<lambda>h.
     kbind (get_proc p p_state) (\<lambda>st.
     if \<not> holding (ProcLock p) h then panic ''sched p->lock''
     else if noff (mycpu h) \<noteq> 1 then panic ''sched locks''
     else if st = RUNNING then panic ''sched running''
     else if intr_get h then panic ''sched interruptible''
     else kseq swtch
       (hw_modify (set_mycpu (\<lambda>c. c\<lparr>intena := intena (mycpu h)\<rparr>))))))"

definition yield :: "('x, unit) procfun" where
  "yield =
     with_myproc (\<lambda>p.
     kseq (acquire (ProcLock p))
     (kseq (upd_proc p (\<lambda>x. x\<lparr>p_state := RUNNABLE\<rparr>))
     (kseq sched
     (release (ProcLock p)))))"

definition sleep :: "wchan \<Rightarrow> lockid \<Rightarrow> ('x, unit) procfun" where
  "sleep ch lk =
     with_myproc (\<lambda>p.
     kseq (acquire (ProcLock p))
     (kseq (release lk)
     (kseq (upd_proc p (\<lambda>x. x\<lparr>p_chan := Some ch\<rparr>))
     (kseq (upd_proc p (\<lambda>x. x\<lparr>p_state := SLEEPING\<rparr>))
     (kseq sched
     (kseq (upd_proc p (\<lambda>x. x\<lparr>p_chan := None\<rparr>))
     (kseq (release (ProcLock p))
     (acquire lk))))))))"

definition wakeup :: "wchan \<Rightarrow> ('x, unit) procfun" where
  "wakeup ch =
     for_each [0..<NPROC] (\<lambda>p.
       kbind myproc (\<lambda>me.
       kwhen (Some p \<noteq> me)
         (kseq (acquire (ProcLock p))
         (kseq (upd_proc p (\<lambda>x. if p_state x = SLEEPING \<and> p_chan x = Some ch
              then x\<lparr>p_state := RUNNABLE\<rparr> else x))
         (release (ProcLock p))))))"

text \<open>One pass of the scheduler over the table; the \<open>for(;;)\<close> around it never returns, and \<open>scheduler n\<close> is its first
  \<open>n\<close> passes.\<close>

definition scheduler_pass :: "('x, unit) procfun" where
  "scheduler_pass =
     kseq (hw_modify intr_on)
     (for_each [0..<NPROC] (\<lambda>p.
        kseq (acquire (ProcLock p))
        (kbind (get_proc p p_state) (\<lambda>st.
         kseq (kwhen (st = RUNNABLE)
           (kseq (upd_proc p (\<lambda>x. x\<lparr>p_state := RUNNING\<rparr>))
           (kseq (hw_modify (set_mycpu (\<lambda>c. c\<lparr>c_proc := Some p\<rparr>)))
           (kseq swtch
           (hw_modify (set_mycpu (\<lambda>c. c\<lparr>c_proc := None\<rparr>)))))))
         (release (ProcLock p))))))"

primrec scheduler_loop :: "nat \<Rightarrow> ('x, unit) procfun" where
  "scheduler_loop 0 = kskip"
| "scheduler_loop (Suc n) = kseq scheduler_pass (scheduler_loop n)"

definition scheduler :: "nat \<Rightarrow> ('x, unit) procfun" where
  "scheduler n = kseq (hw_modify (set_mycpu (\<lambda>c. c\<lparr>c_proc := None\<rparr>))) (scheduler_loop n)"

definition reparent :: "nat \<Rightarrow> ('x, unit) procfun" where
  "reparent p =
     for_each [0..<NPROC] (\<lambda>pp.
       kbind (get_proc pp p_parent) (\<lambda>par.
       kwhen (par = Some p)
         (kbind (gets initproc) (\<lambda>ini.
          kseq (upd_proc pp (\<lambda>x. x\<lparr>p_parent := ini\<rparr>))
          (case ini of None \<Rightarrow> kskip | Some i \<Rightarrow> wakeup (ProcChan i))))))"

subsection \<open>Killing and counting\<close>

definition kill_slot :: "int \<Rightarrow> nat \<Rightarrow> ('x, int option) procfun" where
  "kill_slot pid p =
     kseq (acquire (ProcLock p))
     (kbind (get_proc p p_pid) (\<lambda>pid'.
      if pid' = pid then
        kseq (upd_proc p (\<lambda>x. x\<lparr>p_killed := 1\<rparr>))
        (kseq (upd_proc p (\<lambda>x. if p_state x = SLEEPING then x\<lparr>p_state := RUNNABLE\<rparr> else x))
        (kseq (release (ProcLock p))
        (kret (Some 0))))
      else kseq (release (ProcLock p)) (kret None)))"

definition kill :: "int \<Rightarrow> ('x, int) procfun" where
  "kill pid =
     kbind (for_first [0..<NPROC] (kill_slot pid))
     (\<lambda>r. case r of Some v \<Rightarrow> kret v | None \<Rightarrow> kret (- 1))"

definition setkilled :: "nat \<Rightarrow> ('x, unit) procfun" where
  "setkilled p =
     kseq (acquire (ProcLock p))
     (kseq (upd_proc p (\<lambda>x. x\<lparr>p_killed := 1\<rparr>))
     (release (ProcLock p)))"

definition killed :: "nat \<Rightarrow> ('x, int) procfun" where
  "killed p =
     kseq (acquire (ProcLock p))
     (kbind (get_proc p p_killed) (\<lambda>k.
      kseq (release (ProcLock p))
      (kret k)))"

fun getnproc_loop :: "nat list \<Rightarrow> int \<Rightarrow> ('x, int) procfun" where
  "getnproc_loop [] n = kret n"
| "getnproc_loop (p # ps) n =
     kseq (acquire (ProcLock p))
     (kbind (get_proc p p_state) (\<lambda>st.
      let n' = (if st \<noteq> UNUSED then n + 1 else n) in
      kseq (release (ProcLock p))
      (getnproc_loop ps n')))"

definition getnproc :: "('x, int) procfun" where
  "getnproc = getnproc_loop [0..<NPROC] 0"

subsection \<open>Copying to and from user or kernel space\<close>

text \<open>The flag \<open>user_dst\<close> and the address; a kernel address is either in the physical memory of the model or names a
  buffer of the caller, whose bytes the caller keeps itself.\<close>

datatype copydst = UserDst u64 | KernDst u64 | LocalDst
datatype copysrc = UserSrc u64 | KernSrc u64 | LocalSrc "u8 list"

definition either_copyout :: "copydst \<Rightarrow> u8 list \<Rightarrow> ('x, int) procfun" where
  "either_copyout dst src =
     kbind myproc (\<lambda>me. case dst of
       UserDst va \<Rightarrow> (case me of None \<Rightarrow> panic ''kerneltrap''
         | Some p \<Rightarrow> kbind (get_proc p p_pagetable) (\<lambda>pt. copyout pt va src))
     | KernDst pa \<Rightarrow> kseq (mem_modify (\<lambda>m. mem_write m (unat pa) src)) (kret 0)
     | LocalDst \<Rightarrow> kret 0)"

definition either_copyin :: "copysrc \<Rightarrow> nat \<Rightarrow> ('x, int \<times> u8 list) procfun" where
  "either_copyin src len =
     kbind myproc (\<lambda>me. case src of
       UserSrc va \<Rightarrow> (case me of None \<Rightarrow> panic ''kerneltrap''
         | Some p \<Rightarrow> kbind (get_proc p p_pagetable) (\<lambda>pt. copyin pt va len))
     | KernSrc pa \<Rightarrow> kbind (gets (\<lambda>s. mem_read (mem s) (unat pa) len)) (\<lambda>bs. kret (0, bs))
     | LocalSrc bs \<Rightarrow> kret (0, take len bs))"

subsection \<open>Evaluation without contention\<close>

lemma myproc_eq [kexec]:
  assumes "hw_ok (hw s)"
  shows "myproc s = Ret (c_proc (cpus (hw s) (tp (hw s)))) (s\<lparr>hw := hw_touch (hw s)\<rparr>)"
proof -
  have "1 \<le> noff (cpus (hw_push (hw s)) (tp (hw s)))" using assms by simp
  then show ?thesis
    using assms by (simp add: myproc_def push_off_eq pop_off_eq mycpu_def cpuid_def)
qed

definition procs_free :: "hwstate \<Rightarrow> bool" where
  "procs_free h \<longleftrightarrow> hw_ok h \<and> (\<forall>i<NPROC. lock_free (ProcLock i) h)"

lemma procs_free_touch [simp]: "procs_free (hw_touch h) = procs_free h"
  by (simp add: procs_free_def)

text \<open>A loop over the table that handles each slot by itself, under a condition that the loop keeps.\<close>

lemma for_each_procs:
  assumes "\<And>p s. p \<in> set xs \<Longrightarrow> P (hw s) \<Longrightarrow>
      body p s = Ret () (s\<lparr>hw := hw_touch (hw s), procs := (procs s)(p := f p (procs s p))\<rparr>)"
    and "\<And>h. P (hw_touch h) = P h" and "P (hw s)" and "distinct xs"
  shows "for_each xs body s = Ret () (s\<lparr>hw := if xs = [] then hw s else hw_touch (hw s),
    procs := \<lambda>i. if i \<in> set xs then f i (procs s i) else procs s i\<rparr>)"
  using assms(1,3,4)
proof (induction xs arbitrary: s)
  case (Cons p xs)
  let ?s = "s\<lparr>hw := hw_touch (hw s), procs := (procs s)(p := f p (procs s p))\<rparr>"
  have "for_each xs body ?s = Ret () (?s\<lparr>hw := if xs = [] then hw ?s else hw_touch (hw ?s),
      procs := \<lambda>i. if i \<in> set xs then f i (procs ?s i) else procs ?s i\<rparr>)"
    using Cons.prems by (intro Cons.IH) (simp_all add: assms(2))
  also have "(\<lambda>i. if i \<in> set xs then f i (procs ?s i) else procs ?s i) =
      (\<lambda>i. if i \<in> set (p # xs) then f i (procs s i) else procs s i)"
    using Cons.prems(3) by (auto simp: fun_eq_iff)
  also have "(if xs = [] then hw ?s else hw_touch (hw ?s)) = hw_touch (hw s)" by simp
  finally show ?case using Cons.prems(1) [of p s] Cons.prems(2) by simp
qed simp

lemma proc_section:
  assumes "hw_ok (hw s)" "lock_free (ProcLock p) (hw s)"
  shows "kseq (acquire (ProcLock p)) (kseq (upd_proc p f) (release (ProcLock p))) s =
    Ret () (s\<lparr>hw := hw_touch (hw s), procs := (procs s)(p := f (procs s p))\<rparr>)"
  using assms by (simp add: kexec upd_proc_def)

definition woken :: "wchan \<Rightarrow> nat option \<Rightarrow> (nat \<Rightarrow> proc) \<Rightarrow> nat \<Rightarrow> proc" where
  "woken ch me ps i = (if i < NPROC \<and> Some i \<noteq> me \<and> p_state (ps i) = SLEEPING \<and> p_chan (ps i) = Some ch
     then (ps i)\<lparr>p_state := RUNNABLE\<rparr> else ps i)"

lemma NPROC_pos [simp]: "0 < NPROC" "NPROC \<noteq> 0" by (simp_all add: NPROC_def)

lemma wakeup_eq:
  fixes s :: "'x kproc_scheme"
  assumes "hw_ok (hw s)" and "c_proc (cpus (hw s) (tp (hw s))) = me"
    and "\<forall>i<NPROC. Some i \<noteq> me \<longrightarrow> lock_free (ProcLock i) (hw s)"
  shows "wakeup ch s = Ret () (s\<lparr>hw := hw_touch (hw s), procs := woken ch me (procs s)\<rparr>)"
proof -
  let ?f = "\<lambda>i x. if Some i \<noteq> me \<and> p_state x = SLEEPING \<and> p_chan x = Some ch then x\<lparr>p_state := RUNNABLE\<rparr> else x"
  let ?P = "\<lambda>h. hw_ok h \<and> c_proc (cpus h (tp h)) = me \<and> (\<forall>i<NPROC. Some i \<noteq> me \<longrightarrow> lock_free (ProcLock i) h)"
  have body: "kbind myproc (\<lambda>me. kwhen (Some p \<noteq> me) (kseq (acquire (ProcLock p))
       (kseq (upd_proc p (\<lambda>x. if p_state x = SLEEPING \<and> p_chan x = Some ch then x\<lparr>p_state := RUNNABLE\<rparr> else x))
       (release (ProcLock p))))) s =
     Ret () (s\<lparr>hw := hw_touch (hw s), procs := (procs s)(p := ?f p (procs s p))\<rparr>)"
    if "p \<in> set [0..<NPROC]" "?P (hw s)" for p and s :: "'x kproc_scheme"
    using that by (cases "Some p = me") (simp_all add: kexec upd_proc_def fun_upd_idem)
  have "wakeup ch s = Ret () (s\<lparr>hw := hw_touch (hw s),
      procs := \<lambda>i. if i \<in> set [0..<NPROC] then ?f i (procs s i) else procs s i\<rparr>)"
    unfolding wakeup_def
    by (subst for_each_procs [where P = ?P and f = ?f, OF body]) (use assms in simp_all)
  moreover have "(\<lambda>i. if i \<in> set [0..<NPROC] then ?f i (procs s i) else procs s i) = woken ch me (procs s)"
    by (auto simp: fun_eq_iff woken_def)
  ultimately show ?thesis by simp
qed

lemma getnproc_loop_eq:
  assumes "hw_ok (hw s)" "\<forall>i\<in>set xs. lock_free (ProcLock i) (hw s)"
  shows "getnproc_loop xs n s = Ret (n + int (length (filter (\<lambda>i. p_state (procs s i) \<noteq> UNUSED) xs)))
    (s\<lparr>hw := if xs = [] then hw s else hw_touch (hw s)\<rparr>)"
  using assms
proof (induction xs arbitrary: n s)
  case (Cons p xs)
  let ?n = "if p_state (procs s p) \<noteq> UNUSED then n + 1 else n"
  have "getnproc_loop (p # xs) n s = getnproc_loop xs ?n (s\<lparr>hw := hw_touch (hw s)\<rparr>)"
    using Cons.prems by (simp add: kexec get_proc_def Let_def)
  also have "\<dots> = Ret (?n + int (length (filter (\<lambda>i. p_state (procs s i) \<noteq> UNUSED) xs))) (s\<lparr>hw := hw_touch (hw s)\<rparr>)"
    using Cons.IH [of "s\<lparr>hw := hw_touch (hw s)\<rparr>" ?n] Cons.prems by (cases "xs = []") simp_all
  finally show ?case by simp
qed simp

text \<open>\<open>kill\<close> acts on the first slot with the given pid.\<close>

definition kill_mark :: "proc \<Rightarrow> proc" where
  "kill_mark x = (let y = x\<lparr>p_killed := 1\<rparr> in if p_state y = SLEEPING then y\<lparr>p_state := RUNNABLE\<rparr> else y)"

lemma kill_search:
  assumes "hw_ok (hw s)" "\<forall>i\<in>set xs. lock_free (ProcLock i) (hw s)"
  shows "for_first xs (kill_slot pid) s =
     (case find (\<lambda>i. p_pid (procs s i) = pid) xs of
        None \<Rightarrow> Ret None (s\<lparr>hw := if xs = [] then hw s else hw_touch (hw s)\<rparr>)
      | Some i \<Rightarrow> Ret (Some 0) (s\<lparr>hw := hw_touch (hw s), procs := (procs s)(i := kill_mark (procs s i))\<rparr>))"
  using assms
proof (induction xs arbitrary: s)
  case (Cons p xs)
  show ?case
  proof (cases "p_pid (procs s p) = pid")
    case True
    then show ?thesis
      using Cons.prems by (simp add: kill_slot_def kexec get_proc_def upd_proc_def kill_mark_def Let_def)
  next
    case False
    then have "kill_slot pid p s = Ret None (s\<lparr>hw := hw_touch (hw s)\<rparr>)"
      using Cons.prems by (simp add: kill_slot_def kexec get_proc_def)
    then show ?thesis
      using Cons.IH [of "s\<lparr>hw := hw_touch (hw s)\<rparr>"] Cons.prems False by (auto split: option.split)
  qed
qed simp

text \<open>\<open>sleep\<close> up to the switch, and from the switch on.\<close>

lemma sched_switch:
  assumes "hw_ok h" "noff (cpus h (tp h)) = 0" "lock_free (ProcLock p) h" "c_proc (cpus h (tp h)) = Some p"
    "hw s = hw_enter (ProcLock p) h" "p_state (procs s p) \<noteq> RUNNING"
  shows "sched s = Wait Switched s (\<lambda>s'. Ret ()
    (s'\<lparr>hw := set_mycpu (\<lambda>c. c\<lparr>intena := intena (mycpu (hw s))\<rparr>) (hw s')\<rparr>))"
proof -
  have ok: "hw_ok (hw s)" using assms(1,5) by simp
  have t: "hw_touch (hw s) = hw s" using assms(1,5) by simp
  have me: "c_proc (cpus (hw s) (tp (hw s))) = Some p" using assms(4,5) by simp
  have "holding (ProcLock p) (hw s)" "noff (mycpu (hw s)) = 1" "\<not> intr_get (hw s)"
    using assms(2,5) by (simp_all add: mycpu_def cpuid_def intr_get_def)
  then show ?thesis
    using assms(6)
    by (simp add: sched_def with_myproc_def myproc_eq [OF ok] t me get_proc_def swtch_def hw_modify_def)
qed

lemma sleep_switch:
  assumes "hw_ok h" "noff (cpus h (tp h)) = 0" "lock_free (ProcLock p) h" "lock_free lk h"
    "c_proc (cpus h (tp h)) = Some p" "lk \<noteq> ProcLock p" "hw s = hw_enter lk h"
  shows "\<exists>k. sleep ch lk s = Wait Switched (s\<lparr>hw := hw_enter (ProcLock p) h,
      procs := (procs s)(p := (procs s p)\<lparr>p_chan := Some ch, p_state := SLEEPING\<rparr>)\<rparr>) k \<and>
    (\<forall>s'. k s' = tbind (Ret () (s'\<lparr>hw := set_mycpu (\<lambda>c. c\<lparr>intena := intena (mycpu (hw_enter (ProcLock p) h))\<rparr>) (hw s')\<rparr>))
      (\<lambda>_. kseq (upd_proc p (\<lambda>x. x\<lparr>p_chan := None\<rparr>)) (kseq (release (ProcLock p)) (acquire lk))))"
proof -
  have t: "hw_touch (hw s) = hw s" using assms(1,7) by simp
  have ok: "hw_ok (hw s)" "c_proc (cpus (hw s) (tp (hw s))) = Some p" "lock_free (ProcLock p) (hw s)"
    using assms by simp_all
  let ?s1 = "s\<lparr>hw := hw_enter (ProcLock p) h, procs := (procs s)(p := (procs s p)\<lparr>p_chan := Some ch, p_state := SLEEPING\<rparr>)\<rparr>"
  have sw: "sched ?s1 = Wait Switched ?s1 (\<lambda>s'. Ret ()
      (s'\<lparr>hw := set_mycpu (\<lambda>c. c\<lparr>intena := intena (mycpu (hw ?s1))\<rparr>) (hw s')\<rparr>))"
    using assms by (intro sched_switch [of h p]) simp_all
  have "acquire (ProcLock p) s = Ret () (s\<lparr>hw := hw_enter (ProcLock p) (hw_enter lk h)\<rparr>)"
    using acquire_free [OF ok(3)] assms(7) by simp
  moreover have "release lk (s\<lparr>hw := hw_enter (ProcLock p) (hw_enter lk h)\<rparr>) = Ret () (s\<lparr>hw := hw_enter (ProcLock p) h\<rparr>)"
    using assms by (subst release_held) simp_all
  ultimately have "sleep ch lk s = tbind (sched ?s1)
      (\<lambda>_. kseq (upd_proc p (\<lambda>x. x\<lparr>p_chan := None\<rparr>)) (kseq (release (ProcLock p)) (acquire lk)))"
    by (simp add: sleep_def with_myproc_def myproc_eq [OF ok(1)] ok(2) t upd_proc_def)
  then show ?thesis by (simp add: sw)
qed

subsection \<open>Properties\<close>

text \<open>A process table to evaluate on: slot 0 runs on hart 0, slot 1 sleeps on the clock, slot 2 sleeps on the log.\<close>

definition no_proc :: proc where
  "no_proc = \<lparr>p_state = UNUSED, p_chan = None, p_killed = 0, p_xstate = 0, p_pid = 0, p_parent = None, p_kstack = 0,
     p_sz = 0, p_pagetable = 0, p_trapframe = 0, p_context = \<lparr>ctx_ra = 0, ctx_sp = 0, ctx_saved = []\<rparr>,
     p_ofile = \<lambda>_. None, p_cwd = None, p_name = \<lambda>_. 0, p_trace_mask = 0\<rparr>"

definition three_procs :: kproc where
  "three_procs = \<lparr>hw = boot_hw\<lparr>cpus := (\<lambda>_. \<lparr>c_proc = None, noff = 0, intena = False\<rparr>)
       (0 := \<lparr>c_proc = Some 0, noff = 0, intena = False\<rparr>)\<rparr>,
     mem = \<lambda>_. 0, freelist = 0, kend = 0x80020000, kernel_pagetable = 0, satp = \<lambda>_. 0, etext = 0x80008000,
     trampoline = 0x80007000,
     procs = (\<lambda>_. no_proc)(0 := no_proc\<lparr>p_state := RUNNING, p_pid := 1\<rparr>,
       1 := no_proc\<lparr>p_state := SLEEPING, p_chan := Some TicksChan, p_pid := 2, p_parent := Some 0\<rparr>,
       2 := no_proc\<lparr>p_state := SLEEPING, p_chan := Some LogChan, p_pid := 3, p_parent := Some 0\<rparr>),
     nextpid = 4, initproc = Some 0, forkret_addr = 0x80001000\<rparr>"

lemma three_procs_free [simp]: "procs_free (hw three_procs)" "c_proc (cpus (hw three_procs) (tp (hw three_procs))) = Some 0"
  by (simp_all add: three_procs_def procs_free_def hw_ok_def lock_free_def boot_hw_def)

lemma three_procs_procs:
  "procs three_procs = (\<lambda>_. no_proc)(0 := no_proc\<lparr>p_state := RUNNING, p_pid := 1\<rparr>,
       1 := no_proc\<lparr>p_state := SLEEPING, p_chan := Some TicksChan, p_pid := 2, p_parent := Some 0\<rparr>,
       2 := no_proc\<lparr>p_state := SLEEPING, p_chan := Some LogChan, p_pid := 3, p_parent := Some 0\<rparr>)"
  by (simp add: three_procs_def)

text \<open>C20: \<open>wakeup(chan)\<close> makes runnable exactly the processes, other than the caller, that sleep on \<open>chan\<close>, and
  changes nothing else in the table or the rest of the state.\<close>

theorem wakeup_exact:
  assumes "hw_ok (hw s)" and "c_proc (cpus (hw s) (tp (hw s))) = me"
    and "\<forall>i<NPROC. Some i \<noteq> me \<longrightarrow> lock_free (ProcLock i) (hw s)"
  shows "wakeup ch s = Ret () (s\<lparr>hw := hw_touch (hw s), procs := \<lambda>i.
    if i < NPROC \<and> Some i \<noteq> me \<and> p_state (procs s i) = SLEEPING \<and> p_chan (procs s i) = Some ch
    then (procs s i)\<lparr>p_state := RUNNABLE\<rparr> else procs s i\<rparr>)"
proof -
  have "woken ch me (procs s) = (\<lambda>i. if i < NPROC \<and> Some i \<noteq> me \<and> p_state (procs s i) = SLEEPING \<and>
      p_chan (procs s i) = Some ch then (procs s i)\<lparr>p_state := RUNNABLE\<rparr> else procs s i)"
    by (simp add: fun_eq_iff woken_def)
  then show ?thesis using wakeup_eq [OF assms, of ch] by simp
qed

theorem wakeup_exact_witness:
  "\<exists>s'. wakeup LogChan three_procs = Ret () s' \<and> p_state (procs s' 2) = RUNNABLE \<and> p_state (procs s' 1) = SLEEPING"
  using wakeup_exact [of three_procs "Some 0" LogChan] three_procs_free
  by (simp add: procs_free_def) (simp add: three_procs_procs no_proc_def NPROC_def)

text \<open>C21: \<open>kill(pid)\<close> marks the first process with that pid as killed, makes it runnable if it was asleep, and returns
  0; with no such process it returns -1. Nothing else changes.\<close>

theorem kill_correct:
  assumes "procs_free (hw s)"
  shows "kill pid s = (case find (\<lambda>i. p_pid (procs s i) = pid) [0..<NPROC] of
      None \<Rightarrow> Ret (- 1) (s\<lparr>hw := hw_touch (hw s)\<rparr>)
    | Some i \<Rightarrow> Ret 0 (s\<lparr>hw := hw_touch (hw s), procs := (procs s)(i := (procs s i)
        \<lparr>p_killed := 1, p_state := if p_state (procs s i) = SLEEPING then RUNNABLE else p_state (procs s i)\<rparr>)\<rparr>))"
proof -
  have "kill_mark x = x\<lparr>p_killed := 1, p_state := if p_state x = SLEEPING then RUNNABLE else p_state x\<rparr>" for x
    by (simp add: kill_mark_def Let_def)
  then show ?thesis
    using assms kill_search [of s "[0..<NPROC]" pid] by (simp add: kill_def procs_free_def split: option.split)
qed

theorem kill_correct_witness:
  "\<exists>s'. kill 3 three_procs = Ret 0 s' \<and> p_killed (procs s' 2) = 1 \<and> p_state (procs s' 2) = RUNNABLE \<and>
     p_killed (procs s' 1) = 0"
proof -
  have "find (\<lambda>i. p_pid (procs three_procs i) = 3) [0..<NPROC] = Some 2"
    by (simp add: NPROC_def three_procs_procs no_proc_def upt_rec)
  then show ?thesis
    using kill_correct [of three_procs 3] by (simp add: three_procs_procs no_proc_def)
qed

text \<open>\<open>getnproc\<close> returns the number of process slots that are not \<open>UNUSED\<close>.\<close>

theorem getnproc_counts:
  assumes "procs_free (hw s)"
  shows "getnproc s = Ret (int (card {i. i < NPROC \<and> p_state (procs s i) \<noteq> UNUSED})) (s\<lparr>hw := hw_touch (hw s)\<rparr>)"
proof -
  have "{i. i < NPROC \<and> p_state (procs s i) \<noteq> UNUSED} = set (filter (\<lambda>i. p_state (procs s i) \<noteq> UNUSED) [0..<NPROC])"
    by auto
  then have "card {i. i < NPROC \<and> p_state (procs s i) \<noteq> UNUSED} = length (filter (\<lambda>i. p_state (procs s i) \<noteq> UNUSED) [0..<NPROC])"
    by (simp only: distinct_card distinct_filter distinct_upt)
  then show ?thesis
    using assms getnproc_loop_eq [of s "[0..<NPROC]" 0] by (simp add: getnproc_def procs_free_def)
qed

theorem getnproc_counts_witness:
  "\<exists>s'. getnproc three_procs = Ret 3 s'"
proof -
  have "{i. i < NPROC \<and> p_state (procs three_procs i) \<noteq> UNUSED} = {0, 1, 2}"
    by (auto simp: NPROC_def three_procs_procs no_proc_def split: if_splits)
  then show ?thesis using getnproc_counts [of three_procs] by simp
qed



end
