(* ===== verification/Ringbuf.thy ===== *)
theory Ringbuf
  imports Prelude
begin

text \<open>
  Ring buffers as the drivers use them: a buffer of \<open>N\<close> places, a read and a write index that only grow and wrap at the
  width of their integer type, and the place of index \<open>i\<close> at \<open>i % N\<close>. \<open>ring N buf r w\<close> is the queue from \<open>r\<close> up to \<open>w\<close>.
  The UART's transmit buffer, the console's input buffer and the pipes share these lemmas.
\<close>

definition ring :: "nat \<Rightarrow> (nat \<Rightarrow> 'b) \<Rightarrow> 'a::len word \<Rightarrow> 'a word \<Rightarrow> 'b list" where
  "ring N buf r w = map (\<lambda>i. buf (unat (r + word_of_nat i) mod N)) [0..<unat (w - r)]"

lemma length_ring [simp]: "length (ring N buf r w) = unat (w - r)"
  by (simp add: ring_def)

lemma ring_same [simp]: "ring N buf r r = []"
  by (simp add: ring_def)

lemma ring_Nil_iff: "ring N buf r w = [] \<longleftrightarrow> w = r"
  by (simp add: ring_def unat_eq_0)

lemma word_diff_Suc:
  fixes r w :: "'a::len word"
  assumes "w \<noteq> r"
  shows "unat (w - r) = Suc (unat (w - (r + 1)))"
proof -
  have "w - r \<noteq> 0" using assms by simp
  then have "unat (w - r) = Suc (unat (w - r - 1))" by (simp add: unat_minus_one unat_gt_0)
  then show ?thesis by (simp only: diff_diff_add)
qed

lemma ring_pop:
  assumes "w \<noteq> r"
  shows "ring N buf r w = buf (unat r mod N) # ring N buf (r + 1) w"
proof -
  have "r + word_of_nat (Suc i) = r + 1 + word_of_nat i" for i by simp
  then show ?thesis
    unfolding ring_def word_diff_Suc [OF assms]
    by (simp only: upt_conv_Cons zero_less_Suc list.map map_Suc_upt [symmetric] map_map comp_def) simp
qed

lemma word_Suc_diff:
  fixes r w :: "'a::len word"
  assumes "unat (w - r) + 1 < 2 ^ LENGTH('a)"
  shows "unat (w + 1 - r) = Suc (unat (w - r))"
proof -
  have "w + 1 - r = (w - r) + 1" by (simp add: algebra_simps)
  then show ?thesis using assms by (simp only: unat_word_ariths(1)) simp
qed

lemma ring_snoc:
  fixes r w :: "'a::len word"
  assumes "unat (w - r) + 1 < 2 ^ LENGTH('a)"
  shows "ring N buf r (w + 1) = ring N buf r w @ [buf (unat w mod N)]"
  using word_Suc_diff [OF assms] by (simp add: ring_def)

lemma ring_place:
  fixes r :: "'a::len word"
  assumes "N dvd 2 ^ LENGTH('a)"
  shows "unat (r + word_of_nat i) mod N = (unat r + i) mod N"
proof -
  have "unat (r + word_of_nat i) = (unat r + i) mod 2 ^ LENGTH('a)"
    by (simp add: unat_word_ariths unat_of_nat mod_simps)
  then show ?thesis using assms by (simp add: mod_mod_cancel)
qed

lemma ring_place_other:
  fixes r w :: "'a::len word"
  assumes "N dvd 2 ^ LENGTH('a)" "unat (w - r) < N" "i < unat (w - r)"
  shows "unat (r + word_of_nat i) mod N \<noteq> unat w mod N"
proof -
  have "unat w mod N = (unat r + unat (w - r)) mod N"
    using ring_place [OF assms(1), of r "unat (w - r)"] by simp
  moreover have "(unat r + unat (w - r)) mod N \<noteq> (unat r + i) mod N"
    using assms(2,3) by (simp add: mod_eq_dvd_iff_nat nat_dvd_not_less)
  ultimately show ?thesis by (simp add: ring_place [OF assms(1)])
qed

text \<open>Storing in the next place does not touch the queue while it is not full.\<close>

lemma ring_update:
  fixes r w :: "'a::len word"
  assumes "N dvd 2 ^ LENGTH('a)" "unat (w - r) < N"
  shows "ring N (buf(unat w mod N := c)) r w = ring N buf r w"
  using ring_place_other [OF assms] by (simp add: ring_def)

lemma ring_push:
  fixes r w :: "'a::len word"
  assumes "N dvd 2 ^ LENGTH('a)" "unat (w - r) < N" "N < 2 ^ LENGTH('a)"
  shows "ring N (buf(unat w mod N := c)) r (w + 1) = ring N buf r w @ [c]"
  using assms by (simp add: ring_snoc ring_update)

lemma ring_split:
  fixes r m w :: "'a::len word"
  assumes "unat (m - r) \<le> unat (w - r)"
  shows "ring N buf r w = ring N buf r m @ ring N buf m w"
proof -
  have "w - m = (w - r) - (m - r)" by simp
  then have n: "unat (w - m) = unat (w - r) - unat (m - r)"
    using assms by (simp only: unat_sub word_le_nat_alt)
  have "r + word_of_nat (unat (m - r) + i) = m + word_of_nat i" for i by simp
  moreover have "[0..<unat (w - r)] = [0..<unat (m - r)] @ map (\<lambda>i. unat (m - r) + i) [0..<unat (w - m)]"
    using assms upt_add_eq_append [of 0 "unat (m - r)" "unat (w - r) - unat (m - r)"] by (simp add: n map_add_upt add.commute)
  ultimately show ?thesis unfolding ring_def by (simp only: map_append map_map comp_def)
qed

end
