(* ===== verification/Uart.thy ===== *)
theory Uart
  imports Proc Ringbuf
begin

text \<open>
  The serial port driver (\<^verbatim>\<open>kernel/uart.c\<close>): the transmit ring, the synchronous path used by \<open>printf\<close>, and
  reading of input.

  The 16550 chip is a record: the registers the driver writes, the bytes that wait in the receiver, the bytes given to
  the transmitter so far, and how many more it can take before it is busy. Bit 0 of the line status is set while input
  waits, bit 5 while the transmitter can take a byte; a byte stored in \<^verbatim>\<open>THR\<close> uses up one place. Places come
  back, and input arrives, while the code waits or runs elsewhere. The constant \<open>panicked\<close> of \<^verbatim>\<open>printf.c\<close> is kept
  here, since the driver reads it.
\<close>

subsection \<open>The chip\<close>

record uart16550 =
  u_ier :: u8
  u_fcr :: u8
  u_lcr :: u8
  u_dll :: u8
  u_dlm :: u8
  u_rx :: "u8 list"
  u_out :: "u8 list"
  u_room :: nat

definition RHR :: nat where "RHR = 0"
definition THR :: nat where "THR = 0"
definition IER :: nat where "IER = 1"
definition IER_RX_ENABLE :: u8 where "IER_RX_ENABLE = push_bit 0 1"
definition IER_TX_ENABLE :: u8 where "IER_TX_ENABLE = push_bit 1 1"
definition FCR :: nat where "FCR = 2"
definition FCR_FIFO_ENABLE :: u8 where "FCR_FIFO_ENABLE = push_bit 0 1"
definition FCR_FIFO_CLEAR :: u8 where "FCR_FIFO_CLEAR = push_bit 1 3"
definition LCR :: nat where "LCR = 3"
definition LCR_EIGHT_BITS :: u8 where "LCR_EIGHT_BITS = push_bit 0 3"
definition LCR_BAUD_LATCH :: u8 where "LCR_BAUD_LATCH = push_bit 7 1"
definition LSR :: nat where "LSR = 5"
definition LSR_RX_READY :: u8 where "LSR_RX_READY = push_bit 0 1"
definition LSR_TX_IDLE :: u8 where "LSR_TX_IDLE = push_bit 5 1"

lemmas uart_reg_defs = RHR_def THR_def IER_def FCR_def LCR_def LSR_def

text \<open>Reading the line status has no effect; reading \<^verbatim>\<open>RHR\<close> takes the oldest byte. While the baud latch is open,
  registers 0 and 1 are the divisor.\<close>

definition chip_lsr :: "uart16550 \<Rightarrow> u8" where
  "chip_lsr u = (if u_rx u \<noteq> [] then LSR_RX_READY else 0) OR (if 0 < u_room u then LSR_TX_IDLE else 0)"

definition chip_read_rhr :: "uart16550 \<Rightarrow> u8 \<times> uart16550" where
  "chip_read_rhr u = (case u_rx u of [] \<Rightarrow> (0, u) | b # bs \<Rightarrow> (b, u\<lparr>u_rx := bs\<rparr>))"

definition chip_write :: "nat \<Rightarrow> u8 \<Rightarrow> uart16550 \<Rightarrow> uart16550" where
  "chip_write r v u =
     (if r = LCR then u\<lparr>u_lcr := v\<rparr>
      else if r = FCR then
        (if v AND FCR_FIFO_CLEAR \<noteq> 0 then u\<lparr>u_fcr := v, u_rx := []\<rparr> else u\<lparr>u_fcr := v\<rparr>)
      else if u_lcr u AND LCR_BAUD_LATCH \<noteq> 0 then
        (if r = 0 then u\<lparr>u_dll := v\<rparr> else if r = 1 then u\<lparr>u_dlm := v\<rparr> else u)
      else if r = THR then u\<lparr>u_out := u_out u @ [v], u_room := u_room u - 1\<rparr>
      else if r = IER then u\<lparr>u_ier := v\<rparr>
      else u)"

definition UART_TX_BUF_SIZE :: u64 where "UART_TX_BUF_SIZE = 32"

record kuart = kproc +
  uart :: uart16550
  uart_tx_buf :: "nat \<Rightarrow> u8"
  uart_tx_w :: u64
  uart_tx_r :: u64
  panicked :: int

type_synonym ('x, 'a) uartfun = "('x kuart_scheme, 'a) kfun"

subsection \<open>Operations\<close>

definition WriteReg :: "nat \<Rightarrow> u8 \<Rightarrow> ('x, unit) uartfun" where
  "WriteReg r v = modify (\<lambda>s. s\<lparr>uart := chip_write r v (uart s)\<rparr>)"

definition ReadLSR :: "('x, u8) uartfun" where
  "ReadLSR = gets (\<lambda>s. chip_lsr (uart s))"

definition ReadRHR :: "('x, u8) uartfun" where
  "ReadRHR s = (case chip_read_rhr (uart s) of (b, u) \<Rightarrow> Ret b (s\<lparr>uart := u\<rparr>))"

definition uartinit :: "('x, unit) uartfun" where
  "uartinit =
     kseq (WriteReg IER 0x00)
     (kseq (WriteReg LCR LCR_BAUD_LATCH)
     (kseq (WriteReg 0 0x03)
     (kseq (WriteReg 1 0x00)
     (kseq (WriteReg LCR LCR_EIGHT_BITS)
     (kseq (WriteReg FCR (FCR_FIFO_ENABLE OR FCR_FIFO_CLEAR))
     (kseq (WriteReg IER (IER_TX_ENABLE OR IER_RX_ENABLE))
     (initlock UartTxLock ''uart'')))))))"

definition uartstart_round :: "('x, unit option) uartfun" where
  "uartstart_round =
     kbind (gets uart_tx_w) (\<lambda>w. kbind (gets uart_tx_r) (\<lambda>r.
     if w = r then kret (Some ())
     else kbind ReadLSR (\<lambda>lsr.
       if lsr AND LSR_TX_IDLE = 0 then kret (Some ())
       else kbind (gets (\<lambda>s. uart_tx_buf s (unat (r mod UART_TX_BUF_SIZE)))) (\<lambda>c.
         kseq (modify (\<lambda>s. s\<lparr>uart_tx_r := uart_tx_r s + 1\<rparr>))
         (kseq (wakeup UartTxChan)
         (kseq (WriteReg THR c)
         (kret None)))))))"

definition uartstart :: "('x, unit) uartfun" where
  "uartstart = kloop uartstart_round"

text \<open>The loop of \<open>uartputc\<close> that sleeps while the ring is full.\<close>

definition uartputc_wait :: "('x, unit option) uartfun" where
  "uartputc_wait =
     kbind (gets uart_tx_w) (\<lambda>w. kbind (gets uart_tx_r) (\<lambda>r.
     if w = r + UART_TX_BUF_SIZE then kseq (sleep UartTxChan UartTxLock) (kret None)
     else kret (Some ())))"

definition uartputc :: "int \<Rightarrow> ('x, unit) uartfun" where
  "uartputc c =
     kseq (acquire UartTxLock)
     (kbind (gets panicked) (\<lambda>pk.
      if pk \<noteq> 0 then of_loop None
      else kseq (kloop uartputc_wait)
        (kseq (modify (\<lambda>s. s\<lparr>uart_tx_buf := (uart_tx_buf s)(unat (uart_tx_w s mod UART_TX_BUF_SIZE) := word_of_int c)\<rparr>))
        (kseq (modify (\<lambda>s. s\<lparr>uart_tx_w := uart_tx_w s + 1\<rparr>))
        (kseq uartstart
        (release UartTxLock))))))"

text \<open>Polling the line status.\<close>

primcorec uart_poll :: "('x, unit) uartfun" where
  "uart_poll s =
     (if chip_lsr (uart s) AND LSR_TX_IDLE = 0 then Wait Polling s (\<lambda>s'. uart_poll s') else Ret () s)"

definition uartputc_sync :: "int \<Rightarrow> ('x, unit) uartfun" where
  "uartputc_sync c =
     kseq push_off
     (kbind (gets panicked) (\<lambda>pk.
      if pk \<noteq> 0 then of_loop None
      else kseq uart_poll
        (kseq (WriteReg THR (word_of_int c))
        pop_off)))"

definition uartgetc :: "('x, int) uartfun" where
  "uartgetc =
     kbind ReadLSR (\<lambda>lsr.
     if lsr AND 0x01 \<noteq> 0 then kbind ReadRHR (\<lambda>b. kret (uint b))
     else kret (- 1))"

text \<open>\<open>uartintr\<close> takes the console's input handler as an argument, since \<^verbatim>\<open>console.c\<close> sits above this file.\<close>

definition uartintr_round :: "(int \<Rightarrow> ('x, unit) uartfun) \<Rightarrow> ('x, unit option) uartfun" where
  "uartintr_round handler =
     kbind uartgetc (\<lambda>c.
     if c = - 1 then kret (Some ())
     else kseq (handler c) (kret None))"

definition uartintr_with :: "(int \<Rightarrow> ('x, unit) uartfun) \<Rightarrow> ('x, unit) uartfun" where
  "uartintr_with handler =
     kseq (kloop (uartintr_round handler))
     (kseq (acquire UartTxLock)
     (kseq uartstart
     (release UartTxLock)))"

subsection \<open>Evaluation\<close>

definition chip_ready :: "uart16550 \<Rightarrow> bool" where
  "chip_ready u \<longleftrightarrow> u_lcr u AND LCR_BAUD_LATCH = 0"

definition chip_send :: "u8 list \<Rightarrow> uart16550 \<Rightarrow> uart16550" where
  "chip_send bs u = u\<lparr>u_out := u_out u @ bs, u_room := u_room u - length bs\<rparr>"

lemma chip_lsr_bits [simp]:
  "chip_lsr u AND LSR_TX_IDLE = 0 \<longleftrightarrow> u_room u = 0"
  "chip_lsr u AND 1 = 0 \<longleftrightarrow> u_rx u = []"
  by (simp_all add: chip_lsr_def LSR_TX_IDLE_def LSR_RX_READY_def)

lemma chip_send_simps [simp]:
  "chip_ready (chip_send bs u) = chip_ready u" "u_room (chip_send bs u) = u_room u - length bs"
  "u_out (chip_send bs u) = u_out u @ bs" "u_rx (chip_send bs u) = u_rx u"
  "chip_send cs (chip_send bs u) = chip_send (bs @ cs) u" "chip_send [] u = u"
  by (simp_all add: chip_send_def chip_ready_def)

lemma chip_write_THR [simp]: "chip_ready u \<Longrightarrow> chip_write THR c u = chip_send [c] u"
  by (simp add: chip_write_def chip_ready_def chip_send_def uart_reg_defs)

lemma uart_poll_ready: "0 < u_room (uart s) \<Longrightarrow> uart_poll s = Ret () s"
  by (subst uart_poll.code) simp

lemma uartputc_sync_eq [kexec]:
  assumes "hw_ok (hw s)" "panicked s = 0" "0 < u_room (uart s)" "chip_ready (uart s)"
  shows "uartputc_sync c s = Ret () (s\<lparr>uart := chip_send [word_of_int c] (uart s), hw := hw_touch (hw s)\<rparr>)"
proof -
  have "1 \<le> noff (cpus (hw_push (hw s)) (tp (hw s)))" using assms(1) by simp
  then show ?thesis
    using assms by (simp add: uartputc_sync_def push_off_eq pop_off_eq uart_poll_ready WriteReg_def)
qed

lemma uartinit_ready:
  "\<exists>s'. uartinit s = Ret () s' \<and> chip_ready (uart s') \<and> lock_free UartTxLock (hw s')
     \<and> u_ier (uart s') = IER_TX_ENABLE OR IER_RX_ENABLE"
  by (simp add: uartinit_def WriteReg_def initlock_eq chip_write_def uart_reg_defs chip_ready_def
      LCR_EIGHT_BITS_def LCR_BAUD_LATCH_def FCR_FIFO_ENABLE_def FCR_FIFO_CLEAR_def)

subsection \<open>The transmit ring as a queue\<close>

definition tx_queue :: "'x kuart_scheme \<Rightarrow> u8 list" where
  "tx_queue s = ring 32 (uart_tx_buf s) (uart_tx_r s) (uart_tx_w s)"

definition tx_ok :: "'x kuart_scheme \<Rightarrow> bool" where
  "tx_ok s \<longleftrightarrow> unat (uart_tx_w s - uart_tx_r s) \<le> 32"

lemma tx_slot [simp]: "unat (i mod UART_TX_BUF_SIZE) = unat i mod 32"
  by (simp add: UART_TX_BUF_SIZE_def unat_mod)

lemma tx_queue_pop:
  "uart_tx_w s \<noteq> uart_tx_r s \<Longrightarrow>
   tx_queue s = uart_tx_buf s (unat (uart_tx_r s) mod 32) # tx_queue (s\<lparr>uart_tx_r := uart_tx_r s + 1\<rparr>)"
  by (simp add: tx_queue_def ring_pop)

lemma tx_queue_push:
  "unat (uart_tx_w s - uart_tx_r s) < 32 \<Longrightarrow>
   tx_queue (s\<lparr>uart_tx_buf := (uart_tx_buf s)(unat (uart_tx_w s) mod 32 := c), uart_tx_w := uart_tx_w s + 1\<rparr>) = tx_queue s @ [c]"
  by (simp add: tx_queue_def ring_push)

text \<open>What the ring and the chip together still hold and have sent, in order.\<close>

definition tx_stream :: "'x kuart_scheme \<Rightarrow> u8 list" where
  "tx_stream s = u_out (uart s) @ tx_queue s"

definition others_free :: "hwstate \<Rightarrow> bool" where
  "others_free h \<longleftrightarrow> hw_ok h \<and> (\<forall>i<NPROC. Some i \<noteq> c_proc (cpus h (tp h)) \<longrightarrow> lock_free (ProcLock i) h)"

lemma others_free_simps [simp]:
  "others_free (hw_touch h) = others_free h"
  "others_free h \<Longrightarrow> (\<forall>i. lk \<noteq> ProcLock i) \<Longrightarrow> others_free (hw_enter lk h)"
  by (auto simp: others_free_def)

lemma wakeup_others [kexec]:
  "others_free (hw s) \<Longrightarrow> wakeup ch s = Ret () (s\<lparr>hw := hw_touch (hw s), procs := woken ch (c_proc (cpus (hw s) (tp (hw s)))) (procs s)\<rparr>)"
  by (rule wakeup_eq) (auto simp: others_free_def)

lemma tx_queue_cong [simp]:
  "tx_queue (s\<lparr>hw := h\<rparr>) = tx_queue s" "tx_queue (s\<lparr>procs := ps\<rparr>) = tx_queue s" "tx_queue (s\<lparr>uart := u\<rparr>) = tx_queue s"
  by (simp_all add: tx_queue_def)

lemma uartstart_step:
  "uartstart s = tbind (uartstart_round s) (\<lambda>r. case r of None \<Rightarrow> uartstart | Some a \<Rightarrow> kret a)"
  unfolding uartstart_def by (rule kloop_step)

lemma uartstart_drains:
  assumes "others_free (hw s)" "chip_ready (uart s)" "tx_ok s"
  shows "\<exists>s'. uartstart s = Ret () s' \<and> tx_stream s' = tx_stream s \<and> (tx_queue s' = [] \<or> u_room (uart s') = 0) \<and>
    hw s' \<in> {hw s, hw_touch (hw s)} \<and> tx_ok s' \<and> chip_ready (uart s')"
  using assms
proof (induction "u_room (uart s)" arbitrary: s rule: less_induct)
  case less
  let ?c = "uart_tx_buf s (unat (uart_tx_r s) mod 32)"
  let ?s = "s\<lparr>uart_tx_r := uart_tx_r s + 1, hw := hw_touch (hw s),
    procs := woken UartTxChan (c_proc (cpus (hw s) (tp (hw s)))) (procs s), uart := chip_send [?c] (uart s)\<rparr>"
  show ?case
  proof (cases "uart_tx_w s = uart_tx_r s \<or> u_room (uart s) = 0")
    case True
    then show ?thesis
      using less.prems
      by (subst uartstart_step) (auto simp: uartstart_round_def ReadLSR_def tx_queue_def)
  next
    case False
    then have step: "uartstart s = uartstart ?s"
      using less.prems by (subst uartstart_step) (simp add: uartstart_round_def ReadLSR_def kexec WriteReg_def)
    have q: "tx_queue s = ?c # tx_queue ?s" using tx_queue_pop [of s] False by simp
    then have "length (tx_queue s) = Suc (length (tx_queue ?s))" by simp
    then have "tx_ok ?s" using less.prems(3) by (simp add: tx_queue_def tx_ok_def)
    then obtain s' where "uartstart ?s = Ret () s'" "tx_stream s' = tx_stream ?s"
        "tx_queue s' = [] \<or> u_room (uart s') = 0" "hw s' \<in> {hw ?s, hw_touch (hw ?s)}" "tx_ok s'" "chip_ready (uart s')"
      using less.hyps [of ?s] less.prems False by auto
    then show ?thesis using step q by (auto simp: tx_stream_def)
  qed
qed

lemma tx_ok_push:
  assumes "tx_ok s" "uart_tx_w s \<noteq> uart_tx_r s + UART_TX_BUF_SIZE"
  shows "unat (uart_tx_w s - uart_tx_r s) < 32"
proof -
  have "unat (uart_tx_w s - uart_tx_r s) \<noteq> 32"
  proof
    assume "unat (uart_tx_w s - uart_tx_r s) = 32"
    then have "uart_tx_w s - uart_tx_r s = 32" by (simp add: word_unat_eq_iff)
    then show False using assms(2) by (simp add: UART_TX_BUF_SIZE_def diff_eq_eq add.commute)
  qed
  then show ?thesis using assms(1) by (simp add: tx_ok_def)
qed

subsection \<open>Properties\<close>

definition idle_uart :: kuart where
  "idle_uart = kproc.extend three_procs (kuart.fields
     \<lparr>u_ier = 3, u_fcr = 7, u_lcr = 3, u_dll = 3, u_dlm = 0, u_rx = [], u_out = [], u_room = 1\<rparr> (\<lambda>_. 0) 40 40 0)"

lemma idle_uart_fields [simp]:
  "hw idle_uart = hw three_procs" "uart_tx_w idle_uart = 40" "uart_tx_r idle_uart = 40" "panicked idle_uart = 0"
  "u_out (uart idle_uart) = []" "chip_ready (uart idle_uart)" "u_room (uart idle_uart) = 1" "others_free (hw three_procs)"
  by (simp_all add: idle_uart_def kproc.extend_def kuart.fields_def chip_ready_def LCR_BAUD_LATCH_def)
    (use three_procs_free in \<open>simp add: procs_free_def others_free_def\<close>)



end
