(* ===== verification/Printf.thy ===== *)
theory Printf
  imports Uart
begin

text \<open>
  Formatted output of the kernel (\<^verbatim>\<open>kernel/printf.c\<close>, \<open>consputc\<close> of \<^verbatim>\<open>kernel/console.c\<close> and \<open>procdump\<close> of
  \<^verbatim>\<open>kernel/proc.c\<close>). The variable arguments of a call are a list of values; a call whose arguments do not match its
  format is undefined in C, and here a missing argument reads as 0.

  Shown: the bytes that \<open>printf\<close> sends are those of a pure expansion of the format; \<open>printint\<close> prints the decimal
  representation of every 32-bit value and stays inside its 16-byte buffer.
\<close>

subsection \<open>Definitions\<close>

definition BACKSPACE :: int where "BACKSPACE = 0x100"

definition consputc :: "int \<Rightarrow> ('x, unit) uartfun" where
  "consputc c =
     (if c = BACKSPACE then kseq (uartputc_sync 8) (kseq (uartputc_sync 32) (uartputc_sync 8))
      else uartputc_sync c)"

record kprint = kuart +
  pr_locking :: int

type_synonym ('x, 'a) printfun = "('x kprint_scheme, 'a) kfun"

datatype vararg = VInt int | VPtr u64 | VStr "u8 list option"

definition digits :: "u8 list" where
  "digits = map of_char ''0123456789abcdef''"

text \<open>The digits of \<open>x\<close>, least significant first, as the loop stores them in \<open>buf\<close>.\<close>

function printint_digits :: "u32 \<Rightarrow> u32 \<Rightarrow> u8 list" where
  "printint_digits x base =
     (if x div base \<noteq> 0 \<and> 1 < base then digits ! unat (x mod base) # printint_digits (x div base) base
      else [digits ! unat (x mod base)])"
  by pat_completeness auto
termination
proof (relation "measure (\<lambda>(x, base). unat x)")
  fix x base :: u32
  assume "x div base \<noteq> 0 \<and> 1 < base"
  then have "0 < unat x" "1 < unat base" by (auto simp: word_less_nat_alt unat_gt_0)
  then have "unat x div unat base < unat x" by simp
  then show "((x div base, base), x, base) \<in> measure (\<lambda>(x, base). unat x)" by (simp add: unat_div)
qed simp

declare printint_digits.simps [simp del]

definition printint_buf :: "int \<Rightarrow> u32 \<Rightarrow> bool \<Rightarrow> u8 list" where
  "printint_buf xx base sign =
     (let neg = sign \<and> xx < 0;
          x = (if neg then word_of_int (- xx) else word_of_int xx);
          buf = printint_digits x base
      in if neg then buf @ [of_char CHR ''-''] else buf)"

definition printint :: "int \<Rightarrow> u32 \<Rightarrow> bool \<Rightarrow> ('x, unit) uartfun" where
  "printint xx base sign = for_each (rev (printint_buf xx base sign)) (\<lambda>b. consputc (uint b))"

primrec printptr_loop :: "nat \<Rightarrow> u64 \<Rightarrow> ('x, unit) uartfun" where
  "printptr_loop 0 x = kskip"
| "printptr_loop (Suc n) x =
     kseq (consputc (uint (digits ! unat (drop_bit 60 x)))) (printptr_loop n (push_bit 4 x))"

definition printptr :: "u64 \<Rightarrow> ('x, unit) uartfun" where
  "printptr x =
     kseq (consputc (of_char CHR ''0''))
     (kseq (consputc (of_char CHR ''x''))
     (printptr_loop 16 x))"

definition va_arg :: "vararg list \<Rightarrow> vararg" where
  "va_arg ap = (case ap of [] \<Rightarrow> VInt 0 | a # _ \<Rightarrow> a)"

definition va_int :: "vararg \<Rightarrow> int" where
  "va_int a = (case a of VInt i \<Rightarrow> i | VPtr w \<Rightarrow> sint (ucast w :: u32) | VStr _ \<Rightarrow> 0)"

definition va_ptr :: "vararg \<Rightarrow> u64" where
  "va_ptr a = (case a of VInt i \<Rightarrow> word_of_int i | VPtr w \<Rightarrow> w | VStr _ \<Rightarrow> 0)"

definition va_str :: "vararg \<Rightarrow> u8 list option" where
  "va_str a = (case a of VStr s \<Rightarrow> s | _ \<Rightarrow> None)"

definition print_str :: "u8 list \<Rightarrow> ('x, unit) uartfun" where
  "print_str bs = for_each (takeWhile (\<lambda>b. b \<noteq> 0) bs) (\<lambda>b. consputc (uint b))"

text \<open>The four cases of the switch that take an argument, and the loop over the format.\<close>

definition printf_conv :: "char \<Rightarrow> vararg \<Rightarrow> ('x, unit) uartfun" where
  "printf_conv d a =
     (if d = CHR ''d'' then printint (va_int a) 10 True
      else if d = CHR ''x'' then printint (va_int a) 16 True
      else if d = CHR ''p'' then printptr (va_ptr a)
      else print_str (case va_str a of None \<Rightarrow> map of_char ''(null)'' | Some bs \<Rightarrow> bs))"

fun printf_loop :: "string \<Rightarrow> vararg list \<Rightarrow> ('x, unit) uartfun" where
  "printf_loop [] ap = kskip"
| "printf_loop [c] ap = (if c = CHR ''%'' then kskip else consputc (of_char c))"
| "printf_loop (c # d # fmt) ap =
     (if c \<noteq> CHR ''%'' then kseq (consputc (of_char c)) (printf_loop (d # fmt) ap)
      else if d \<in> set ''dxps'' then kseq (printf_conv d (va_arg ap)) (printf_loop fmt (tl ap))
      else if d = CHR ''%'' then kseq (consputc (of_char CHR ''%'')) (printf_loop fmt ap)
      else kseq (consputc (of_char CHR ''%'')) (kseq (consputc (of_char d)) (printf_loop fmt ap)))"

definition printf :: "string \<Rightarrow> vararg list \<Rightarrow> ('x, unit) printfun" where
  "printf fmt ap =
     kbind (gets pr_locking) (\<lambda>locking.
     kseq (kwhen (locking \<noteq> 0) (acquire PrLock))
     (kseq (printf_loop fmt ap)
     (kwhen (locking \<noteq> 0) (release PrLock))))"

text \<open>The C function \<open>panic\<close>; the outcome \<open>Panic\<close> of the other components abbreviates a call of it.\<close>

definition panic_print :: "string \<Rightarrow> ('x, unit) printfun" where
  "panic_print msg =
     kseq (modify (\<lambda>s. s\<lparr>pr_locking := 0\<rparr>))
     (kseq (printf ''panic: '' [])
     (kseq (printf msg [])
     (kseq (printf ''\<newline>'' [])
     (kseq (modify (\<lambda>s. s\<lparr>panicked := 1\<rparr>))
     (panic msg)))))"

definition printfinit :: "('x, unit) printfun" where
  "printfinit = kseq (initlock PrLock ''pr'') (modify (\<lambda>s. s\<lparr>pr_locking := 1\<rparr>))"

definition state_name :: "procstate \<Rightarrow> string" where
  "state_name st = (case st of UNUSED \<Rightarrow> ''unused'' | USED \<Rightarrow> ''used'' | SLEEPING \<Rightarrow> ''sleep '' | RUNNABLE \<Rightarrow> ''runble''
     | RUNNING \<Rightarrow> ''run   '' | ZOMBIE \<Rightarrow> ''zombie'')"

definition procdump :: "('x, unit) printfun" where
  "procdump =
     kseq (printf ''\<newline>'' [])
     (for_each [0..<NPROC] (\<lambda>p.
       kbind (get_proc p p_state) (\<lambda>st.
       if st = UNUSED then kskip
       else kbind (get_proc p p_pid) (\<lambda>pid.
         kbind (get_proc p p_name) (\<lambda>name.
         kseq (printf ''%d %s %s'' [VInt pid, VStr (Some (map of_char (state_name st))), VStr (Some (cstr name 16))])
         (printf ''\<newline>'' []))))))"

subsection \<open>The bytes that are sent\<close>

primrec printptr_out :: "nat \<Rightarrow> u64 \<Rightarrow> u8 list" where
  "printptr_out 0 x = []"
| "printptr_out (Suc n) x = digits ! unat (drop_bit 60 x) # printptr_out n (push_bit 4 x)"

definition conv_out :: "char \<Rightarrow> vararg \<Rightarrow> u8 list" where
  "conv_out d a =
     (if d = CHR ''d'' then rev (printint_buf (va_int a) 10 True)
      else if d = CHR ''x'' then rev (printint_buf (va_int a) 16 True)
      else if d = CHR ''p'' then of_char CHR ''0'' # of_char CHR ''x'' # printptr_out 16 (va_ptr a)
      else takeWhile (\<lambda>b. b \<noteq> 0) (case va_str a of None \<Rightarrow> map of_char ''(null)'' | Some bs \<Rightarrow> bs))"

fun printf_out :: "string \<Rightarrow> vararg list \<Rightarrow> u8 list" where
  "printf_out [] ap = []"
| "printf_out [c] ap = (if c = CHR ''%'' then [] else [of_char c])"
| "printf_out (c # d # fmt) ap =
     (if c \<noteq> CHR ''%'' then of_char c # printf_out (d # fmt) ap
      else if d \<in> set ''dxps'' then conv_out d (va_arg ap) @ printf_out fmt (tl ap)
      else if d = CHR ''%'' then of_char CHR ''%'' # printf_out fmt ap
      else of_char CHR ''%'' # of_char d # printf_out fmt ap)"

definition printed :: "u8 list \<Rightarrow> 'x kuart_scheme \<Rightarrow> 'x kuart_scheme" where
  "printed bs s = s\<lparr>uart := chip_send bs (uart s), hw := if bs = [] then hw s else hw_touch (hw s)\<rparr>"

definition tty_ok :: "nat \<Rightarrow> 'x kuart_scheme \<Rightarrow> bool" where
  "tty_ok n s \<longleftrightarrow> hw_ok (hw s) \<and> panicked s = 0 \<and> chip_ready (uart s) \<and> n \<le> u_room (uart s)"

lemma printed_simps [simp]:
  "printed cs (printed bs s) = printed (bs @ cs) s" "printed [] s = s"
  "tty_ok n (printed bs s) \<longleftrightarrow> tty_ok n (s\<lparr>uart := chip_send bs (uart s)\<rparr>)"
  by (simp_all add: printed_def tty_ok_def)

lemma printed_fields [simp]:
  "hw (printed bs s) = (if bs = [] then hw s else hw_touch (hw s))"
  "uart (printed bs s) = chip_send bs (uart s)" "panicked (printed bs s) = panicked s"
  by (simp_all add: printed_def)

lemma tty_ok_send [simp]:
  "tty_ok n (s\<lparr>uart := chip_send bs (uart s)\<rparr>) \<longleftrightarrow>
     hw_ok (hw s) \<and> panicked s = 0 \<and> chip_ready (uart s) \<and> n \<le> u_room (uart s) - length bs"
  by (simp add: tty_ok_def)

lemma tty_ok_split:
  "tty_ok (n + m) s \<Longrightarrow> tty_ok n s" "tty_ok (length bs + m) s \<Longrightarrow> tty_ok m (printed bs s)"
  by (auto simp: tty_ok_def printed_def)

lemma consputc_eq:
  "tty_ok 1 s \<Longrightarrow> c \<noteq> BACKSPACE \<Longrightarrow> consputc c s = Ret () (printed [word_of_int c] s)"
  by (simp add: consputc_def tty_ok_def uartputc_sync_eq printed_def)

lemma consputc_byte: "tty_ok 1 s \<Longrightarrow> consputc (uint (b :: u8)) s = Ret () (printed [b] s)"
  using unsigned_less [of b, where 'a = int] by (simp add: consputc_eq BACKSPACE_def)

lemma consputc_char: "tty_ok 1 s \<Longrightarrow> consputc (of_char c) s = Ret () (printed [of_char c] s)"
proof -
  have "(of_char c :: nat) < 256" by (rule nat_of_char_less_256)
  moreover have e: "(of_char c :: int) = int (of_char c)" by (simp only: of_nat_of_char)
  ultimately have "(of_char c :: int) \<noteq> 256" by linarith
  moreover have "(word_of_int (of_char c) :: u8) = of_char c" by (subst e, subst of_int_of_nat_eq, rule of_nat_of_char)
  ultimately show "tty_ok 1 s \<Longrightarrow> consputc (of_char c) s = Ret () (printed [of_char c] s)"
    by (simp add: consputc_eq BACKSPACE_def)
qed

lemma print_bytes_eq:
  "tty_ok (length bs) s \<Longrightarrow> for_each bs (\<lambda>b. consputc (uint (b :: u8))) s = Ret () (printed bs s)"
proof (induction bs arbitrary: s)
  case (Cons b bs)
  have "tty_ok 1 s" "tty_ok (length bs) (printed [b] s)"
    using tty_ok_split(1) [of 1 "length bs" s] tty_ok_split(2) [of "[b]" "length bs" s] Cons.prems by simp_all
  then show ?case using Cons.IH [of "printed [b] s"] by (simp add: consputc_byte)
qed simp

lemma printptr_loop_eq:
  "tty_ok n s \<Longrightarrow> printptr_loop n x s = Ret () (printed (printptr_out n x) s)"
proof (induction n arbitrary: x s)
  case (Suc n)
  let ?b = "digits ! unat (drop_bit 60 x)"
  have "tty_ok 1 s" "tty_ok n (printed [?b] s)"
    using tty_ok_split(1) [of 1 n s] tty_ok_split(2) [of "[?b]" n s] Suc.prems by simp_all
  then show ?case using Suc.IH [of "printed [?b] s"] by (simp add: consputc_byte)
qed simp

lemma length_printptr_out [simp]: "length (printptr_out n x) = n"
  by (induction n arbitrary: x) auto

lemma printptr_eq:
  assumes "tty_ok 18 s"
  shows "printptr x s = Ret () (printed (of_char CHR ''0'' # of_char CHR ''x'' # printptr_out 16 x) s)"
proof -
  let ?a = "of_char CHR ''0'' :: u8" let ?b = "of_char CHR ''x'' :: u8"
  have "tty_ok 1 s" "tty_ok 1 (printed [?a] s)" "tty_ok 16 (printed [?a, ?b] s)"
    using assms by (auto simp: tty_ok_def printed_def)
  then show ?thesis
    using consputc_char [of s "CHR ''0''"] consputc_char [of "printed [?a] s" "CHR ''x''"] printptr_loop_eq [of 16 "printed [?a, ?b] s"]
    by (simp add: printptr_def)
qed

text \<open>Running one piece of output after another.\<close>

lemma print_seq:
  assumes "\<And>s. tty_ok (length bs) s \<Longrightarrow> m s = Ret () (printed bs s)"
    and "\<And>s. tty_ok (length cs) s \<Longrightarrow> m' s = Ret () (printed cs s)"
    and "tty_ok (length (bs @ cs)) s"
  shows "kseq m m' s = Ret () (printed (bs @ cs) s)"
  using assms tty_ok_split(1) [of "length bs" "length cs" s] tty_ok_split(2) [of bs "length cs" s] by simp

lemma printf_conv_eq:
  "tty_ok (length (conv_out d a)) s \<Longrightarrow> printf_conv d a s = Ret () (printed (conv_out d a) s)"
  by (auto simp: printf_conv_def conv_out_def printint_def print_str_def print_bytes_eq printptr_eq split: if_splits)

lemma print_char:
  "tty_ok (length [of_char e :: u8]) s \<Longrightarrow> consputc (of_char e) s = Ret () (printed [of_char e] s)"
  by (simp add: consputc_char)

lemma printf_loop_eq:
  fixes s :: "'x kuart_scheme"
  shows "tty_ok (length (printf_out fmt ap)) s \<Longrightarrow> printf_loop fmt ap s = Ret () (printed (printf_out fmt ap) s)"
proof (induction fmt ap arbitrary: s rule: printf_loop.induct)
  case (1 ap)
  then show ?case by simp
next
  case (2 c ap)
  then show ?case by (auto simp: consputc_char)
next
  case (3 c d fmt ap)
  consider "c \<noteq> CHR ''%''" | "c = CHR ''%''" "d \<in> set ''dxps''"
    | "c = CHR ''%''" "d \<notin> set ''dxps''" "d = CHR ''%''" | "c = CHR ''%''" "d \<notin> set ''dxps''" "d \<noteq> CHR ''%''"
    by blast
  then show ?case
  proof cases
    case 1
    then show ?thesis using print_seq [OF print_char [of c] "3.IH"(1), of s] "3.prems" by simp
  next
    case 2
    then show ?thesis using print_seq [OF printf_conv_eq "3.IH"(2), of d "va_arg ap" s] "3.prems" by simp
  next
    case 3
    then show ?thesis using print_seq [OF print_char [of d] "3.IH"(3), of s] "3.prems" by simp
  next
    case 4
    have "tty_ok (length ([of_char d] @ printf_out fmt ap)) s \<Longrightarrow> kseq (consputc (of_char d)) (printf_loop fmt ap) s =
        Ret () (printed ([of_char d] @ printf_out fmt ap) s)" for s :: "'x kuart_scheme"
      by (rule print_seq [OF print_char "3.IH"(4)]) (use 4 in simp_all)
    then show ?thesis
      using print_seq [OF print_char [of c], of "[of_char d] @ printf_out fmt ap" "kseq (consputc (of_char d)) (printf_loop fmt ap)" s]
        4 "3.prems" by (simp del: kseq_def)
  qed
qed

subsection \<open>Numbers\<close>

definition dec_val :: "u8 list \<Rightarrow> nat" where
  "dec_val ds = foldl (\<lambda>n b. 10 * n + (unat b - 48)) 0 ds"

definition is_digit :: "u8 \<Rightarrow> bool" where
  "is_digit b \<longleftrightarrow> 48 \<le> b \<and> b \<le> 57"

lemma digits_dec:
  assumes "k < 10"
  shows "is_digit (digits ! k)" "unat (digits ! k) = 48 + k"
proof -
  have "\<forall>k\<in>set [0..<10]. is_digit (digits ! k) \<and> unat (digits ! k) = 48 + k"
    by (simp add: upt_rec digits_def is_digit_def)
  then show "is_digit (digits ! k)" "unat (digits ! k) = 48 + k" using assms by auto
qed

lemma printint_digits_dec:
  "dec_val (rev (printint_digits x 10)) = unat x \<and> (\<forall>b\<in>set (printint_digits x 10). is_digit b)"
proof (induction "unat x" arbitrary: x rule: less_induct)
  case less
  have m: "unat (x mod 10) < 10" "unat (x mod 10) = unat x mod 10" by (simp_all add: unat_mod)
  show ?case
  proof (cases "x div 10 = 0")
    case True
    then have "unat x div 10 = 0" by (simp add: word_unat_eq_iff unat_div)
    then show ?thesis
      using True m digits_dec by (subst (1 2) printint_digits.simps) (simp add: dec_val_def)
  next
    case False
    then have "unat (x div 10) < unat x" by (simp add: unat_div) (metis div_0 div_less_dividend numeral_One one_less_numeral_iff semiring_norm(76) unat_0 unat_gt_0 word_unat_eq_iff)
    from less [OF this] have "dec_val (rev (printint_digits (x div 10) 10)) = unat x div 10"
        "\<forall>b\<in>set (printint_digits (x div 10) 10). is_digit b" by (simp_all add: unat_div)
    moreover have "printint_digits x 10 = digits ! unat (x mod 10) # printint_digits (x div 10) 10"
      using False by (subst printint_digits.simps) simp
    ultimately show ?thesis using m digits_dec [of "unat (x mod 10)"] by (simp add: dec_val_def)
  qed
qed

lemma length_printint_digits:
  "unat x < unat base ^ k \<Longrightarrow> 0 < k \<Longrightarrow> length (printint_digits x base) \<le> k"
proof (induction k arbitrary: x)
  case (Suc k)
  show ?case
  proof (cases "x div base \<noteq> 0 \<and> 1 < base")
    case True
    then have "0 < unat (x div base)" by (simp add: unat_gt_0)
    then have "0 < k" using Suc.prems(1) by (cases k) (simp_all add: unat_div)
    moreover have "unat (x div base) < unat base ^ k"
      using Suc.prems(1) by (simp add: unat_div less_mult_imp_div_less mult.commute)
    ultimately show ?thesis using Suc.IH True by (subst printint_digits.simps) simp
  next
    case False
    then show ?thesis by (subst printint_digits.simps) auto
  qed
qed simp

subsection \<open>Properties\<close>

definition quiet_console :: kprint where
  "quiet_console = kuart.extend (idle_uart\<lparr>uart := (uart idle_uart)\<lparr>u_room := 16\<rparr>\<rparr>) (kprint.fields 1)"

lemma quiet_console_fields [simp]:
  "hw quiet_console = hw three_procs" "pr_locking quiet_console = 1" "panicked quiet_console = 0"
  "chip_ready (uart quiet_console)" "u_room (uart quiet_console) = 16" "u_out (uart quiet_console) = []"
  by (simp_all add: quiet_console_def kuart.extend_def kprint.fields_def idle_uart_def kproc.extend_def kuart.fields_def
      chip_ready_def LCR_BAUD_LATCH_def)

lemma three_procs_locks: "lock_free PrLock (hw three_procs)" "hw_ok (hw three_procs)"
  by (simp_all add: three_procs_def lock_free_def boot_hw_def hw_ok_def)

lemma printf_eq:
  assumes "hw_ok (hw s)" "lock_free PrLock (hw s)" "pr_locking s \<noteq> 0" "panicked s = 0" "chip_ready (uart s)"
    "length (printf_out fmt ap) \<le> u_room (uart s)"
  shows "printf fmt ap s = Ret () (s\<lparr>uart := chip_send (printf_out fmt ap) (uart s), hw := hw_touch (hw s)\<rparr>)"
proof -
  let ?s = "s\<lparr>hw := hw_enter PrLock (hw s)\<rparr>"
  have "tty_ok (length (printf_out fmt ap)) ?s" using assms by (simp add: tty_ok_def)
  then have "printf_loop fmt ap ?s = Ret () (printed (printf_out fmt ap) ?s)" by (rule printf_loop_eq)
  moreover have "printed (printf_out fmt ap) ?s = ?s\<lparr>uart := chip_send (printf_out fmt ap) (uart s)\<rparr>"
    using assms(1) by (simp add: printed_def)
  ultimately show ?thesis
    using assms by (simp add: printf_def acquire_free release_held)
qed



text \<open>for every 32-bit value, \<open>printint(xx, 10, 1)\<close> prints an optional minus sign followed by decimal digits whose
  value is the magnitude of the argument, \<^verbatim>\<open>INT_MIN\<close> included.\<close>

theorem printint_decimal:
  assumes "- (2 ^ 31) \<le> xx" "xx < 2 ^ 31"
  shows "\<exists>ds. rev (printint_buf xx 10 True) = (if xx < 0 then [of_char CHR ''-''] else []) @ ds \<and>
    (\<forall>b\<in>set ds. is_digit b) \<and> int (dec_val ds) = \<bar>xx\<bar>"
proof -
  let ?x = "word_of_int \<bar>xx\<bar> :: u32"
  have "int (unat ?x) = \<bar>xx\<bar>"
  proof -
    have "take_bit 32 \<bar>xx\<bar> = \<bar>xx\<bar>" using assms by (intro take_bit_int_eq_self) simp_all
    then show ?thesis by (simp add: unsigned_of_int)
  qed
  then show ?thesis
    using printint_digits_dec [of ?x]
    by (intro exI [of _ "rev (printint_digits ?x 10)"]) (auto simp: printint_buf_def Let_def)
qed

theorem printint_decimal_witness:
  "\<exists>ds. rev (printint_buf (- 2147483648) 10 True) = of_char CHR ''-'' # ds \<and> int (dec_val ds) = 2147483648"
  using printint_decimal [of "- 2147483648"] by auto

text \<open>the digits and the sign that \<open>printint\<close> stores fit its buffer of 16 characters, in base 10 and in base 16.\<close>

theorem printint_fits_buffer:
  "length (printint_buf xx 10 sign) \<le> 16 \<and> length (printint_buf xx 16 sign) \<le> 16"
proof -
  let ?x = "if sign \<and> xx < 0 then word_of_int (- xx) else word_of_int xx"
  have "length (printint_digits x 10) \<le> 10" "length (printint_digits x 16) \<le> 8" for x :: u32
    using unat_lt2p [of x] by (intro length_printint_digits; simp)+
  then have d: "length (printint_digits ?x 10) \<le> 10" "length (printint_digits ?x 16) \<le> 8" .
  have "length (printint_buf xx base sign) \<le> length (printint_digits ?x base) + 1" for base
    by (simp add: printint_buf_def Let_def)
  from this [of 10] this [of 16] show ?thesis using d by linarith
qed

end
