(* ===== verification/Console.thy ===== *)
theory Console
  imports Printf
begin

text \<open>
  The console (\<^verbatim>\<open>kernel/console.c\<close>): line editing of the input in the interrupt handler, \<open>consoleread\<close> and
  \<open>consolewrite\<close> for the device switch, and \<open>uartintr\<close> of \<^verbatim>\<open>kernel/uart.c\<close> with the handler it calls.

  The input buffer holds a part that is ready for readers (from \<open>cons.r\<close> to \<open>cons.w\<close>) and the line that is being edited
  (from \<open>cons.w\<close> to \<open>cons.e\<close>). Shown: each key acts on these two lists as an abstract line editor does, and the buffer
  never holds more than its 128 bytes.
\<close>

subsection \<open>State\<close>

datatype devop = ConsoleRead | ConsoleWrite

record devsw =
  dev_read :: "devop option"
  dev_write :: "devop option"

definition INPUT_BUF_SIZE :: u32 where "INPUT_BUF_SIZE = 128"
definition CONSOLE :: nat where "CONSOLE = 1"

definition ctrl :: "char \<Rightarrow> int" where
  "ctrl x = of_char x - of_char CHR ''@''"

record kcons = kprint +
  cons_buf :: "nat \<Rightarrow> u8"
  cons_r :: u32
  cons_w :: u32
  cons_e :: u32
  devsws :: "nat \<Rightarrow> devsw"

type_synonym ('x, 'a) consfun = "('x kcons_scheme, 'a) kfun"

text \<open>The address \<open>i\<close> bytes further on.\<close>

definition src_plus :: "copysrc \<Rightarrow> nat \<Rightarrow> copysrc" where
  "src_plus src i = (case src of UserSrc a \<Rightarrow> UserSrc (a + word_of_nat i) | KernSrc a \<Rightarrow> KernSrc (a + word_of_nat i)
     | LocalSrc bs \<Rightarrow> LocalSrc (drop i bs))"

definition dst_plus :: "copydst \<Rightarrow> nat \<Rightarrow> copydst" where
  "dst_plus dst i = (case dst of UserDst a \<Rightarrow> UserDst (a + word_of_nat i) | KernDst a \<Rightarrow> KernDst (a + word_of_nat i)
     | LocalDst \<Rightarrow> LocalDst)"

subsection \<open>Operations\<close>

definition consolewrite_round :: "copysrc \<Rightarrow> int \<Rightarrow> int \<Rightarrow> ('x, int + int) consfun" where
  "consolewrite_round src n i =
     (if i < n then
        kbind (either_copyin (src_plus src (nat i)) 1) (\<lambda>(r, bs).
        if r = - 1 then leave i
        else kseq (uartputc (uint (bs ! 0))) (again (i + 1)))
      else leave i)"

definition consolewrite :: "copysrc \<Rightarrow> int \<Rightarrow> ('x, int) consfun" where
  "consolewrite src n = kwhile (consolewrite_round src n) 0"

text \<open>The inner loop of \<open>consoleread\<close>: \<open>True\<close> when the process has been killed while no input was there.\<close>

definition consoleread_wait :: "('x, bool option) consfun" where
  "consoleread_wait =
     kbind (gets cons_r) (\<lambda>r. kbind (gets cons_w) (\<lambda>w.
     if r = w then
       kbind (with_myproc killed) (\<lambda>k.
       if k \<noteq> 0 then kret (Some True)
       else kseq (sleep ConsChan ConsLock) (kret None))
     else kret (Some False)))"

text \<open>A round of the outer loop; it leaves with no value when the process was killed, and otherwise with the
  number of bytes that are left to read.\<close>

definition consoleread_round :: "u32 \<Rightarrow> copydst \<times> int \<Rightarrow> ('x, copydst \<times> int + int option) consfun" where
  "consoleread_round target = (\<lambda>(dst, n).
     if \<not> n > 0 then leave (Some n)
     else kbind (kloop consoleread_wait) (\<lambda>dead.
       if dead then leave None
       else kbind (gets (\<lambda>s. cons_buf s (unat (cons_r s mod INPUT_BUF_SIZE)))) (\<lambda>c.
         kseq (modify (\<lambda>s. s\<lparr>cons_r := cons_r s + 1\<rparr>))
         (if uint c = ctrl CHR ''D'' then
            kseq (kwhen (word_of_int n < target) (modify (\<lambda>s. s\<lparr>cons_r := cons_r s - 1\<rparr>)))
            (leave (Some n))
          else kbind (either_copyout dst [c]) (\<lambda>r.
            if r = - 1 then leave (Some n)
            else if uint c = of_char CHR ''\<newline>'' then leave (Some (n - 1))
            else again (dst_plus dst 1, n - 1))))))"

definition consoleread :: "copydst \<Rightarrow> int \<Rightarrow> ('x, int) consfun" where
  "consoleread dst n =
     (let target = word_of_int n :: u32 in
      kseq (acquire ConsLock)
      (kbind (kwhile (consoleread_round target) (dst, n)) (\<lambda>left. case left of
         None \<Rightarrow> kseq (release ConsLock) (kret (- 1))
       | Some n' \<Rightarrow> kseq (release ConsLock) (kret (sint (target - word_of_int n'))))))"

definition kill_line_round :: "('x, unit option) consfun" where
  "kill_line_round =
     kbind (gets cons_e) (\<lambda>e. kbind (gets cons_w) (\<lambda>w. kbind (gets cons_buf) (\<lambda>buf.
     if e \<noteq> w \<and> buf (unat ((e - 1) mod INPUT_BUF_SIZE)) \<noteq> of_char CHR ''\<newline>'' then
       kseq (modify (\<lambda>s. s\<lparr>cons_e := cons_e s - 1\<rparr>)) (kseq (consputc BACKSPACE) (kret None))
     else kret (Some ()))))"

definition consoleintr_key :: "int \<Rightarrow> ('x, unit) consfun" where
  "consoleintr_key c0 =
     kbind (gets cons_e) (\<lambda>e. kbind (gets cons_r) (\<lambda>r.
     kwhen (c0 \<noteq> 0 \<and> e - r < INPUT_BUF_SIZE)
       (let c = (if c0 = 13 then 10 else c0) in
        kseq (consputc c)
        (kseq (modify (\<lambda>s. s\<lparr>cons_buf := (cons_buf s)(unat (cons_e s mod INPUT_BUF_SIZE) := word_of_int c)\<rparr>))
        (kseq (modify (\<lambda>s. s\<lparr>cons_e := cons_e s + 1\<rparr>))
        (kbind (gets cons_e) (\<lambda>e. kbind (gets cons_r) (\<lambda>r.
         kwhen (c = 10 \<or> c = ctrl CHR ''D'' \<or> e - r = INPUT_BUF_SIZE)
           (kseq (modify (\<lambda>s. s\<lparr>cons_w := cons_e s\<rparr>))
           (wakeup ConsChan))))))))))"

definition consoleintr_erase :: "('x, unit) consfun" where
  "consoleintr_erase =
     kbind (gets cons_e) (\<lambda>e. kbind (gets cons_w) (\<lambda>w.
     kwhen (e \<noteq> w)
       (kseq (modify (\<lambda>s. s\<lparr>cons_e := cons_e s - 1\<rparr>)) (consputc BACKSPACE))))"

definition consoleintr_switch :: "int \<Rightarrow> ('x, unit) consfun" where
  "consoleintr_switch c =
     (if c = ctrl CHR ''P'' then procdump
      else if c = ctrl CHR ''U'' then kloop kill_line_round
      else if c = ctrl CHR ''H'' \<or> c = 127 then consoleintr_erase
      else consoleintr_key c)"

definition consoleintr :: "int \<Rightarrow> ('x, unit) consfun" where
  "consoleintr c =
     kseq (acquire ConsLock)
     (kseq (consoleintr_switch c)
     (release ConsLock))"

definition uartintr :: "('x, unit) consfun" where
  "uartintr = uartintr_with consoleintr"

definition consoleinit :: "('x, unit) consfun" where
  "consoleinit =
     kseq (initlock ConsLock ''cons'')
     (kseq uartinit
     (kseq (modify (\<lambda>s. s\<lparr>devsws := (devsws s)(CONSOLE := (devsws s CONSOLE)\<lparr>dev_read := Some ConsoleRead\<rparr>)\<rparr>))
     (modify (\<lambda>s. s\<lparr>devsws := (devsws s)(CONSOLE := (devsws s CONSOLE)\<lparr>dev_write := Some ConsoleWrite\<rparr>)\<rparr>))))"

subsection \<open>The line editor\<close>

text \<open>The input that readers can take and the line being edited; and what a key does to them.\<close>

definition cons_view :: "'x kcons_scheme \<Rightarrow> u8 list \<times> u8 list" where
  "cons_view s = (ring 128 (cons_buf s) (cons_r s) (cons_w s), ring 128 (cons_buf s) (cons_w s) (cons_e s))"

definition edit_key :: "int \<Rightarrow> u8 list \<times> u8 list \<Rightarrow> u8 list \<times> u8 list" where
  "edit_key c = (\<lambda>(ready, line).
     if c = 21 then (ready, rev (dropWhile (\<lambda>b. b \<noteq> 10) (rev line)))
     else if c = 8 \<or> c = 127 then (ready, butlast line)
     else if c \<noteq> 0 \<and> length (ready @ line) < 128 then
       (let b = (if c = 13 then 10 else word_of_int c); line' = line @ [b] in
        if b = 10 \<or> b = 4 \<or> length (ready @ line') = 128 then (ready @ line', []) else (ready, line'))
     else (ready, line))"

definition cons_ok :: "'x kcons_scheme \<Rightarrow> bool" where
  "cons_ok s \<longleftrightarrow> unat (cons_w s - cons_r s) \<le> unat (cons_e s - cons_r s) \<and> unat (cons_e s - cons_r s) \<le> 128"

lemma ctrl_vals [simp]: "ctrl CHR ''P'' = 16" "ctrl CHR ''U'' = 21" "ctrl CHR ''H'' = 8" "ctrl CHR ''D'' = 4"
  by (simp_all add: ctrl_def)

lemma cons_slot [simp]: "unat (i mod INPUT_BUF_SIZE) = unat i mod 128"
  by (simp add: INPUT_BUF_SIZE_def unat_mod)

lemma cons_view_cong [simp]:
  "cons_view (s\<lparr>hw := h\<rparr>) = cons_view s" "cons_view (s\<lparr>procs := ps\<rparr>) = cons_view s" "cons_view (printed bs s) = cons_view s"
  "cons_ok (s\<lparr>hw := h\<rparr>) = cons_ok s" "cons_ok (s\<lparr>procs := ps\<rparr>) = cons_ok s" "cons_ok (printed bs s) = cons_ok s"
  by (simp_all add: cons_view_def cons_ok_def printed_def)

lemma printed_cons_fields [simp]:
  "cons_buf (printed bs s) = cons_buf s" "cons_r (printed bs s) = cons_r s" "cons_w (printed bs s) = cons_w s"
  "cons_e (printed bs s) = cons_e s"
  by (simp_all add: printed_def)

lemma consputc_backspace:
  assumes "tty_ok 3 s"
  shows "consputc BACKSPACE s = Ret () (printed [8, 32, 8] s)"
proof -
  have "tty_ok 1 s" "tty_ok 1 (printed [8] s)" "tty_ok 1 (printed [8, 32] s)" using assms by (auto simp: tty_ok_def)
  then show ?thesis by (simp add: consputc_def tty_ok_def uartputc_sync_eq printed_def)
qed

lemma cons_line_length:
  assumes "cons_ok s"
  shows "unat (cons_e s - cons_w s) = unat (cons_e s - cons_r s) - unat (cons_w s - cons_r s)"
proof -
  have "cons_e s - cons_w s = (cons_e s - cons_r s) - (cons_w s - cons_r s)" by simp
  then show ?thesis using assms by (simp only: cons_ok_def unat_sub word_le_nat_alt)
qed

text \<open>Taking back the last character of the line.\<close>

lemma erase_char:
  assumes "cons_ok s" "cons_e s \<noteq> cons_w s"
  shows "cons_ok (s\<lparr>cons_e := cons_e s - 1\<rparr>)"
    and "snd (cons_view s) = snd (cons_view (s\<lparr>cons_e := cons_e s - 1\<rparr>)) @ [cons_buf s (unat (cons_e s - 1) mod 128)]"
    and "fst (cons_view (s\<lparr>cons_e := cons_e s - 1\<rparr>)) = fst (cons_view s)"
    and "unat (cons_e s - cons_w s) = Suc (unat (cons_e s - 1 - cons_w s))"
proof -
  let ?e = "cons_e s - 1"
  have le: "unat (cons_e s - cons_w s) \<le> 128" using cons_line_length [OF assms(1)] assms(1) unfolding cons_ok_def by linarith
  have ne: "cons_e s - cons_w s \<noteq> 0" using assms(2) by simp
  have pred: "unat x = Suc (unat (x - 1))" if "x \<noteq> 0" for x :: u32 using that by (simp add: unat_minus_one unat_gt_0)
  have e: "?e - cons_w s = (cons_e s - cons_w s) - 1" by simp
  have u: "unat (cons_e s - cons_w s) = Suc (unat (?e - cons_w s))" unfolding e using ne by (rule pred)
  then show "unat (cons_e s - cons_w s) = Suc (unat (cons_e s - 1 - cons_w s))" .
  have "unat (?e - cons_w s) + 1 < 2 ^ LENGTH(32)" using u le by simp
  from ring_snoc [OF this] show "snd (cons_view s) = snd (cons_view (s\<lparr>cons_e := ?e\<rparr>)) @ [cons_buf s (unat ?e mod 128)]"
    by (simp add: cons_view_def)
  show "fst (cons_view (s\<lparr>cons_e := ?e\<rparr>)) = fst (cons_view s)" by (simp add: cons_view_def)
  have "unat (cons_e s - cons_r s) = unat (cons_w s - cons_r s) + unat (cons_e s - cons_w s)"
    using cons_line_length [OF assms(1)] assms(1) unfolding cons_ok_def by linarith
  then have "cons_e s - cons_r s \<noteq> 0" using u by auto
  then have "unat (cons_e s - cons_r s) = Suc (unat (cons_e s - cons_r s - 1))" by (rule pred)
  moreover have "?e - cons_r s = cons_e s - cons_r s - 1" by simp
  ultimately have "unat (?e - cons_r s) = unat (cons_e s - cons_r s) - 1" by (simp only: diff_Suc_1)
  then show "cons_ok (s\<lparr>cons_e := ?e\<rparr>)"
    using assms(1) \<open>unat (cons_e s - cons_r s) = unat (cons_w s - cons_r s) + unat (cons_e s - cons_w s)\<close> u
    by (simp add: cons_ok_def)
qed

definition kill_line :: "u8 list \<Rightarrow> u8 list" where
  "kill_line line = rev (dropWhile (\<lambda>b. b \<noteq> 10) (rev line))"

lemma kill_line_snoc: "kill_line (line @ [b]) = (if b = 10 then line @ [b] else kill_line line)"
  by (simp add: kill_line_def)

lemma kill_line_Nil [simp]: "kill_line [] = []"
  by (simp add: kill_line_def)

lemma kill_line_step:
  "kloop kill_line_round s = tbind (kill_line_round s) (\<lambda>r. case r of None \<Rightarrow> kloop kill_line_round | Some a \<Rightarrow> kret a)"
  by (rule kloop_step)

lemma newline_byte [simp]: "(of_char CHR ''\<newline>'' :: u8) = 10"
  by simp

text \<open>What a part of the handler leaves behind while the console lock is held.\<close>

definition edits :: "'x kcons_scheme \<Rightarrow> u8 list \<times> u8 list \<Rightarrow> ('x kcons_scheme, unit) kprog \<Rightarrow> bool" where
  "edits s v t \<longleftrightarrow> (\<exists>s'. t = Ret () s' \<and> cons_view s' = v \<and> cons_ok s' \<and> hw s' = hw s)"

lemma kill_line_loop:
  fixes s :: "'x kcons_scheme"
  assumes "tty_ok (3 * unat (cons_e s - cons_w s)) s" "cons_ok s" "hw_touch (hw s) = hw s"
  shows "edits s (fst (cons_view s), kill_line (snd (cons_view s))) (kloop kill_line_round s)"
  using assms
proof (induction "unat (cons_e s - cons_w s)" arbitrary: s rule: less_induct)
  case less
  let ?b = "cons_buf s (unat (cons_e s - 1) mod 128)"
  let ?s1 = "s\<lparr>cons_e := cons_e s - 1\<rparr>"
  show ?case
  proof (cases "cons_e s \<noteq> cons_w s \<and> ?b \<noteq> 10")
    case True
    then have e: "cons_e s \<noteq> cons_w s" by simp
    note er = erase_char [OF less.prems(2) e]
    let ?s2 = "printed [8, 32, 8] ?s1"
    have n: "3 * unat (cons_e s - cons_w s) = 3 + 3 * unat (cons_e ?s2 - cons_w ?s2)" using er(4) by simp
    have "tty_ok 3 ?s1" using less.prems(1) unfolding n by (simp add: tty_ok_def)
    then have "kill_line_round s = Ret None ?s2"
      using True by (simp add: kill_line_round_def consputc_backspace del: of_char_Char)
    then have step: "kloop kill_line_round s = kloop kill_line_round ?s2" by (subst kill_line_step) simp
    have "tty_ok (3 * unat (cons_e ?s2 - cons_w ?s2)) ?s2"
      using less.prems(1) unfolding n by (simp add: tty_ok_def) linarith
    then have "edits ?s2 (fst (cons_view ?s2), kill_line (snd (cons_view ?s2))) (kloop kill_line_round ?s2)"
      using less.prems(3) er(1,4) by (intro less.hyps) simp_all
    moreover have "kill_line (snd (cons_view s)) = kill_line (snd (cons_view ?s1))"
      using er(2) True by (simp add: kill_line_snoc)
    ultimately show ?thesis using er(3) less.prems(3) by (simp add: edits_def step)
  next
    case False
    then have "kill_line_round s = Ret (Some ()) s"
      by (auto simp: kill_line_round_def simp del: of_char_Char)
    then have "kloop kill_line_round s = Ret () s" by (subst kill_line_step) simp
    moreover have "kill_line (snd (cons_view s)) = snd (cons_view s)"
    proof (cases "cons_e s = cons_w s")
      case True
      then show ?thesis by (simp add: cons_view_def)
    next
      case ne: False
      then show ?thesis using False erase_char(2) [OF less.prems(2) ne] by (simp add: kill_line_snoc)
    qed
    ultimately show ?thesis using less.prems(2) by (simp add: edits_def)
  qed
qed

text \<open>Storing a character, and handing the line over to the readers.\<close>

abbreviation store_char :: "u8 \<Rightarrow> 'x kcons_scheme \<Rightarrow> 'x kcons_scheme" where
  "store_char b s \<equiv> s\<lparr>cons_buf := (cons_buf s)(unat (cons_e s) mod 128 := b), cons_e := cons_e s + 1\<rparr>"

lemma cons_lengths:
  assumes "cons_ok s"
  shows "unat (cons_e s - cons_r s) = length (fst (cons_view s) @ snd (cons_view s))"
  using cons_line_length [OF assms] assms by (simp add: cons_view_def cons_ok_def)

lemma store_char_view:
  assumes "cons_ok s" "unat (cons_e s - cons_r s) < 128"
  shows "cons_ok (store_char b s)" "cons_view (store_char b s) = (fst (cons_view s), snd (cons_view s) @ [b])"
    "unat (cons_e s + 1 - cons_r s) = Suc (unat (cons_e s - cons_r s))"
proof -
  let ?r = "cons_r s" let ?w = "cons_w s" let ?e = "cons_e s"
  let ?buf = "(cons_buf s)(unat ?e mod 128 := b)"
  have le: "unat (?w - ?r) \<le> unat (?e - ?r)" using assms(1) by (simp add: cons_ok_def)
  have "ring 128 ?buf ?r ?e = ring 128 (cons_buf s) ?r ?e" using assms(2) by (intro ring_update) simp_all
  then have "ring 128 ?buf ?r ?w @ ring 128 ?buf ?w ?e = ring 128 (cons_buf s) ?r ?w @ ring 128 (cons_buf s) ?w ?e"
    using ring_split [OF le, of 128] by metis
  then have eq: "ring 128 ?buf ?r ?w = ring 128 (cons_buf s) ?r ?w" "ring 128 ?buf ?w ?e = ring 128 (cons_buf s) ?w ?e"
    by simp_all
  have "unat (?e - ?w) + 1 < 2 ^ LENGTH(32)" using cons_line_length [OF assms(1)] assms(2) by simp
  from ring_snoc [OF this, of 128 ?buf] eq
  show "cons_view (store_char b s) = (fst (cons_view s), snd (cons_view s) @ [b])" by (simp add: cons_view_def)
  show e: "unat (?e + 1 - ?r) = Suc (unat (?e - ?r))" using assms(2) by (intro word_Suc_diff) simp
  then show "cons_ok (store_char b s)" using assms le by (simp add: cons_ok_def)
qed

lemma hand_over_view:
  assumes "cons_ok s"
  shows "cons_ok (s\<lparr>cons_w := cons_e s\<rparr>)"
    "cons_view (s\<lparr>cons_w := cons_e s\<rparr>) = (fst (cons_view s) @ snd (cons_view s), [])"
proof -
  have "unat (cons_w s - cons_r s) \<le> unat (cons_e s - cons_r s)" using assms by (simp add: cons_ok_def)
  from ring_split [OF this, of 128 "cons_buf s"]
  show "cons_view (s\<lparr>cons_w := cons_e s\<rparr>) = (fst (cons_view s) @ snd (cons_view s), [])"
    by (simp add: cons_view_def)
  show "cons_ok (s\<lparr>cons_w := cons_e s\<rparr>)" using assms by (simp add: cons_ok_def)
qed

lemma key_stored:
  fixes s :: "'x kcons_scheme"
  assumes "tty_ok 1 s" "others_free (hw s)" "cons_ok s" "hw_touch (hw s) = hw s" "0 < c" "c < 256"
    "c \<notin> {16, 21, 8, 127}"
  shows "edits s (edit_key c (cons_view s)) (consoleintr_key c s)"
proof (cases "unat (cons_e s - cons_r s) < 128")
  case full: False
  then have "\<not> cons_e s - cons_r s < INPUT_BUF_SIZE" by (simp add: INPUT_BUF_SIZE_def word_less_nat_alt)
  then have "consoleintr_key c s = Ret () s" by (simp add: consoleintr_key_def)
  moreover have "edit_key c (cons_view s) = cons_view s"
    using full cons_lengths [OF assms(3)] assms(7) by (auto simp: edit_key_def split: prod.splits)
  ultimately show ?thesis using assms(3) by (simp add: edits_def)
next
  case room: True
  define c' where "c' = (if c = 13 then 10 else c)"
  let ?b = "word_of_int c' :: u8"
  let ?s1 = "printed [?b] s" let ?s2 = "store_char ?b ?s1"
  have c': "0 < c'" "c' < 256" "c' \<noteq> BACKSPACE" using assms(5,6) by (auto simp: c'_def BACKSPACE_def)
  have b: "?b = 10 \<longleftrightarrow> c' = 10" "?b = 4 \<longleftrightarrow> c' = 4"
  proof -
    have "uint ?b = c'" using c' by (simp add: unsigned_of_int take_bit_int_eq_self)
    then show "?b = 10 \<longleftrightarrow> c' = 10" "?b = 4 \<longleftrightarrow> c' = 4" by (auto simp: word_uint_eq_iff)
  qed
  have put: "consputc c' s = Ret () ?s1" using consputc_eq [OF assms(1) c'(3)] .
  have v2: "cons_ok ?s2" "cons_view ?s2 = (fst (cons_view s), snd (cons_view s) @ [?b])"
      "unat (cons_e ?s2 - cons_r ?s2) = Suc (unat (cons_e s - cons_r s))"
    using store_char_view(1,2) [of ?s1 ?b] store_char_view(3) [of ?s1] assms(3) room by simp_all
  have lt: "cons_e s - cons_r s < INPUT_BUF_SIZE" using room by (simp add: INPUT_BUF_SIZE_def word_less_nat_alt)
  let ?full = "c' = 10 \<or> c' = 4 \<or> cons_e ?s2 - cons_r ?s2 = INPUT_BUF_SIZE"
  have fl: "cons_e ?s2 - cons_r ?s2 = INPUT_BUF_SIZE \<longleftrightarrow> length (fst (cons_view s) @ snd (cons_view s) @ [?b]) = 128"
    using cons_lengths [OF v2(1)] v2(2) by (simp add: INPUT_BUF_SIZE_def word_unat_eq_iff)
  have run: "consoleintr_key c s = (if ?full then kseq (modify (\<lambda>s. s\<lparr>cons_w := cons_e s\<rparr>)) (wakeup ConsChan) ?s2 else Ret () ?s2)"
    using lt assms(5) put unfolding c'_def by (simp add: consoleintr_key_def Let_def kwhen_apply)
  have spec: "edit_key c (cons_view s) = (if ?full then (fst (cons_view ?s2) @ snd (cons_view ?s2), []) else cons_view ?s2)"
    using assms(5,7) room cons_lengths [OF assms(3)] b fl v2(2)
    by (cases "cons_view s") (auto simp: edit_key_def Let_def c'_def)
  have hw2: "hw ?s2 = hw s" using assms(4) by simp
  show ?thesis
  proof (cases ?full)
    case True
    let ?s3 = "?s2\<lparr>cons_w := cons_e ?s2\<rparr>"
    have "others_free (hw ?s3)" using assms(2) hw2 by simp
    from wakeup_others [OF this, of ConsChan]
    have "kseq (modify (\<lambda>s. s\<lparr>cons_w := cons_e s\<rparr>)) (wakeup ConsChan) ?s2 =
        Ret () (?s3\<lparr>hw := hw_touch (hw ?s3), procs := woken ConsChan (c_proc (cpus (hw ?s3) (tp (hw ?s3)))) (procs ?s3)\<rparr>)"
      by simp
    then show ?thesis
      using True run spec hand_over_view [OF v2(1)] assms(4) hw2 by (simp add: edits_def del: kseq_def)
  next
    case False
    then show ?thesis using run spec v2(1) hw2 by (simp add: edits_def)
  qed
qed

lemma key_erased:
  assumes "tty_ok 3 s" "cons_ok s" "hw_touch (hw s) = hw s" "c = 8 \<or> c = 127"
  shows "edits s (edit_key c (cons_view s)) (consoleintr_erase s)"
proof (cases "cons_e s = cons_w s")
  case True
  then have "snd (cons_view s) = []" by (simp add: cons_view_def)
  then show ?thesis
    using assms(2,4) True by (cases "cons_view s") (auto simp: edits_def edit_key_def consoleintr_erase_def)
next
  case False
  note er = erase_char [OF assms(2) False]
  let ?s = "s\<lparr>cons_e := cons_e s - 1\<rparr>"
  have "tty_ok 3 ?s" using assms(1) by (simp add: tty_ok_def)
  then have "consoleintr_erase s = Ret () (printed [8, 32, 8] ?s)"
    using False by (auto simp: consputc_backspace consoleintr_erase_def)
  moreover have "edit_key c (cons_view s) = cons_view ?s"
    using er(2,3) assms(4) by (cases "cons_view s", cases "cons_view ?s") (auto simp: edit_key_def)
  ultimately show ?thesis using er(1) assms(3) by (simp add: edits_def)
qed

lemma switch_edits:
  assumes "tty_ok 384 s" "others_free (hw s)" "cons_ok s" "hw_touch (hw s) = hw s" "0 \<le> c" "c < 256" "c \<noteq> 16"
  shows "edits s (edit_key c (cons_view s)) (consoleintr_switch c s)"
proof -
  have tty: "tty_ok n s" if "n \<le> 384" for n using that assms(1) by (simp add: tty_ok_def)
  have "unat (cons_e s - cons_w s) \<le> 128"
    using cons_line_length [OF assms(3)] assms(3) unfolding cons_ok_def by linarith
  then have kill: "edits s (fst (cons_view s), kill_line (snd (cons_view s))) (kloop kill_line_round s)"
    using kill_line_loop [of s] tty assms(3,4) by simp
  consider "c = 21" | "c = 8 \<or> c = 127" | "c = 0" | "c \<notin> {0, 16, 21, 8, 127}" using assms(7) by auto
  then show ?thesis
  proof cases
    case 1
    then show ?thesis using kill by (cases "cons_view s") (simp add: consoleintr_switch_def edit_key_def kill_line_def)
  next
    case 2
    then show ?thesis using key_erased [of s c] tty [of 3] assms(3,4) by (auto simp: consoleintr_switch_def)
  next
    case 3
    then show ?thesis
      using assms(3) by (cases "cons_view s") (simp add: edits_def consoleintr_switch_def consoleintr_key_def edit_key_def)
  next
    case 4
    then show ?thesis using key_stored [of s c] tty [of 1] assms by (auto simp: consoleintr_switch_def)
  qed
qed

subsection \<open>Properties\<close>

definition typing_console :: kcons where
  "typing_console = kprint.extend (quiet_console\<lparr>uart := (uart quiet_console)\<lparr>u_room := 400\<rparr>\<rparr>)
     (kcons.fields (\<lambda>i. if i = 0 then 108 else if i = 1 then 115 else 0) 0 0 2 (\<lambda>_. \<lparr>dev_read = None, dev_write = None\<rparr>))"

lemma typing_console_fields [simp]:
  "hw typing_console = hw three_procs" "panicked typing_console = 0" "chip_ready (uart typing_console)"
  "u_room (uart typing_console) = 400" "cons_view typing_console = ([], [108, 115])" "cons_ok typing_console"
  by (simp_all add: typing_console_def kprint.extend_def kcons.fields_def quiet_console_def kuart.extend_def kprint.fields_def
      idle_uart_def kproc.extend_def kuart.fields_def chip_ready_def LCR_BAUD_LATCH_def cons_view_def cons_ok_def ring_def upt_rec)

text \<open>C27: each key other than the process-list key acts on the pair of ready input and edited line exactly as the abstract
  line editor does: ordinary keys append, backspace and delete erase one character, control-U erases the line,
  newline, control-D and a full buffer hand the line over to the readers. The buffer bound is kept.\<close>

theorem consoleintr_refines:
  fixes s :: "'x kcons_scheme"
  assumes "others_free (hw s)" "lock_free ConsLock (hw s)" "panicked s = 0" "chip_ready (uart s)"
    "384 \<le> u_room (uart s)" "cons_ok s" "0 \<le> c" "c < 256" "c \<noteq> ctrl CHR ''P''"
  shows "\<exists>s'. consoleintr c s = Ret () s' \<and> cons_view s' = edit_key c (cons_view s) \<and> cons_ok s' \<and>
    hw s' = hw_touch (hw s)"
proof -
  have ok: "hw_ok (hw s)" using assms(1) by (simp add: others_free_def)
  let ?s = "s\<lparr>hw := hw_enter ConsLock (hw s)\<rparr>"
  have "edits ?s (edit_key c (cons_view s)) (consoleintr_switch c ?s)"
    using switch_edits [of ?s c] assms ok by (simp add: tty_ok_def)
  then obtain s' where s': "consoleintr_switch c ?s = Ret () s'" "cons_view s' = edit_key c (cons_view s)" "cons_ok s'" "hw s' = hw ?s"
    by (auto simp: edits_def)
  have "consoleintr c s = Ret () (s'\<lparr>hw := hw_touch (hw s)\<rparr>)"
    using s'(1,4) ok assms(2) by (simp add: consoleintr_def acquire_free release_held)
  then show ?thesis using s' by simp
qed

theorem consoleintr_refines_witness:
  "\<exists>s'. consoleintr 13 typing_console = Ret () s' \<and> cons_view s' = ([108, 115, 10], [])"
proof -
  have "lock_free ConsLock (hw three_procs)" by (simp add: three_procs_def lock_free_def boot_hw_def)
  then show ?thesis
    using consoleintr_refines [of typing_console 13] by (auto simp: edit_key_def)
qed

end
