(* ===== verification/Monitor.thy ===== *)
theory Monitor
  imports Proc
begin

text \<open>
  Data guarded by a spinlock, with processes that wait for a condition on it: the discipline of \<^verbatim>\<open>acquire\<close>, \<^verbatim>\<open>sleep\<close> and
  \<^verbatim>\<open>release\<close> that the sleep locks, the log and the pipes share. The other harts and processes are unrestricted except
  for that discipline: they keep away from the caller's hart and locks, leave guarded data alone while the caller holds its lock,
  and leave it in its invariant whenever they leave the lock free. Shown: \<open>acquire\<close> and \<open>sleep\<close> return holding the lock, with the
  invariant.
\<close>

subsection \<open>What a process owns\<close>

text \<open>The caller is process \<open>p\<close>, on a hart with \<open>n\<close> nested interrupt disables, and holds exactly the locks \<open>ls\<close>.\<close>

definition owns :: "nat \<Rightarrow> int \<Rightarrow> lockid set \<Rightarrow> hwstate \<Rightarrow> bool" where
  "owns p n ls h \<longleftrightarrow> c_proc (cpus h (tp h)) = Some p \<and> noff (cpus h (tp h)) = n \<and> 0 \<le> n \<and> (0 < n \<longrightarrow> \<not> sie h (tp h)) \<and>
     (\<forall>l. lk_cpu (locks h l) = Some (tp h) \<longleftrightarrow> l \<in> ls) \<and> (\<forall>l\<in>ls. locked (locks h l) \<noteq> 0)"

lemma ownsD:
  assumes "owns p n ls h"
  shows "c_proc (cpus h (tp h)) = Some p" "noff (cpus h (tp h)) = n" "0 \<le> n" "0 < n \<Longrightarrow> \<not> sie h (tp h)"
    "holding l h \<longleftrightarrow> l \<in> ls" "hw_ok h"
  using assms by (auto simp: owns_def holding_def cpuid_def hw_ok_def)

lemma owns_push: "owns p n ls h \<Longrightarrow> owns p (n + 1) ls (hw_push h)"
  by (auto simp: owns_def)

lemma owns_pop: "owns p (n + 1) ls h \<Longrightarrow> 0 \<le> n \<Longrightarrow> owns p n ls (hw_pop h)"
  by (auto simp: owns_def hw_pop_def)

lemma owns_swap: "owns p n ls h \<Longrightarrow> owns p n ls (set_lock l (\<lambda>x. x\<lparr>locked := 1\<rparr>) h)"
  by (auto simp: owns_def set_lock_def)

lemma holding_swap: "owns p n ls h \<Longrightarrow> holding l' (set_lock l (\<lambda>x. x\<lparr>locked := 1\<rparr>) h) \<longleftrightarrow> l' \<in> ls"
  by (rule ownsD(5)) (rule owns_swap)

lemma owns_take:
  "owns p n ls h \<Longrightarrow> owns p n (insert l ls) (set_lock l (\<lambda>x. x\<lparr>lk_cpu := Some (tp h)\<rparr>) (set_lock l (\<lambda>x. x\<lparr>locked := 1\<rparr>) h))"
  by (auto simp: owns_def set_lock_def)

lemma owns_leave:
  "owns p (n + 1) ls h \<Longrightarrow> 0 \<le> n \<Longrightarrow> owns p n (ls - {l}) (hw_leave l h)"
  by (auto simp: owns_def hw_leave_def hw_pop_def)

lemma owns_intena: "owns p n ls h \<Longrightarrow> owns p n ls (set_mycpu (\<lambda>c. c\<lparr>intena := b\<rparr>) h)"
  by (auto simp: owns_def set_mycpu_def mycpu_def cpuid_def)

lemma release_owns:
  assumes "owns p (n + 1) ls (hw s)" "l \<in> ls" "0 \<le> n"
  shows "release l s = Ret () (s\<lparr>hw := hw_leave l (hw s)\<rparr>)"
  using assms ownsD [OF assms(1)] by (intro release_held) auto

lemma myproc_owns: "owns p n ls (hw s) \<Longrightarrow> myproc s = Ret (Some p) (s\<lparr>hw := hw_touch (hw s)\<rparr>)"
  by (simp add: myproc_eq ownsD(6) ownsD(1))

lemma sched_owns:
  assumes "owns p 1 {ProcLock p} (hw s)" "p_state (procs s p) \<noteq> RUNNING"
  shows "sched s = Wait Switched s (\<lambda>s'. Ret ()
    (s'\<lparr>hw := set_mycpu (\<lambda>c. c\<lparr>intena := intena (mycpu (hw s))\<rparr>) (hw s')\<rparr>))"
proof -
  have "hw_touch (hw s) = hw s" using ownsD(2) [OF assms(1)] by (simp add: hw_touch_def)
  then show ?thesis
    using assms(2) ownsD(2,4) [OF assms(1)] ownsD(5) [OF assms(1), of "ProcLock p"]
    by (simp add: sched_def with_myproc_def myproc_owns [OF assms(1)] get_proc_def swtch_def hw_modify_def mycpu_def cpuid_def intr_get_def)
qed

lemma owns_touch: "owns p n ls h \<Longrightarrow> owns p n ls (hw_touch h)"
  by (auto simp: owns_def hw_touch_def)

subsection \<open>The discipline\<close>

definition keeps :: "nat \<Rightarrow> lockid \<Rightarrow> ('x kproc_scheme \<Rightarrow> 'v) \<Rightarrow> ('v \<Rightarrow> bool) \<Rightarrow> wait_event \<Rightarrow>
    'x kproc_scheme \<Rightarrow> 'x kproc_scheme \<Rightarrow> bool" where
  "keeps p lk view J w s s' \<longleftrightarrow> (\<forall>n ls. owns p n ls (hw s) \<longrightarrow> owns p n ls (hw s')) \<and> p_pid (procs s' p) = p_pid (procs s p) \<and>
     (if holding lk (hw s) then view s' = view s else locked (locks (hw s') lk) = 0 \<longrightarrow> J (view s'))"

lemma keepsD:
  assumes "keeps p lk view J w s s'"
  shows "owns p n ls (hw s) \<Longrightarrow> owns p n ls (hw s')" "p_pid (procs s' p) = p_pid (procs s p)"
    "holding lk (hw s) \<Longrightarrow> view s' = view s" "\<not> holding lk (hw s) \<Longrightarrow> locked (locks (hw s') lk) = 0 \<Longrightarrow> J (view s')"
  using assms by (auto simp: keeps_def)

text \<open>\<open>acquire\<close> in general: \<open>X\<close> holds when the spinning begins and after every round of it.\<close>

lemma spin:
  assumes "X s" and "\<And>s s'. X s \<Longrightarrow> R Spinning (s\<lparr>hw := set_lock l (\<lambda>x. x\<lparr>locked := 1\<rparr>) (hw s)\<rparr>) s' \<Longrightarrow> X s'"
  shows "hoare R (\<lambda>_ s'. \<exists>s0. s' = s0\<lparr>hw := set_lock l (\<lambda>x. x\<lparr>locked := 1\<rparr>) (hw s0)\<rparr> \<and> X s0 \<and> locked (locks (hw s0) l) = 0)
    (test_and_set_loop l s)"
  using assms(1)
proof (coinduction arbitrary: s rule: hoare.coinduct)
  case hoare
  show ?case
  proof (cases "locked (locks (hw s) l) = 0")
    case True
    then show ?thesis
      using hoare by (intro disjI1 exI conjI) (rule test_and_set_free, assumption, rule refl, simp_all)
  next
    case False
    let ?s = "s\<lparr>hw := set_lock l (\<lambda>x. x\<lparr>locked := 1\<rparr>) (hw s)\<rparr>"
    have "X s'" if "R Spinning ?s s'" for s' using assms(2) hoare that .
    moreover have "test_and_set_loop l s = Wait Spinning ?s (test_and_set_loop l)"
      using False by (subst test_and_set_loop.code) simp
    ultimately show ?thesis by (intro disjI2 exI conjI) blast+
  qed
qed

lemma acquire_spin:
  assumes "X (s\<lparr>hw := hw_push (hw s)\<rparr>)" and "\<not> holding l (hw s)"
    and "\<And>s s'. X s \<Longrightarrow> R Spinning (s\<lparr>hw := set_lock l (\<lambda>x. x\<lparr>locked := 1\<rparr>) (hw s)\<rparr>) s' \<Longrightarrow> X s'"
  shows "hoare R (\<lambda>_ s'. \<exists>s0. X s0 \<and> locked (locks (hw s0) l) = 0 \<and>
      s' = s0\<lparr>hw := set_lock l (\<lambda>x. x\<lparr>lk_cpu := Some (tp (hw s0))\<rparr>) (set_lock l (\<lambda>x. x\<lparr>locked := 1\<rparr>) (hw s0))\<rparr>)
    (acquire l s)"
proof -
  have "\<not> holding l (hw_push (hw s))" using assms(2) by (simp add: holding_def cpuid_def)
  then have "acquire l s = tbind (test_and_set_loop l (s\<lparr>hw := hw_push (hw s)\<rparr>))
      (\<lambda>_. kbind (gets (\<lambda>s. cpuid (hw s))) (\<lambda>c. hw_modify (set_lock l (\<lambda>x. x\<lparr>lk_cpu := Some c\<rparr>))))"
    by (simp add: acquire_def push_off_eq)
  moreover have "hoare R (\<lambda>_ s'. \<exists>s0. X s0 \<and> locked (locks (hw s0) l) = 0 \<and>
      s' = s0\<lparr>hw := set_lock l (\<lambda>x. x\<lparr>lk_cpu := Some (tp (hw s0))\<rparr>) (set_lock l (\<lambda>x. x\<lparr>locked := 1\<rparr>) (hw s0))\<rparr>) \<dots>"
    by (rule hoare_tbind [OF spin [where X = X, OF assms(1,3)]])
      (auto simp: hw_modify_def cpuid_def set_lock_def)
  ultimately show ?thesis by simp
qed

locale monitor =
  fixes lk :: lockid and view :: "'x kproc_scheme \<Rightarrow> 'v" and J :: "'v \<Rightarrow> bool"
  assumes view_hw [simp]: "view (s\<lparr>hw := h\<rparr>) = view s"
    and view_procs [simp]: "view (s\<lparr>procs := ps\<rparr>) = view s"
    and lk_not_proc [simp]: "lk \<noteq> ProcLock p"
begin

lemma proc_not_lk [simp]: "ProcLock p \<noteq> lk"
  using lk_not_proc by metis

text \<open>The invariant holds whenever the lock is free.\<close>

definition ready :: "'x kproc_scheme \<Rightarrow> bool" where
  "ready s \<longleftrightarrow> (locked (locks (hw s) lk) = 0 \<longrightarrow> J (view s))"

lemma acquire_own:
  assumes "owns p n ls (hw s)" "lk \<notin> ls" "ready s"
  shows "hoare (keeps p lk view J)
    (\<lambda>_ s'. owns p (n + 1) (insert lk ls) (hw s') \<and> J (view s') \<and> p_pid (procs s' p) = p_pid (procs s p)) (acquire lk s)"
proof (rule hoare_mono [OF acquire_spin [where X = "\<lambda>s'. owns p (n + 1) ls (hw s') \<and> ready s' \<and> p_pid (procs s' p) = p_pid (procs s p)"]])
  show "owns p (n + 1) ls (hw (s\<lparr>hw := hw_push (hw s)\<rparr>)) \<and> ready (s\<lparr>hw := hw_push (hw s)\<rparr>) \<and>
      p_pid (procs (s\<lparr>hw := hw_push (hw s)\<rparr>) p) = p_pid (procs s p)"
    using assms by (simp add: owns_push ready_def)
  show "\<not> holding lk (hw s)" using assms(2) ownsD(5) [OF assms(1)] by simp
  fix s1 s2
  assume 1: "owns p (n + 1) ls (hw s1) \<and> ready s1 \<and> p_pid (procs s1 p) = p_pid (procs s p)"
    and 2: "keeps p lk view J Spinning (s1\<lparr>hw := set_lock lk (\<lambda>x. x\<lparr>locked := 1\<rparr>) (hw s1)\<rparr>) s2"
  show "owns p (n + 1) ls (hw s2) \<and> ready s2 \<and> p_pid (procs s2 p) = p_pid (procs s p)"
    using keepsD(1) [OF 2, of "n + 1" ls] keepsD(2-4) [OF 2] 1 holding_swap [of p "n + 1" ls "hw s1" lk lk] assms(2)
    by (simp add: ready_def owns_swap)
qed (auto simp: ready_def intro: owns_take)

lemma acquire_other:
  assumes "owns p n ls (hw s)" "lk \<in> ls" "l \<notin> ls"
  shows "hoare (keeps p lk view J)
    (\<lambda>_ s'. owns p (n + 1) (insert l ls) (hw s') \<and> view s' = view s \<and> p_pid (procs s' p) = p_pid (procs s p))
    (acquire l s)"
proof (rule hoare_mono [OF acquire_spin [where X = "\<lambda>s'. owns p (n + 1) ls (hw s') \<and> view s' = view s \<and> p_pid (procs s' p) = p_pid (procs s p)"]])
  show "owns p (n + 1) ls (hw (s\<lparr>hw := hw_push (hw s)\<rparr>)) \<and> view (s\<lparr>hw := hw_push (hw s)\<rparr>) = view s \<and>
      p_pid (procs (s\<lparr>hw := hw_push (hw s)\<rparr>) p) = p_pid (procs s p)"
    using assms by (simp add: owns_push)
  show "\<not> holding l (hw s)" using assms(3) ownsD(5) [OF assms(1)] by simp
  fix s1 s2
  assume 1: "owns p (n + 1) ls (hw s1) \<and> view s1 = view s \<and> p_pid (procs s1 p) = p_pid (procs s p)"
    and 2: "keeps p lk view J Spinning (s1\<lparr>hw := set_lock l (\<lambda>x. x\<lparr>locked := 1\<rparr>) (hw s1)\<rparr>) s2"
  show "owns p (n + 1) ls (hw s2) \<and> view s2 = view s \<and> p_pid (procs s2 p) = p_pid (procs s p)"
    using keepsD(1) [OF 2, of "n + 1" ls] keepsD(2-4) [OF 2] 1 holding_swap [of p "n + 1" ls "hw s1" lk l] assms(2)
    by (simp add: owns_swap)
qed (auto intro: owns_take)

text \<open>\<open>sleep\<close> from the release of the lock on.\<close>

lemma sleep_switch_own:
  assumes "owns p 2 {ProcLock p, lk} (hw s)" "J (view s)"
  shows "hoare (keeps p lk view J)
    (\<lambda>_ s'. owns p 1 {lk} (hw s') \<and> J (view s') \<and> p_pid (procs s' p) = p_pid (procs s p))
    (kseq (release lk)
     (kseq (upd_proc p (\<lambda>x. x\<lparr>p_chan := Some ch\<rparr>))
     (kseq (upd_proc p (\<lambda>x. x\<lparr>p_state := SLEEPING\<rparr>))
     (kseq sched
     (kseq (upd_proc p (\<lambda>x. x\<lparr>p_chan := None\<rparr>))
     (kseq (release (ProcLock p))
     (acquire lk)))))) s)"
proof -
  let ?s1 = "s\<lparr>hw := hw_leave lk (hw s), procs := (procs s)(p := (procs s p)\<lparr>p_chan := Some ch, p_state := SLEEPING\<rparr>)\<rparr>"
  have o1: "owns p 1 {ProcLock p} (hw ?s1)" using owns_leave [of p 1 "{ProcLock p, lk}" "hw s" lk] assms(1) by (simp add: insert_Diff_if)
  have "hoare (keeps p lk view J) (\<lambda>_ s'. owns p 1 {lk} (hw s') \<and> J (view s') \<and> p_pid (procs s' p) = p_pid (procs s p))
      (tbind (Ret () (s2\<lparr>hw := set_mycpu (\<lambda>c. c\<lparr>intena := b\<rparr>) (hw s2)\<rparr>)) (\<lambda>_. kseq (upd_proc p (\<lambda>x. x\<lparr>p_chan := None\<rparr>))
       (kseq (release (ProcLock p)) (acquire lk))))"
    if k: "keeps p lk view J Switched ?s1 s2" for s2 b
  proof -
    let ?s3 = "s2\<lparr>hw := set_mycpu (\<lambda>c. c\<lparr>intena := b\<rparr>) (hw s2), procs := (procs s2)(p := (procs s2 p)\<lparr>p_chan := None\<rparr>)\<rparr>"
    let ?s4 = "?s3\<lparr>hw := hw_leave (ProcLock p) (hw ?s3)\<rparr>"
    have o3: "owns p (0 + 1) {ProcLock p} (hw ?s3)" using keepsD(1) [OF k o1] by (simp add: owns_intena)
    have "ready ?s3"
      using keepsD(4) [OF k] ownsD(5) [OF o1] by (simp add: ready_def set_mycpu_def)
    then have "ready ?s4" by (simp add: ready_def hw_leave_def hw_pop_def)
    moreover have "owns p 0 {} (hw ?s4)" using owns_leave [OF o3, of "ProcLock p"] by simp
    moreover have "p_pid (procs ?s4 p) = p_pid (procs s p)" using keepsD(2) [OF k] by simp
    ultimately have "hoare (keeps p lk view J) (\<lambda>_ s'. owns p 1 {lk} (hw s') \<and> J (view s') \<and> p_pid (procs s' p) = p_pid (procs s p)) (acquire lk ?s4)"
      using acquire_own [of p 0 "{}" ?s4] by simp
    moreover have "release (ProcLock p) ?s3 = Ret () ?s4" using release_owns [OF o3] by simp
    ultimately show ?thesis by (simp add: upd_proc_def)
  qed
  moreover have "release lk s = Ret () (s\<lparr>hw := hw_leave lk (hw s)\<rparr>)" using release_owns [of p 1 "{ProcLock p, lk}" s lk] assms(1) by simp
  ultimately show ?thesis using sched_owns [OF o1] by (simp add: upd_proc_def)
qed

lemma sleep_own:
  assumes "owns p 1 {lk} (hw s)" "J (view s)"
  shows "hoare (keeps p lk view J)
    (\<lambda>_ s'. owns p 1 {lk} (hw s') \<and> J (view s') \<and> p_pid (procs s' p) = p_pid (procs s p)) (sleep ch lk s)"
proof -
  let ?s1 = "s\<lparr>hw := hw_touch (hw s)\<rparr>"
  have 1: "owns p 1 {lk} (hw ?s1)" using assms(1) by (simp add: owns_touch)
  have "sleep ch lk s = tbind (acquire (ProcLock p) ?s1) (\<lambda>_. kseq (release lk)
     (kseq (upd_proc p (\<lambda>x. x\<lparr>p_chan := Some ch\<rparr>))
     (kseq (upd_proc p (\<lambda>x. x\<lparr>p_state := SLEEPING\<rparr>))
     (kseq sched
     (kseq (upd_proc p (\<lambda>x. x\<lparr>p_chan := None\<rparr>))
     (kseq (release (ProcLock p))
     (acquire lk)))))))"
    by (simp add: sleep_def with_myproc_def myproc_owns [OF assms(1)])
  moreover have "hoare (keeps p lk view J)
    (\<lambda>_ s'. owns p 1 {lk} (hw s') \<and> J (view s') \<and> p_pid (procs s' p) = p_pid (procs s p)) \<dots>"
    by (rule hoare_tbind [OF acquire_other [OF 1]])
      (use assms(2) in \<open>auto intro!: hoare_mono [OF sleep_switch_own] simp del: kseq_def\<close>)
  ultimately show ?thesis by simp
qed

lemma sleep_waits:
  assumes "owns p 1 {lk} (hw s)" "J (view s)"
  shows "sleep ch lk s \<noteq> Ret a s'"
proof
  assume e: "sleep ch lk s = Ret a s'"
  let ?s1 = "s\<lparr>hw := hw_touch (hw s)\<rparr>"
  have 1: "owns p 1 {lk} (hw ?s1)" using assms(1) by (simp add: owns_touch)
  obtain s2 where 2: "acquire (ProcLock p) ?s1 = Ret () s2" and r: "kseq (release lk) (kseq (upd_proc p (\<lambda>x. x\<lparr>p_chan := Some ch\<rparr>))
     (kseq (upd_proc p (\<lambda>x. x\<lparr>p_state := SLEEPING\<rparr>)) (kseq sched (kseq (upd_proc p (\<lambda>x. x\<lparr>p_chan := None\<rparr>))
     (kseq (release (ProcLock p)) (acquire lk)))))) s2 = Ret a s'"
    using e by (auto simp: sleep_def with_myproc_def myproc_owns [OF assms(1)] tbind_Ret_iff)
  have o2: "owns p 2 {ProcLock p, lk} (hw s2)" using acquire_other [OF 1, of "ProcLock p"] unfolding 2 by simp
  let ?s3 = "s2\<lparr>hw := hw_leave lk (hw s2), procs := (procs s2)(p := (procs s2 p)\<lparr>p_chan := Some ch, p_state := SLEEPING\<rparr>)\<rparr>"
  have "owns p 1 {ProcLock p} (hw ?s3)"
    using owns_leave [of p 1 "{ProcLock p, lk}" "hw s2" lk] o2 by (simp add: insert_Diff_if)
  moreover have "release lk s2 = Ret () (s2\<lparr>hw := hw_leave lk (hw s2)\<rparr>)" using release_owns [of p 1 "{ProcLock p, lk}" s2 lk] o2 by simp
  ultimately show False using r sched_owns [of p ?s3] by (simp add: upd_proc_def)
qed

text \<open>A loop that sleeps until its rounds find what they wait for.\<close>

lemma wait_loop_own:
  assumes "owns p 1 {lk} (hw s)" "J (view s)"
    and "\<And>s1. owns p 1 {lk} (hw s1) \<Longrightarrow> J (view s1) \<Longrightarrow> p_pid (procs s1 p) = p_pid (procs s p) \<Longrightarrow>
      (\<exists>ch. body s1 = kseq (sleep ch lk) (kret None) s1) \<or> hoare (keeps p lk view J) (\<lambda>r s'. \<exists>a. r = Some a \<and> Q a s') (body s1)"
  shows "hoare (keeps p lk view J) Q (kloop body s)"
proof (rule hoare_kloop [where m = "\<lambda>_. 0" and
    I = "\<lambda>s1. owns p 1 {lk} (hw s1) \<and> J (view s1) \<and> p_pid (procs s1 p) = p_pid (procs s p)"])
  fix s1
  assume i: "owns p 1 {lk} (hw s1) \<and> J (view s1) \<and> p_pid (procs s1 p) = p_pid (procs s p)"
  show "hoare (keeps p lk view J) (\<lambda>r s'. case r of None \<Rightarrow> owns p 1 {lk} (hw s') \<and> J (view s') \<and> p_pid (procs s' p) = p_pid (procs s p)
      | Some a \<Rightarrow> Q a s') (body s1)"
    using assms(3) [of s1] i by (auto intro!: hoare_tbind [OF sleep_own] elim: hoare_mono)
  show "(0 :: nat) < 0" if "body s1 = Ret None s'" for s'
    using assms(3) [of s1] i that sleep_waits [of p s1] by (auto simp: tbind_Ret_iff eq_commute [of "Ret None s'"])
qed (use assms(1,2) in auto)

lemma release_other:
  assumes "owns p (n + 1) ls (hw s)" "l \<in> ls" "0 \<le> n" "lk \<in> ls" "l \<noteq> lk"
  shows "\<exists>s'. release l s = Ret () s' \<and> owns p n (ls - {l}) (hw s') \<and> view s' = view s \<and> procs s' = procs s"
  using release_owns [OF assms(1-3)] owns_leave [OF assms(1,3), of l] by simp

lemma wakeup_own:
  assumes "owns p 1 {lk} (hw s)"
  shows "hoare (keeps p lk view J)
    (\<lambda>_ s'. owns p 1 {lk} (hw s') \<and> view s' = view s \<and> p_pid (procs s' p) = p_pid (procs s p)) (wakeup ch s)"
proof -
  let ?I = "\<lambda>s'. owns p 1 {lk} (hw s') \<and> view s' = view s \<and> p_pid (procs s' p) = p_pid (procs s p)"
  let ?f = "\<lambda>x. if p_state x = SLEEPING \<and> p_chan x = Some ch then x\<lparr>p_state := RUNNABLE\<rparr> else x"
  define slot :: "nat \<Rightarrow> ('x kproc_scheme, unit) kfun" where "slot q = kseq (acquire (ProcLock q)) (kseq (upd_proc q ?f) (release (ProcLock q)))" for q
  have slot: "hoare (keeps p lk view J) (\<lambda>_. ?I) (slot q s1)" if "?I s1" for s1 q
    unfolding slot_def kseq_def
  proof (rule hoare_tbind [OF acquire_other [of p 1 "{lk}"]])
    fix a s2
    assume a: "owns p (1 + 1) (insert (ProcLock q) {lk}) (hw s2) \<and> view s2 = view s1 \<and> p_pid (procs s2 p) = p_pid (procs s1 p)"
    let ?s3 = "s2\<lparr>procs := (procs s2)(q := ?f (procs s2 q))\<rparr>"
    obtain s4 where "release (ProcLock q) ?s3 = Ret () s4" "owns p 1 {lk} (hw s4)" "view s4 = view ?s3" "procs s4 = procs ?s3"
      using release_other [of p 1 "{ProcLock q, lk}" ?s3 "ProcLock q"] a by (auto simp: insert_Diff_if)
    then show "hoare (keeps p lk view J) (\<lambda>_. ?I) (tbind (upd_proc q ?f s2) (\<lambda>_. release (ProcLock q)))"
      using a that by (cases "p = q") (auto simp: upd_proc_def)
  qed (use that in simp_all)
  define body where "body q = kbind myproc (\<lambda>me. kwhen (Some q \<noteq> me) (slot q))" for q
  have "hoare (keeps p lk view J) (\<lambda>_. ?I) (for_each qs body s1)" if "?I s1" for qs s1
    using that
  proof (induction qs arbitrary: s1)
    case (Cons q qs)
    let ?s2 = "s1\<lparr>hw := hw_touch (hw s1)\<rparr>"
    have i: "?I ?s2" using Cons.prems by (simp add: owns_touch)
    have "myproc s1 = Ret (Some p) ?s2" using Cons.prems myproc_owns by blast
    then have "body q s1 = (if q = p then Ret () ?s2 else slot q ?s2)" by (simp add: body_def)
    then show ?case
      using Cons.IH [OF i] by (cases "q = p") (auto intro!: hoare_tbind [OF slot [OF i]] Cons.IH)
  qed simp
  moreover have "wakeup ch = for_each [0..<NPROC] body" by (simp only: wakeup_def body_def [abs_def] slot_def)
  ultimately show ?thesis using assms by simp
qed

end

lemma three_procs_owns: "owns 0 0 {} (hw three_procs)"
  by (simp add: owns_def three_procs_def boot_hw_def)

end
