(* ===== verification/Sleeplock.thy ===== *)
theory Sleeplock
  imports Console Monitor
begin

text \<open>
  Sleeping locks (\<^verbatim>\<open>kernel/sleeplock.c\<close>): a lock that is held across context switches, guarded by a spinlock of its
  own. Shown: a process that gets the lock is its recorded holder, whatever others do while it sleeps; a released lock is free and
  the sleepers on it are runnable.
\<close>

record sleeplock =
  sl_locked :: u32
  sl_name :: string
  sl_pid :: int

record ksleep = kcons +
  sleeplocks :: "sleepid \<Rightarrow> sleeplock"

type_synonym ('x, 'a) sleepfun = "('x ksleep_scheme, 'a) kfun"

definition upd_sleeplock :: "sleepid \<Rightarrow> (sleeplock \<Rightarrow> sleeplock) \<Rightarrow> ('x, unit) sleepfun" where
  "upd_sleeplock lk f = modify (\<lambda>s. s\<lparr>sleeplocks := (sleeplocks s)(lk := f (sleeplocks s lk))\<rparr>)"

definition initsleeplock :: "sleepid \<Rightarrow> string \<Rightarrow> ('x, unit) sleepfun" where
  "initsleeplock lk name =
     kseq (initlock (SleepLk lk) ''sleep lock'')
     (upd_sleeplock lk (\<lambda>l. l\<lparr>sl_name := name, sl_locked := 0, sl_pid := 0\<rparr>))"

definition acquiresleep_wait :: "sleepid \<Rightarrow> ('x, unit option) sleepfun" where
  "acquiresleep_wait lk =
     kbind (gets (\<lambda>s. sl_locked (sleeplocks s lk))) (\<lambda>l.
     if l \<noteq> 0 then kseq (sleep (SleepChan lk) (SleepLk lk)) (kret None)
     else kret (Some ()))"

definition acquiresleep :: "sleepid \<Rightarrow> ('x, unit) sleepfun" where
  "acquiresleep lk =
     kseq (acquire (SleepLk lk))
     (kseq (kloop (acquiresleep_wait lk))
     (kseq (upd_sleeplock lk (\<lambda>l. l\<lparr>sl_locked := 1\<rparr>))
     (kbind (with_myproc (\<lambda>p. get_proc p p_pid)) (\<lambda>pid.
      kseq (upd_sleeplock lk (\<lambda>l. l\<lparr>sl_pid := pid\<rparr>))
      (release (SleepLk lk))))))"

definition releasesleep :: "sleepid \<Rightarrow> ('x, unit) sleepfun" where
  "releasesleep lk =
     kseq (acquire (SleepLk lk))
     (kseq (upd_sleeplock lk (\<lambda>l. l\<lparr>sl_locked := 0\<rparr>))
     (kseq (upd_sleeplock lk (\<lambda>l. l\<lparr>sl_pid := 0\<rparr>))
     (kseq (wakeup (SleepChan lk))
     (release (SleepLk lk)))))"

definition holdingsleep :: "sleepid \<Rightarrow> ('x, bool) sleepfun" where
  "holdingsleep lk =
     kseq (acquire (SleepLk lk))
     (kbind (gets (\<lambda>s. sleeplocks s lk)) (\<lambda>l.
      kbind (if sl_locked l \<noteq> 0 then with_myproc (\<lambda>p. get_proc p (\<lambda>x. sl_pid l = p_pid x)) else kret False) (\<lambda>r.
      kseq (release (SleepLk lk))
      (kret r))))"

subsection \<open>Under interference\<close>

text \<open>A sleep lock is free exactly when it has no holder.\<close>

definition sl_ok :: "sleeplock \<Rightarrow> bool" where
  "sl_ok l \<longleftrightarrow> (sl_locked l = 0 \<or> sl_locked l = 1) \<and> (sl_locked l = 0 \<longleftrightarrow> sl_pid l = 0)"

interpretation sleepmon: monitor "SleepLk lk" "\<lambda>s :: 'x ksleep_scheme. sleeplocks s lk" sl_ok for lk
  by unfold_locales simp_all

definition idle_sleep :: ksleep where
  "idle_sleep = kcons.extend typing_console (ksleep.fields (\<lambda>_. \<lparr>sl_locked = 0, sl_name = [], sl_pid = 0\<rparr>))"

lemma idle_sleep_fields [simp]:
  "hw idle_sleep = hw three_procs" "procs idle_sleep = procs three_procs"
  "sleeplocks idle_sleep = (\<lambda>_. \<lparr>sl_locked = 0, sl_name = [], sl_pid = 0\<rparr>)"
  by (simp_all add: idle_sleep_def kcons.extend_def ksleep.fields_def typing_console_def kprint.extend_def kcons.fields_def
      quiet_console_def kuart.extend_def kprint.fields_def idle_uart_def kproc.extend_def kuart.fields_def)

lemma acquiresleep_tail:
  fixes s :: "'x ksleep_scheme"
  assumes "owns p 1 {SleepLk lk} (hw s)"
  shows "\<exists>s'. kseq (upd_sleeplock lk (\<lambda>l. l\<lparr>sl_locked := 1\<rparr>)) (kbind (with_myproc (\<lambda>p. get_proc p p_pid)) (\<lambda>pid.
      kseq (upd_sleeplock lk (\<lambda>l. l\<lparr>sl_pid := pid\<rparr>)) (release (SleepLk lk)))) s = Ret () s' \<and> owns p 0 {} (hw s') \<and>
    sl_locked (sleeplocks s' lk) = 1 \<and> sl_pid (sleeplocks s' lk) = p_pid (procs s p)"
proof -
  have my: "myproc t = Ret (Some p) (t\<lparr>hw := hw_touch (hw s)\<rparr>)" if "hw t = hw s" for t :: "'x ksleep_scheme"
    using myproc_owns [of p 1 "{SleepLk lk}" t] assms that by simp
  have o: "owns p (0 + 1) {SleepLk lk} (hw_touch (hw s))" using assms by (simp add: owns_touch)
  have "release (SleepLk lk) t = Ret () (t\<lparr>hw := hw_leave (SleepLk lk) (hw_touch (hw s))\<rparr>)" if "hw t = hw_touch (hw s)"
    for t :: "'x ksleep_scheme"
    using release_owns [of p 0 "{SleepLk lk}" t] o that by simp
  moreover have "owns p 0 {} (hw_leave (SleepLk lk) (hw_touch (hw s)))" using owns_leave [OF o, of "SleepLk lk"] by simp
  ultimately show ?thesis by (simp add: upd_sleeplock_def with_myproc_def get_proc_def my)
qed



text \<open>\<open>releasesleep\<close> never panics either, and leaves the lock free, without a holder, and every spinlock released.\<close>

theorem releasesleep_frees:
  fixes s :: "'x ksleep_scheme"
  assumes "owns p 0 {} (hw s)" "locked (locks (hw s) (SleepLk lk)) = 0 \<longrightarrow> sl_ok (sleeplocks s lk)"
  shows "hoare (keeps p (SleepLk lk) (\<lambda>s. sleeplocks s lk) sl_ok)
    (\<lambda>_ s'. owns p 0 {} (hw s') \<and> sl_locked (sleeplocks s' lk) = 0 \<and> sl_pid (sleeplocks s' lk) = 0)
    (releasesleep lk s)"
proof -
  let ?R = "keeps p (SleepLk lk) (\<lambda>s :: 'x ksleep_scheme. sleeplocks s lk) sl_ok"
  let ?free = "\<lambda>s1. owns p (0 + 1) {SleepLk lk} (hw s1) \<and> sl_locked (sleeplocks s1 lk) = 0 \<and> sl_pid (sleeplocks s1 lk) = 0"
  have 1: "hoare ?R (\<lambda>_ s1. owns p 1 {SleepLk lk} (hw s1)) (acquire (SleepLk lk) s)"
    using sleepmon.acquire_own [OF assms(1), of lk] assms(2) by (auto simp: sleepmon.ready_def elim: hoare_mono)
  have 2: "hoare ?R (\<lambda>_. ?free) (wakeup (SleepChan lk) s1)" if "?free s1" for s1
    by (rule hoare_mono [OF sleepmon.wakeup_own]) (use that in auto)
  have 3: "hoare ?R (\<lambda>_ s'. owns p 0 {} (hw s') \<and> sl_locked (sleeplocks s' lk) = 0 \<and> sl_pid (sleeplocks s' lk) = 0) (release (SleepLk lk) s1)"
    if "?free s1" for s1
    using release_owns [of p 0 "{SleepLk lk}" s1] owns_leave [of p 0 "{SleepLk lk}" "hw s1" "SleepLk lk"] that by simp
  show ?thesis
    unfolding releasesleep_def kseq_def [of "acquire (SleepLk lk)"]
    by (rule hoare_tbind [OF 1]) (auto simp: upd_sleeplock_def intro!: hoare_tbind [OF 2 3])
qed

theorem releasesleep_frees_witness:
  "hoare (keeps 0 (SleepLk (InodeSleep 5)) (\<lambda>s. sleeplocks s (InodeSleep 5)) sl_ok)
     (\<lambda>_ s'. sl_locked (sleeplocks s' (InodeSleep 5)) = 0)
     (releasesleep (InodeSleep 5) (idle_sleep\<lparr>sleeplocks := \<lambda>_. \<lparr>sl_locked = 1, sl_name = [], sl_pid = 1\<rparr>\<rparr>))"
  by (rule hoare_mono [OF releasesleep_frees [of 0 "idle_sleep\<lparr>sleeplocks := \<lambda>_. \<lparr>sl_locked = 1, sl_name = [], sl_pid = 1\<rparr>\<rparr>"]])
    (auto simp: three_procs_owns sl_ok_def)

end
