(* ===== verification/Virtio.thy ===== *)
theory Virtio
  imports Sleeplock
begin

text \<open>
  The disk driver (\<^verbatim>\<open>kernel/virtio_disk.c\<close>, \<^verbatim>\<open>kernel/virtio.h\<close>) and the buffers it transfers (\<^verbatim>\<open>kernel/buf.h\<close>).

  The descriptor table and the two rings live in three pages of \<open>kalloc\<close>; their contents are kept as typed fields of
  the driver's record. A descriptor's address names a request header, a buffer or a status byte. The memory-mapped
  registers hold what was last stored in them. The device, which fills \<open>used\<close>, the status bytes and the buffers while
  the driver sleeps, is the other side of the waiting points; \<open>media\<close> is what is on the disk, which only the device touches.
\<close>

subsection \<open>Buffers\<close>

definition BSIZE :: nat where "BSIZE = 1024"

record buf =
  b_valid :: int
  b_disk :: int
  b_dev :: u32
  b_blockno :: u32
  b_refcnt :: u32
  b_prev :: nat
  b_next :: nat
  b_data :: memory

subsection \<open>Registers and descriptors\<close>

definition VIRTIO_MMIO_MAGIC_VALUE :: nat where "VIRTIO_MMIO_MAGIC_VALUE = 0x000"
definition VIRTIO_MMIO_VERSION :: nat where "VIRTIO_MMIO_VERSION = 0x004"
definition VIRTIO_MMIO_DEVICE_ID :: nat where "VIRTIO_MMIO_DEVICE_ID = 0x008"
definition VIRTIO_MMIO_VENDOR_ID :: nat where "VIRTIO_MMIO_VENDOR_ID = 0x00c"
definition VIRTIO_MMIO_DEVICE_FEATURES :: nat where "VIRTIO_MMIO_DEVICE_FEATURES = 0x010"
definition VIRTIO_MMIO_DRIVER_FEATURES :: nat where "VIRTIO_MMIO_DRIVER_FEATURES = 0x020"
definition VIRTIO_MMIO_QUEUE_SEL :: nat where "VIRTIO_MMIO_QUEUE_SEL = 0x030"
definition VIRTIO_MMIO_QUEUE_NUM_MAX :: nat where "VIRTIO_MMIO_QUEUE_NUM_MAX = 0x034"
definition VIRTIO_MMIO_QUEUE_NUM :: nat where "VIRTIO_MMIO_QUEUE_NUM = 0x038"
definition VIRTIO_MMIO_QUEUE_READY :: nat where "VIRTIO_MMIO_QUEUE_READY = 0x044"
definition VIRTIO_MMIO_QUEUE_NOTIFY :: nat where "VIRTIO_MMIO_QUEUE_NOTIFY = 0x050"
definition VIRTIO_MMIO_INTERRUPT_STATUS :: nat where "VIRTIO_MMIO_INTERRUPT_STATUS = 0x060"
definition VIRTIO_MMIO_INTERRUPT_ACK :: nat where "VIRTIO_MMIO_INTERRUPT_ACK = 0x064"
definition VIRTIO_MMIO_STATUS :: nat where "VIRTIO_MMIO_STATUS = 0x070"
definition VIRTIO_MMIO_QUEUE_DESC_LOW :: nat where "VIRTIO_MMIO_QUEUE_DESC_LOW = 0x080"
definition VIRTIO_MMIO_QUEUE_DESC_HIGH :: nat where "VIRTIO_MMIO_QUEUE_DESC_HIGH = 0x084"
definition VIRTIO_MMIO_DRIVER_DESC_LOW :: nat where "VIRTIO_MMIO_DRIVER_DESC_LOW = 0x090"
definition VIRTIO_MMIO_DRIVER_DESC_HIGH :: nat where "VIRTIO_MMIO_DRIVER_DESC_HIGH = 0x094"
definition VIRTIO_MMIO_DEVICE_DESC_LOW :: nat where "VIRTIO_MMIO_DEVICE_DESC_LOW = 0x0a0"
definition VIRTIO_MMIO_DEVICE_DESC_HIGH :: nat where "VIRTIO_MMIO_DEVICE_DESC_HIGH = 0x0a4"

definition VIRTIO_CONFIG_S_ACKNOWLEDGE :: u32 where "VIRTIO_CONFIG_S_ACKNOWLEDGE = 1"
definition VIRTIO_CONFIG_S_DRIVER :: u32 where "VIRTIO_CONFIG_S_DRIVER = 2"
definition VIRTIO_CONFIG_S_DRIVER_OK :: u32 where "VIRTIO_CONFIG_S_DRIVER_OK = 4"
definition VIRTIO_CONFIG_S_FEATURES_OK :: u32 where "VIRTIO_CONFIG_S_FEATURES_OK = 8"

definition VIRTIO_BLK_F_RO :: nat where "VIRTIO_BLK_F_RO = 5"
definition VIRTIO_BLK_F_SCSI :: nat where "VIRTIO_BLK_F_SCSI = 7"
definition VIRTIO_BLK_F_CONFIG_WCE :: nat where "VIRTIO_BLK_F_CONFIG_WCE = 11"
definition VIRTIO_BLK_F_MQ :: nat where "VIRTIO_BLK_F_MQ = 12"
definition VIRTIO_F_ANY_LAYOUT :: nat where "VIRTIO_F_ANY_LAYOUT = 27"
definition VIRTIO_RING_F_INDIRECT_DESC :: nat where "VIRTIO_RING_F_INDIRECT_DESC = 28"
definition VIRTIO_RING_F_EVENT_IDX :: nat where "VIRTIO_RING_F_EVENT_IDX = 29"

definition NUM :: nat where "NUM = 8"
definition VRING_DESC_F_NEXT :: u16 where "VRING_DESC_F_NEXT = 1"
definition VRING_DESC_F_WRITE :: u16 where "VRING_DESC_F_WRITE = 2"
definition VIRTIO_BLK_T_IN :: u32 where "VIRTIO_BLK_T_IN = 0"
definition VIRTIO_BLK_T_OUT :: u32 where "VIRTIO_BLK_T_OUT = 1"

datatype daddr = NullAddr | OpsAddr nat | BufData nat | StatusAddr nat

record virtq_desc =
  d_addr :: daddr
  d_len :: u32
  d_flags :: u16
  d_next :: u16

record virtio_blk_req =
  req_type :: u32
  req_reserved :: u32
  req_sector :: u64

record disk_state =
  desc_page :: u64
  avail_page :: u64
  used_page :: u64
  dsc :: "nat \<Rightarrow> virtq_desc"
  avail_idx :: u16
  avail_ring :: "nat \<Rightarrow> u16"
  used_ring_idx :: u16
  used_ring :: "nat \<Rightarrow> u32"
  dfree :: "nat \<Rightarrow> bool"
  used_idx :: u16
  info_b :: "nat \<Rightarrow> nat option"
  info_status :: "nat \<Rightarrow> u8"
  ops :: "nat \<Rightarrow> virtio_blk_req"
  vregs :: "nat \<Rightarrow> u32"
  media :: "u32 \<Rightarrow> memory"

record kdisk = ksleep +
  bufs :: "nat \<Rightarrow> buf"
  disk :: disk_state

type_synonym ('x, 'a) diskfun = "('x kdisk_scheme, 'a) kfun"

definition upd_buf :: "nat \<Rightarrow> (buf \<Rightarrow> buf) \<Rightarrow> ('x, unit) diskfun" where
  "upd_buf b f = modify (\<lambda>s. s\<lparr>bufs := (bufs s)(b := f (bufs s b))\<rparr>)"

definition upd_disk :: "(disk_state \<Rightarrow> disk_state) \<Rightarrow> ('x, unit) diskfun" where
  "upd_disk f = modify (\<lambda>s. s\<lparr>disk := f (disk s)\<rparr>)"

definition upd_desc :: "nat \<Rightarrow> (virtq_desc \<Rightarrow> virtq_desc) \<Rightarrow> ('x, unit) diskfun" where
  "upd_desc i f = upd_disk (\<lambda>d. d\<lparr>dsc := (dsc d)(i := f (dsc d i))\<rparr>)"

definition read_vreg :: "nat \<Rightarrow> ('x, u32) diskfun" where
  "read_vreg r = gets (\<lambda>s. vregs (disk s) r)"

definition write_vreg :: "nat \<Rightarrow> u32 \<Rightarrow> ('x, unit) diskfun" where
  "write_vreg r v = upd_disk (\<lambda>d. d\<lparr>vregs := (vregs d)(r := v)\<rparr>)"

subsection \<open>Initialisation\<close>

definition clear_feature :: "nat \<Rightarrow> u64 \<Rightarrow> u64" where
  "clear_feature n f = f AND NOT (push_bit n 1)"

definition driver_features :: "u32 \<Rightarrow> u32" where
  "driver_features f = ucast
     (clear_feature VIRTIO_RING_F_INDIRECT_DESC
     (clear_feature VIRTIO_RING_F_EVENT_IDX
     (clear_feature VIRTIO_F_ANY_LAYOUT
     (clear_feature VIRTIO_BLK_F_MQ
     (clear_feature VIRTIO_BLK_F_CONFIG_WCE
     (clear_feature VIRTIO_BLK_F_SCSI
     (clear_feature VIRTIO_BLK_F_RO (ucast f))))))))"

text \<open>The part up to the allocation of the queue memory, which returns the status written so far.\<close>

definition virtio_disk_probe :: "('x, u32) diskfun" where
  "virtio_disk_probe =
     kbind (read_vreg VIRTIO_MMIO_MAGIC_VALUE) (\<lambda>magic.
     kbind (read_vreg VIRTIO_MMIO_VERSION) (\<lambda>version.
     kbind (read_vreg VIRTIO_MMIO_DEVICE_ID) (\<lambda>device.
     kbind (read_vreg VIRTIO_MMIO_VENDOR_ID) (\<lambda>vendor.
     if magic \<noteq> 0x74726976 \<or> version \<noteq> 2 \<or> device \<noteq> 2 \<or> vendor \<noteq> 0x554d4551
     then panic ''could not find virtio disk''
     else
       let st1 = VIRTIO_CONFIG_S_ACKNOWLEDGE; st2 = st1 OR VIRTIO_CONFIG_S_DRIVER;
           st3 = st2 OR VIRTIO_CONFIG_S_FEATURES_OK in
       kseq (write_vreg VIRTIO_MMIO_STATUS 0)
       (kseq (write_vreg VIRTIO_MMIO_STATUS st1)
       (kseq (write_vreg VIRTIO_MMIO_STATUS st2)
       (kbind (read_vreg VIRTIO_MMIO_DEVICE_FEATURES) (\<lambda>features.
        kseq (write_vreg VIRTIO_MMIO_DRIVER_FEATURES (driver_features features))
        (kseq (write_vreg VIRTIO_MMIO_STATUS st3)
        (kbind (read_vreg VIRTIO_MMIO_STATUS) (\<lambda>status.
         if status AND VIRTIO_CONFIG_S_FEATURES_OK = 0 then panic ''virtio disk FEATURES_OK unset''
         else kseq (write_vreg VIRTIO_MMIO_QUEUE_SEL 0)
           (kbind (read_vreg VIRTIO_MMIO_QUEUE_READY) (\<lambda>ready.
            if ready \<noteq> 0 then panic ''virtio disk should not be ready''
            else kbind (read_vreg VIRTIO_MMIO_QUEUE_NUM_MAX) (\<lambda>mx.
              if mx = 0 then panic ''virtio disk has no queue 0''
              else if mx < word_of_nat NUM then panic ''virtio disk max queue too short''
              else kret status)))))))))))))) "

definition no_desc :: virtq_desc where
  "no_desc = \<lparr>d_addr = NullAddr, d_len = 0, d_flags = 0, d_next = 0\<rparr>"

definition zero_page :: "u64 \<Rightarrow> ('x, unit) diskfun" where
  "zero_page pg = mem_modify (\<lambda>m. memset m (unat pg) 0 (unat PGSIZE))"

definition virtio_disk_queues :: "('x, unit) diskfun" where
  "virtio_disk_queues =
     kbind kalloc (\<lambda>d. kbind kalloc (\<lambda>a. kbind kalloc (\<lambda>u.
     if d = 0 \<or> a = 0 \<or> u = 0 then panic ''virtio disk kalloc''
     else kseq (zero_page d) (kseq (zero_page a) (kseq (zero_page u)
       (kseq (upd_disk (\<lambda>x. x\<lparr>desc_page := d, avail_page := a, used_page := u, dsc := \<lambda>_. no_desc, avail_idx := 0,
          avail_ring := \<lambda>_. 0, used_ring_idx := 0, used_ring := \<lambda>_. 0\<rparr>))
       (kseq (write_vreg VIRTIO_MMIO_QUEUE_NUM (word_of_nat NUM))
       (kseq (write_vreg VIRTIO_MMIO_QUEUE_DESC_LOW (ucast d))
       (kseq (write_vreg VIRTIO_MMIO_QUEUE_DESC_HIGH (ucast (drop_bit 32 d)))
       (kseq (write_vreg VIRTIO_MMIO_DRIVER_DESC_LOW (ucast a))
       (kseq (write_vreg VIRTIO_MMIO_DRIVER_DESC_HIGH (ucast (drop_bit 32 a)))
       (kseq (write_vreg VIRTIO_MMIO_DEVICE_DESC_LOW (ucast u))
       (write_vreg VIRTIO_MMIO_DEVICE_DESC_HIGH (ucast (drop_bit 32 u)))))))))))))))"

definition virtio_disk_init :: "('x, unit) diskfun" where
  "virtio_disk_init =
     kseq (initlock VdiskLock ''virtio_disk'')
     (kbind virtio_disk_probe (\<lambda>status.
      kseq virtio_disk_queues
      (kseq (write_vreg VIRTIO_MMIO_QUEUE_READY 1)
      (kseq (for_each [0..<NUM] (\<lambda>i. upd_disk (\<lambda>d. d\<lparr>dfree := (dfree d)(i := True)\<rparr>)))
      (write_vreg VIRTIO_MMIO_STATUS (status OR VIRTIO_CONFIG_S_DRIVER_OK))))))"

subsection \<open>Descriptors\<close>

definition alloc_desc :: "('x, int) diskfun" where
  "alloc_desc =
     kbind (for_first [0..<NUM] (\<lambda>i.
       kbind (gets (\<lambda>s. dfree (disk s) i)) (\<lambda>f.
       if f then kseq (upd_disk (\<lambda>d. d\<lparr>dfree := (dfree d)(i := False)\<rparr>)) (kret (Some (int i)))
       else kret None)))
     (\<lambda>r. case r of Some i \<Rightarrow> kret i | None \<Rightarrow> kret (- 1))"

definition free_desc :: "int \<Rightarrow> ('x, unit) diskfun" where
  "free_desc i =
     (if i \<ge> int NUM then panic ''free_desc 1''
      else kbind (gets (\<lambda>s. dfree (disk s) (nat i))) (\<lambda>f.
        if f then panic ''free_desc 2''
        else kseq (upd_desc (nat i) (\<lambda>_. no_desc))
          (kseq (upd_disk (\<lambda>d. d\<lparr>dfree := (dfree d)(nat i := True)\<rparr>))
          (wakeup DiskFreeChan))))"

definition free_chain_round :: "int \<Rightarrow> ('x, int + unit) diskfun" where
  "free_chain_round i =
     kbind (gets (\<lambda>s. dsc (disk s) (nat i))) (\<lambda>d.
     kseq (free_desc i)
     (if d_flags d AND VRING_DESC_F_NEXT \<noteq> 0 then again (uint (d_next d)) else leave ()))"

definition free_desc_chain :: "int \<Rightarrow> ('x, unit) diskfun" where
  "free_desc_chain i = kwhile free_chain_round i"

text \<open>The indices found so far, in order.\<close>

primrec alloc3_desc_loop :: "nat \<Rightarrow> int list \<Rightarrow> ('x, int \<times> int list) diskfun" where
  "alloc3_desc_loop 0 idx = kret (0, idx)"
| "alloc3_desc_loop (Suc n) idx =
     kbind alloc_desc (\<lambda>i.
     if i < 0 then kseq (for_each idx free_desc) (kret (- 1, idx @ [i]))
     else alloc3_desc_loop n (idx @ [i]))"

definition alloc3_desc :: "('x, int \<times> int list) diskfun" where
  "alloc3_desc = alloc3_desc_loop 3 []"

subsection \<open>Requests\<close>

definition virtio_alloc_wait :: "('x, int list option) diskfun" where
  "virtio_alloc_wait =
     kbind alloc3_desc (\<lambda>(r, idx).
     if r = 0 then kret (Some idx)
     else kseq (sleep DiskFreeChan VdiskLock) (kret None))"

definition virtio_submit :: "nat \<Rightarrow> bool \<Rightarrow> u64 \<Rightarrow> nat \<Rightarrow> nat \<Rightarrow> nat \<Rightarrow> ('x, unit) diskfun" where
  "virtio_submit b write sector i0 i1 i2 =
     kseq (upd_disk (\<lambda>d. d\<lparr>ops := (ops d)(i0 := \<lparr>req_type = (if write then VIRTIO_BLK_T_OUT else VIRTIO_BLK_T_IN),
        req_reserved = 0, req_sector = sector\<rparr>)\<rparr>))
     (kseq (upd_desc i0 (\<lambda>_. \<lparr>d_addr = OpsAddr i0, d_len = 16, d_flags = VRING_DESC_F_NEXT, d_next = word_of_nat i1\<rparr>))
     (kseq (upd_desc i1 (\<lambda>_. \<lparr>d_addr = BufData b, d_len = word_of_nat BSIZE,
        d_flags = (if write then 0 else VRING_DESC_F_WRITE) OR VRING_DESC_F_NEXT, d_next = word_of_nat i2\<rparr>))
     (kseq (upd_disk (\<lambda>d. d\<lparr>info_status := (info_status d)(i0 := 0xff)\<rparr>))
     (kseq (upd_desc i2 (\<lambda>_. \<lparr>d_addr = StatusAddr i0, d_len = 1, d_flags = VRING_DESC_F_WRITE, d_next = 0\<rparr>))
     (kseq (upd_buf b (\<lambda>x. x\<lparr>b_disk := 1\<rparr>))
     (kseq (upd_disk (\<lambda>d. d\<lparr>info_b := (info_b d)(i0 := Some b)\<rparr>))
     (kseq (upd_disk (\<lambda>d. d\<lparr>avail_ring := (avail_ring d)(unat (avail_idx d mod word_of_nat NUM) := word_of_nat i0)\<rparr>))
     (kseq (upd_disk (\<lambda>d. d\<lparr>avail_idx := avail_idx d + 1\<rparr>))
     (write_vreg VIRTIO_MMIO_QUEUE_NOTIFY 0)))))))))"

definition virtio_wait_done :: "nat \<Rightarrow> ('x, unit option) diskfun" where
  "virtio_wait_done b =
     kbind (gets (\<lambda>s. b_disk (bufs s b))) (\<lambda>d.
     if d = 1 then kseq (sleep (BufChan b) VdiskLock) (kret None) else kret (Some ()))"

definition virtio_disk_rw :: "nat \<Rightarrow> bool \<Rightarrow> ('x, unit) diskfun" where
  "virtio_disk_rw b write =
     kbind (gets (\<lambda>s. ucast (b_blockno (bufs s b) * word_of_nat (BSIZE div 512)))) (\<lambda>sector.
     kseq (acquire VdiskLock)
     (kbind (kloop virtio_alloc_wait) (\<lambda>idx.
      kseq (virtio_submit b write sector (nat (idx ! 0)) (nat (idx ! 1)) (nat (idx ! 2)))
      (kseq (kloop (virtio_wait_done b))
      (kseq (upd_disk (\<lambda>d. d\<lparr>info_b := (info_b d)(nat (idx ! 0) := None)\<rparr>))
      (kseq (free_desc_chain (idx ! 0))
      (release VdiskLock)))))))"

definition virtio_intr_round :: "('x, unit option) diskfun" where
  "virtio_intr_round =
     kbind (gets disk) (\<lambda>d.
     if used_idx d \<noteq> used_ring_idx d then
       let i = unat (used_ring d (unat (used_idx d mod word_of_nat NUM))) in
       if info_status d i \<noteq> 0 then panic ''virtio_disk_intr status''
       else (case info_b d i of None \<Rightarrow> panic ''kerneltrap''
         | Some b \<Rightarrow>
           kseq (upd_buf b (\<lambda>x. x\<lparr>b_disk := 0\<rparr>))
           (kseq (wakeup (BufChan b))
           (kseq (upd_disk (\<lambda>d. d\<lparr>used_idx := used_idx d + 1\<rparr>))
           (kret None))))
     else kret (Some ()))"

definition virtio_disk_intr :: "('x, unit) diskfun" where
  "virtio_disk_intr =
     kseq (acquire VdiskLock)
     (kbind (read_vreg VIRTIO_MMIO_INTERRUPT_STATUS) (\<lambda>st.
      kseq (write_vreg VIRTIO_MMIO_INTERRUPT_ACK (st AND 0x3))
      (kseq (kloop virtio_intr_round)
      (release VdiskLock))))"

subsection \<open>An idle disk\<close>

definition idle_disk :: kdisk where
  "idle_disk = ksleep.extend idle_sleep (kdisk.fields
     (\<lambda>b. \<lparr>b_valid = 0, b_disk = 0, b_dev = 0, b_blockno = 0, b_refcnt = 0, b_prev = 0, b_next = 0, b_data = \<lambda>_. 0\<rparr>)
     \<lparr>desc_page = 0, avail_page = 0, used_page = 0, dsc = \<lambda>_. \<lparr>d_addr = NullAddr, d_len = 0, d_flags = 0, d_next = 0\<rparr>, avail_idx = 0,
      avail_ring = \<lambda>_. 0, used_ring_idx = 0, used_ring = \<lambda>_. 0, dfree = \<lambda>_. True, used_idx = 0, info_b = \<lambda>_. None,
      info_status = \<lambda>_. 0, ops = \<lambda>_. \<lparr>req_type = 0, req_reserved = 0, req_sector = 0\<rparr>, vregs = \<lambda>_. 0, media = \<lambda>_ _. 0\<rparr>)"

lemma idle_disk_fields [simp]:
  "hw idle_disk = hw three_procs" "procs idle_disk = procs three_procs" "sleeplocks idle_disk = sleeplocks idle_sleep"
  "b_valid (bufs idle_disk b) = 0" "b_data (bufs idle_disk b) = (\<lambda>_. 0)" "b_blockno (bufs idle_disk b) = 0"
  "b_dev (bufs idle_disk b) = 0" "b_refcnt (bufs idle_disk b) = 0" "media (disk idle_disk) = (\<lambda>_ _. 0)"
  using idle_sleep_fields
  by (simp_all add: idle_disk_def ksleep.extend_def kdisk.fields_def del: idle_sleep_fields)

end
