(* ===== verification/Bio.thy ===== *)
theory Bio
  imports Virtio
begin

text \<open>
  The buffer cache (\<^verbatim>\<open>kernel/bio.c\<close>). Buffers \<open>0\<close> to \<open>NBUF - 1\<close> are those of \<open>bcache.buf\<close>, and the index \<open>NBUF\<close> stands for
  \<open>bcache.head\<close>, so that the circular list through \<open>prev\<close> and \<open>next\<close> is one map of indices. The two searches of \<open>bget\<close>
  run under \<open>bcache.lock\<close> and follow the links as they are; on a list that never comes back to the head they do not end.
\<close>

subsection \<open>Definitions\<close>

definition bhead :: nat where "bhead = NBUF"

definition link_front :: "nat \<Rightarrow> (nat \<Rightarrow> buf) \<Rightarrow> nat \<Rightarrow> buf" where
  "link_front b bs =
     (let bs = bs(b := (bs b)\<lparr>b_next := b_next (bs bhead)\<rparr>);
          bs = bs(b := (bs b)\<lparr>b_prev := bhead\<rparr>);
          bs = bs(b_next (bs bhead) := (bs (b_next (bs bhead)))\<lparr>b_prev := b\<rparr>)
      in bs(bhead := (bs bhead)\<lparr>b_next := b\<rparr>))"

definition unlink_buf :: "nat \<Rightarrow> (nat \<Rightarrow> buf) \<Rightarrow> nat \<Rightarrow> buf" where
  "unlink_buf b bs =
     (let bs = bs(b_next (bs b) := (bs (b_next (bs b)))\<lparr>b_prev := b_prev (bs b)\<rparr>)
      in bs(b_prev (bs b) := (bs (b_prev (bs b)))\<lparr>b_next := b_next (bs b)\<rparr>))"

definition binit_slot :: "nat \<Rightarrow> ('x, unit) diskfun" where
  "binit_slot b =
     kseq (initsleeplock (BufSleep b) ''buffer'')
     (modify (\<lambda>s. s\<lparr>bufs := link_front b (bufs s)\<rparr>))"

definition binit :: "('x, unit) diskfun" where
  "binit =
     kseq (initlock BcacheLock ''bcache'')
     (kseq (upd_buf bhead (\<lambda>x. x\<lparr>b_prev := bhead, b_next := bhead\<rparr>))
     (for_each [0..<NBUF] binit_slot))"

partial_function (option) find_cached :: "(nat \<Rightarrow> buf) \<Rightarrow> u32 \<Rightarrow> u32 \<Rightarrow> nat \<Rightarrow> nat option option" where
  "find_cached bs dev blockno b =
     (if b = bhead then Some None
      else if b_dev (bs b) = dev \<and> b_blockno (bs b) = blockno then Some (Some b)
      else find_cached bs dev blockno (b_next (bs b)))"

partial_function (option) find_unused :: "(nat \<Rightarrow> buf) \<Rightarrow> nat \<Rightarrow> nat option option" where
  "find_unused bs b =
     (if b = bhead then Some None
      else if b_refcnt (bs b) = 0 then Some (Some b)
      else find_unused bs (b_prev (bs b)))"

definition bget :: "u32 \<Rightarrow> u32 \<Rightarrow> ('x, nat) diskfun" where
  "bget dev blockno =
     kseq (acquire BcacheLock)
     (kbind (gets bufs) (\<lambda>bs.
      kbind (of_loop (find_cached bs dev blockno (b_next (bs bhead)))) (\<lambda>hit. case hit of
        Some b \<Rightarrow>
          kseq (upd_buf b (\<lambda>x. x\<lparr>b_refcnt := b_refcnt x + 1\<rparr>))
          (kseq (release BcacheLock)
          (kseq (acquiresleep (BufSleep b))
          (kret b)))
      | None \<Rightarrow>
          kbind (of_loop (find_unused bs (b_prev (bs bhead)))) (\<lambda>found. case found of
            Some b \<Rightarrow>
              kseq (upd_buf b (\<lambda>x. x\<lparr>b_dev := dev, b_blockno := blockno, b_valid := 0, b_refcnt := 1\<rparr>))
              (kseq (release BcacheLock)
              (kseq (acquiresleep (BufSleep b))
              (kret b)))
          | None \<Rightarrow> panic ''bget: no buffers''))))"

definition bread :: "u32 \<Rightarrow> u32 \<Rightarrow> ('x, nat) diskfun" where
  "bread dev blockno =
     kbind (bget dev blockno) (\<lambda>b.
     kbind (gets (\<lambda>s. b_valid (bufs s b))) (\<lambda>v.
     kseq (kwhen (v = 0)
       (kseq (virtio_disk_rw b False)
       (upd_buf b (\<lambda>x. x\<lparr>b_valid := 1\<rparr>))))
     (kret b)))"

definition bwrite :: "nat \<Rightarrow> ('x, unit) diskfun" where
  "bwrite b =
     kbind (holdingsleep (BufSleep b)) (\<lambda>h.
     if \<not> h then panic ''bwrite'' else virtio_disk_rw b True)"

definition brelse :: "nat \<Rightarrow> ('x, unit) diskfun" where
  "brelse b =
     kbind (holdingsleep (BufSleep b)) (\<lambda>h.
     if \<not> h then panic ''brelse''
     else kseq (releasesleep (BufSleep b))
       (kseq (acquire BcacheLock)
       (kseq (upd_buf b (\<lambda>x. x\<lparr>b_refcnt := b_refcnt x - 1\<rparr>))
       (kbind (gets (\<lambda>s. b_refcnt (bufs s b))) (\<lambda>r.
        kseq (kwhen (r = 0) (modify (\<lambda>s. s\<lparr>bufs := link_front b (unlink_buf b (bufs s))\<rparr>)))
        (release BcacheLock))))))"

definition bpin :: "nat \<Rightarrow> ('x, unit) diskfun" where
  "bpin b =
     kseq (acquire BcacheLock)
     (kseq (upd_buf b (\<lambda>x. x\<lparr>b_refcnt := b_refcnt x + 1\<rparr>))
     (release BcacheLock))"

definition bunpin :: "nat \<Rightarrow> ('x, unit) diskfun" where
  "bunpin b =
     kseq (acquire BcacheLock)
     (kseq (upd_buf b (\<lambda>x. x\<lparr>b_refcnt := b_refcnt x - 1\<rparr>))
     (release BcacheLock))"

subsection \<open>The interface of the block layer\<close>

text \<open>
  What the log and the file system use of the block layer: the operations above. Their code is written over this
  record, so that it can be run on the kernel's cache (\<open>kernel_bio\<close>), which waits for the disk, and on a block
  device without interference, on which the effect of whole operations is computed.
\<close>

record 's block_ops =
  op_bread :: "u32 \<Rightarrow> u32 \<Rightarrow> ('s, nat) kfun"
  op_bwrite :: "nat \<Rightarrow> ('s, unit) kfun"
  op_brelse :: "nat \<Rightarrow> ('s, unit) kfun"
  op_bpin :: "nat \<Rightarrow> ('s, unit) kfun"
  op_bunpin :: "nat \<Rightarrow> ('s, unit) kfun"

definition kernel_bio :: "('x kdisk_scheme) block_ops" where
  "kernel_bio = \<lparr>op_bread = bread, op_bwrite = bwrite, op_brelse = brelse, op_bpin = bpin, op_bunpin = bunpin\<rparr>"

end
