(* ===== verification/Log.thy ===== *)
theory Log
  imports Bio
begin

text \<open>
  The write-ahead log (\<^verbatim>\<open>kernel/log.c\<close>): group commit of system calls, log absorption, commit and recovery. The
  functions that touch blocks take the block layer they run on.

  Block numbers and counters are the C \<^verbatim>\<open>int\<close>s of the source; the header on disk is the count at byte 0 of the block
  followed by the block numbers.
\<close>

subsection \<open>State\<close>

record klog = kdisk +
  log_start :: int
  log_size :: int
  log_outstanding :: int
  log_committing :: int
  log_dev :: int
  lh_n :: int
  lh_block :: "nat \<Rightarrow> int"

type_synonym ('x, 'a) logfun = "('x klog_scheme, 'a) kfun"
type_synonym 'x log_bio = "('x klog_scheme) block_ops"

record superblock =
  sb_magic :: u32
  sb_size :: u32
  sb_nblocks :: u32
  sb_ninodes :: u32
  sb_nlog :: u32
  sb_logstart :: u32
  sb_inodestart :: u32
  sb_bmapstart :: u32

definition load_int :: "memory \<Rightarrow> nat \<Rightarrow> int" where
  "load_int m a = sint (load32 m a)"

definition store_int :: "memory \<Rightarrow> nat \<Rightarrow> int \<Rightarrow> memory" where
  "store_int m a v = store32 m a (word_of_int v)"

definition buf_data :: "nat \<Rightarrow> ('x, memory) diskfun" where
  "buf_data b = gets (\<lambda>s. b_data (bufs s b))"

definition upd_data :: "nat \<Rightarrow> (memory \<Rightarrow> memory) \<Rightarrow> ('x, unit) diskfun" where
  "upd_data b f = upd_buf b (\<lambda>x. x\<lparr>b_data := f (b_data x)\<rparr>)"

definition copy_block :: "nat \<Rightarrow> nat \<Rightarrow> ('x, unit) diskfun" where
  "copy_block dst src =
     kbind (buf_data src) (\<lambda>m. upd_data dst (\<lambda>m'. mem_write m' 0 (mem_read m 0 BSIZE)))"

subsection \<open>Commit and recovery\<close>

definition install_trans_round :: "'x log_bio \<Rightarrow> bool \<Rightarrow> int \<Rightarrow> ('x, int + unit) logfun" where
  "install_trans_round bio recovering tail =
     kbind (gets lh_n) (\<lambda>n.
     if tail < n then
       kbind (gets log_dev) (\<lambda>dev. kbind (gets log_start) (\<lambda>start.
       kbind (gets (\<lambda>s. lh_block s (nat tail))) (\<lambda>home.
       kbind (op_bread bio (word_of_int dev) (word_of_int (start + tail + 1))) (\<lambda>lbuf.
       kbind (op_bread bio (word_of_int dev) (word_of_int home)) (\<lambda>dbuf.
       kseq (copy_block dbuf lbuf)
       (kseq (op_bwrite bio dbuf)
       (kseq (kwhen (\<not> recovering) (op_bunpin bio dbuf))
       (kseq (op_brelse bio lbuf)
       (kseq (op_brelse bio dbuf)
       (again (tail + 1)))))))))))
     else leave ())"

definition install_trans :: "'x log_bio \<Rightarrow> bool \<Rightarrow> ('x, unit) logfun" where
  "install_trans bio recovering = kwhile (install_trans_round bio recovering) 0"

definition read_head :: "'x log_bio \<Rightarrow> ('x, unit) logfun" where
  "read_head bio =
     kbind (gets log_dev) (\<lambda>dev. kbind (gets log_start) (\<lambda>start.
     kbind (op_bread bio (word_of_int dev) (word_of_int start)) (\<lambda>b.
     kbind (buf_data b) (\<lambda>m.
     kseq (modify (\<lambda>s. s\<lparr>lh_n := load_int m 0\<rparr>))
     (kbind (gets lh_n) (\<lambda>n.
      kseq (for_each [0..<nat n] (\<lambda>i. modify (\<lambda>s. s\<lparr>lh_block := (lh_block s)(i := load_int m (4 + 4 * i))\<rparr>)))
      (op_brelse bio b)))))))"

definition write_head :: "'x log_bio \<Rightarrow> ('x, unit) logfun" where
  "write_head bio =
     kbind (gets log_dev) (\<lambda>dev. kbind (gets log_start) (\<lambda>start.
     kbind (op_bread bio (word_of_int dev) (word_of_int start)) (\<lambda>b.
     kbind (gets lh_n) (\<lambda>n. kbind (gets lh_block) (\<lambda>blk.
     kseq (upd_data b (\<lambda>m. store_int m 0 n))
     (kseq (for_each [0..<nat n] (\<lambda>i. upd_data b (\<lambda>m. store_int m (4 + 4 * i) (blk i))))
     (kseq (op_bwrite bio b)
     (op_brelse bio b))))))))"

definition recover_from_log :: "'x log_bio \<Rightarrow> ('x, unit) logfun" where
  "recover_from_log bio =
     kseq (read_head bio)
     (kseq (install_trans bio True)
     (kseq (modify (\<lambda>s. s\<lparr>lh_n := 0\<rparr>))
     (write_head bio)))"

definition sizeof_logheader :: int where "sizeof_logheader = 4 + 4 * LOGSIZE"

definition initlog :: "'x log_bio \<Rightarrow> int \<Rightarrow> superblock \<Rightarrow> ('x, unit) logfun" where
  "initlog bio dev sb =
     (if sizeof_logheader \<ge> int BSIZE then panic ''initlog: too big logheader''
      else kseq (initlock LogLock ''log'')
        (kseq (modify (\<lambda>s. s\<lparr>log_start := sint (sb_logstart sb), log_size := sint (sb_nlog sb), log_dev := dev\<rparr>))
        (recover_from_log bio)))"

definition write_log_round :: "'x log_bio \<Rightarrow> int \<Rightarrow> ('x, int + unit) logfun" where
  "write_log_round bio tail =
     kbind (gets lh_n) (\<lambda>n.
     if tail < n then
       kbind (gets log_dev) (\<lambda>dev. kbind (gets log_start) (\<lambda>start.
       kbind (gets (\<lambda>s. lh_block s (nat tail))) (\<lambda>home.
       kbind (op_bread bio (word_of_int dev) (word_of_int (start + tail + 1))) (\<lambda>to.
       kbind (op_bread bio (word_of_int dev) (word_of_int home)) (\<lambda>from.
       kseq (copy_block to from)
       (kseq (op_bwrite bio to)
       (kseq (op_brelse bio from)
       (kseq (op_brelse bio to)
       (again (tail + 1))))))))))
     else leave ())"

definition write_log :: "'x log_bio \<Rightarrow> ('x, unit) logfun" where
  "write_log bio = kwhile (write_log_round bio) 0"

definition commit :: "'x log_bio \<Rightarrow> ('x, unit) logfun" where
  "commit bio =
     kbind (gets lh_n) (\<lambda>n.
     kwhen (n > 0)
       (kseq (write_log bio)
       (kseq (write_head bio)
       (kseq (install_trans bio False)
       (kseq (modify (\<lambda>s. s\<lparr>lh_n := 0\<rparr>))
       (write_head bio))))))"

subsection \<open>Operations\<close>

definition begin_op_round :: "('x, unit option) logfun" where
  "begin_op_round =
     kbind (gets log_committing) (\<lambda>c. kbind (gets lh_n) (\<lambda>n. kbind (gets log_outstanding) (\<lambda>k.
     if c \<noteq> 0 then kseq (sleep LogChan LogLock) (kret None)
     else if n + (k + 1) * MAXOPBLOCKS > LOGSIZE then kseq (sleep LogChan LogLock) (kret None)
     else kseq (modify (\<lambda>s. s\<lparr>log_outstanding := log_outstanding s + 1\<rparr>))
       (kseq (release LogLock)
       (kret (Some ()))))))"

definition begin_op :: "('x, unit) logfun" where
  "begin_op = kseq (acquire LogLock) (kloop begin_op_round)"

definition end_op :: "'x log_bio \<Rightarrow> ('x, unit) logfun" where
  "end_op bio =
     kseq (acquire LogLock)
     (kseq (modify (\<lambda>s. s\<lparr>log_outstanding := log_outstanding s - 1\<rparr>))
     (kbind (gets log_committing) (\<lambda>c.
      if c \<noteq> 0 then panic ''log.committing''
      else kbind (gets log_outstanding) (\<lambda>k.
        kseq (if k = 0 then modify (\<lambda>s. s\<lparr>log_committing := 1\<rparr>) else wakeup LogChan)
        (kseq (release LogLock)
        (kwhen (k = 0)
          (kseq (commit bio)
          (kseq (acquire LogLock)
          (kseq (modify (\<lambda>s. s\<lparr>log_committing := 0\<rparr>))
          (kseq (wakeup LogChan)
          (release LogLock)))))))))))"

text \<open>The index of the block in the header, or the count if it is not there.\<close>

fun find_logged :: "(nat \<Rightarrow> int) \<Rightarrow> u32 \<Rightarrow> nat \<Rightarrow> nat \<Rightarrow> nat" where
  "find_logged blk bn i 0 = i"
| "find_logged blk bn i (Suc n) = (if word_of_int (blk i) = bn then i else find_logged blk bn (Suc i) n)"

definition log_write :: "'x log_bio \<Rightarrow> nat \<Rightarrow> ('x, unit) logfun" where
  "log_write bio b =
     kseq (acquire LogLock)
     (kbind (gets lh_n) (\<lambda>n. kbind (gets log_size) (\<lambda>sz. kbind (gets log_outstanding) (\<lambda>k.
      if n \<ge> LOGSIZE \<or> n \<ge> sz - 1 then panic ''too big a transaction''
      else if k < 1 then panic ''log_write outside of trans''
      else kbind (gets (\<lambda>s. b_blockno (bufs s b))) (\<lambda>bn.
        kbind (gets lh_block) (\<lambda>blk.
        let i = find_logged blk bn 0 (nat n) in
        kseq (modify (\<lambda>s. s\<lparr>lh_block := (lh_block s)(i := sint bn)\<rparr>))
        (kseq (kwhen (i = nat n)
          (kseq (op_bpin bio b)
          (modify (\<lambda>s. s\<lparr>lh_n := lh_n s + 1\<rparr>))))
        (release LogLock))))))))"

subsection \<open>Admission of operations\<close>

text \<open>The counters that the log's lock guards: the header's length, the operations in progress and the commit flag.\<close>

definition log_counts :: "'x klog_scheme \<Rightarrow> int \<times> int \<times> int" where
  "log_counts s = (lh_n s, log_outstanding s, log_committing s)"

definition log_counts_ok :: "int \<times> int \<times> int \<Rightarrow> bool" where
  "log_counts_ok = (\<lambda>(n, k, c). 0 \<le> n \<and> n \<le> LOGSIZE \<and> 0 \<le> k \<and> k * MAXOPBLOCKS \<le> LOGSIZE \<and> (c \<noteq> 0 \<longrightarrow> k = 0))"

interpretation logmon: monitor LogLock "log_counts :: 'x klog_scheme \<Rightarrow> _" log_counts_ok
  by unfold_locales (simp_all add: log_counts_def)

text \<open>C28: \<open>begin_op\<close> under any interference that keeps the log's counters in order: it never panics, and when it lets the caller
  in there is no commit going on, and the log has room for the blocks in it and the most that every operation in
  progress, the caller's included, may add.\<close>

theorem begin_op_reserves:
  fixes s :: "'x klog_scheme"
  assumes "owns p 0 {} (hw s)" "locked (locks (hw s) LogLock) = 0 \<longrightarrow> log_counts_ok (log_counts s)"
  shows "hoare (keeps p LogLock log_counts log_counts_ok)
    (\<lambda>_ s'. owns p 0 {} (hw s') \<and> log_counts_ok (log_counts s') \<and> log_committing s' = 0 \<and> 1 \<le> log_outstanding s' \<and>
       lh_n s' + log_outstanding s' * MAXOPBLOCKS \<le> LOGSIZE)
    (begin_op s)"
proof -
  let ?R = "keeps p LogLock (log_counts :: 'x klog_scheme \<Rightarrow> _) log_counts_ok"
  let ?Q = "\<lambda>s' :: 'x klog_scheme. owns p 0 {} (hw s') \<and> log_counts_ok (log_counts s') \<and> log_committing s' = 0 \<and>
    1 \<le> log_outstanding s' \<and> lh_n s' + log_outstanding s' * MAXOPBLOCKS \<le> LOGSIZE"
  have 1: "hoare ?R (\<lambda>_ s1. owns p 1 {LogLock} (hw s1) \<and> log_counts_ok (log_counts s1)) (acquire LogLock s)"
    using logmon.acquire_own [OF assms(1)] assms(2) by (auto simp: logmon.ready_def elim: hoare_mono)
  have rel: "\<exists>s'. release LogLock t = Ret () s' \<and> owns p 0 {} (hw s') \<and> s' = t\<lparr>hw := hw s'\<rparr>"
    if "owns p 1 {LogLock} (hw t)" for t :: "'x klog_scheme"
    using release_owns [of p 0 "{LogLock}" t] owns_leave [of p 0 "{LogLock}" "hw t" LogLock] that by simp
  have 2: "hoare ?R (\<lambda>_. ?Q) (kloop begin_op_round s1)" if "owns p 1 {LogLock} (hw s1)" "log_counts_ok (log_counts s1)" for s1
  proof (rule logmon.wait_loop_own [OF that])
    fix t :: "'x klog_scheme"
    assume t: "owns p 1 {LogLock} (hw t)" "log_counts_ok (log_counts t)"
    let ?t = "t\<lparr>log_outstanding := log_outstanding t + 1\<rparr>"
    obtain s' where s': "release LogLock ?t = Ret () s'" "owns p 0 {} (hw s')" "s' = ?t\<lparr>hw := hw s'\<rparr>" using rel [of ?t] t(1) by auto
    have "lh_n s' = lh_n t" "log_outstanding s' = log_outstanding t + 1" "log_committing s' = log_committing t"
      by (subst s'(3), simp)+
    then show "(\<exists>ch. begin_op_round t = kseq (sleep ch LogLock) (kret None) t) \<or>
      hoare ?R (\<lambda>r s'. \<exists>a. r = Some a \<and> ?Q s') (begin_op_round t)"
      using t(2) s'(1,2) by (auto simp: begin_op_round_def log_counts_ok_def log_counts_def MAXOPBLOCKS_def)
  qed
  show ?thesis unfolding begin_op_def kseq_def by (rule hoare_tbind [OF 1]) (use 2 in auto)
qed

definition idle_log :: klog where
  "idle_log = kdisk.extend idle_disk (klog.fields 2 31 0 0 1 0 (\<lambda>_. 0))"

lemma idle_log_fields [simp]:
  "hw idle_log = hw three_procs" "procs idle_log = procs three_procs" "bufs idle_log = bufs idle_disk" "disk idle_log = disk idle_disk"
  "log_start idle_log = 2" "log_size idle_log = 31" "log_outstanding idle_log = 0" "log_committing idle_log = 0"
  "log_dev idle_log = 1" "lh_n idle_log = 0" "lh_block idle_log = (\<lambda>_. 0)"
  using idle_disk_fields by (simp_all add: idle_log_def kdisk.extend_def klog.fields_def del: idle_disk_fields)

theorem begin_op_reserves_witness:
  "hoare (keeps 0 LogLock log_counts log_counts_ok) (\<lambda>_ s'. 1 \<le> log_outstanding s' \<and> log_committing s' = 0) (begin_op idle_log)"
  by (rule hoare_mono [OF begin_op_reserves [of 0 idle_log]])
    (auto simp: three_procs_owns log_counts_def log_counts_ok_def LOGSIZE_def MAXOPBLOCKS_def)

end
