(* ===== verification/Fs.thy ===== *)
theory Fs
  imports Log Abi
begin

text \<open>
  The file system below system calls (\<^verbatim>\<open>kernel/fs.c\<close>, \<^verbatim>\<open>kernel/fs.h\<close>, the in-memory inode of \<^verbatim>\<open>kernel/file.h\<close>): the block
  allocator, inodes, inode contents, directories and path names.

  An inode pointer is an index in \<open>itable\<close>, and a null pointer the absence of one. On-disk structures are read from and
  stored into the bytes of a buffer at the offsets of the C structs. A path or a name is the list of its bytes before
  the NUL. \<open>readi\<close> returns, beside its result, the bytes it would store in a destination that is a local variable of the
  caller. As in the log, functions that touch blocks take the block layer they run on.
\<close>

subsection \<open>Layout\<close>

definition ROOTINO :: u32 where "ROOTINO = 1"
definition FSMAGIC :: u32 where "FSMAGIC = 0x10203040"
definition NDIRECT :: nat where "NDIRECT = 12"
definition NINDIRECT :: nat where "NINDIRECT = BSIZE div 4"
definition MAXFILE :: nat where "MAXFILE = NDIRECT + NINDIRECT"
definition sizeof_dinode :: nat where "sizeof_dinode = 4 * 2 + 4 + 4 * (NDIRECT + 1)"
definition IPB :: nat where "IPB = BSIZE div sizeof_dinode"
definition BPB :: nat where "BPB = BSIZE * 8"

lemmas fs_layout = BSIZE_def NDIRECT_def NINDIRECT_def MAXFILE_def sizeof_dinode_def IPB_def BPB_def DIRSIZ_def sizeof_dirent_def

definition IBLOCK :: "u32 \<Rightarrow> superblock \<Rightarrow> u32" where
  "IBLOCK i sb = i div word_of_nat IPB + sb_inodestart sb"

definition BBLOCK :: "u32 \<Rightarrow> superblock \<Rightarrow> u32" where
  "BBLOCK b sb = b div word_of_nat BPB + sb_bmapstart sb"

record inode =
  i_dev :: u32
  i_inum :: u32
  i_ref :: int
  i_valid :: int
  i_type :: u16
  i_major :: u16
  i_minor :: u16
  i_nlink :: u16
  i_size :: u32
  i_addrs :: "nat \<Rightarrow> u32"

record kfs = klog +
  sb :: superblock
  inodes :: "nat \<Rightarrow> inode"

type_synonym ('x, 'a) fsfun = "('x kfs_scheme, 'a) kfun"
type_synonym 'x fs_bio = "('x kfs_scheme) block_ops"

definition upd_inode :: "nat \<Rightarrow> (inode \<Rightarrow> inode) \<Rightarrow> ('x, unit) fsfun" where
  "upd_inode ip f = modify (\<lambda>s. s\<lparr>inodes := (inodes s)(ip := f (inodes s ip))\<rparr>)"

definition get_inode :: "nat \<Rightarrow> (inode \<Rightarrow> 'a) \<Rightarrow> ('x, 'a) fsfun" where
  "get_inode ip f = gets (\<lambda>s. f (inodes s ip))"

definition load16 :: "memory \<Rightarrow> nat \<Rightarrow> u16" where
  "load16 m a = word_of_nat (le_val (mem_read m a 2))"

definition store16 :: "memory \<Rightarrow> nat \<Rightarrow> u16 \<Rightarrow> memory" where
  "store16 m a v = mem_write m a (le_bytes 2 (unat v))"

text \<open>The dinode at an offset of a block: fields into and out of the in-memory inode.\<close>

primrec store_addrs :: "memory \<Rightarrow> nat \<Rightarrow> (nat \<Rightarrow> u32) \<Rightarrow> nat \<Rightarrow> memory" where
  "store_addrs m a addrs 0 = m"
| "store_addrs m a addrs (Suc n) = store32 (store_addrs m a addrs n) (a + 4 * n) (addrs n)"

definition write_dinode :: "inode \<Rightarrow> nat \<Rightarrow> memory \<Rightarrow> memory" where
  "write_dinode ip off m =
     (let m = store16 m off (i_type ip);
          m = store16 m (off + 2) (i_major ip);
          m = store16 m (off + 4) (i_minor ip);
          m = store16 m (off + 6) (i_nlink ip);
          m = store32 m (off + 8) (i_size ip)
      in store_addrs m (off + 12) (i_addrs ip) (NDIRECT + 1))"

definition read_dinode :: "memory \<Rightarrow> nat \<Rightarrow> inode \<Rightarrow> inode" where
  "read_dinode m off ip = ip\<lparr>i_type := load16 m off, i_major := load16 m (off + 2), i_minor := load16 m (off + 4),
     i_nlink := load16 m (off + 6), i_size := load32 m (off + 8),
     i_addrs := \<lambda>i. if i < NDIRECT + 1 then load32 m (off + 12 + 4 * i) else i_addrs ip i\<rparr>"

definition dinode_off :: "u32 \<Rightarrow> nat" where
  "dinode_off inum = unat (inum mod word_of_nat IPB) * sizeof_dinode"

definition load_sb :: "memory \<Rightarrow> superblock" where
  "load_sb m = \<lparr>sb_magic = load32 m 0, sb_size = load32 m 4, sb_nblocks = load32 m 8, sb_ninodes = load32 m 12,
     sb_nlog = load32 m 16, sb_logstart = load32 m 20, sb_inodestart = load32 m 24, sb_bmapstart = load32 m 28\<rparr>"

subsection \<open>Initialisation and blocks\<close>

definition readsb :: "'x fs_bio \<Rightarrow> int \<Rightarrow> ('x, unit) fsfun" where
  "readsb bio dev =
     kbind (op_bread bio (word_of_int dev) 1) (\<lambda>bp.
     kbind (buf_data bp) (\<lambda>m.
     kseq (modify (\<lambda>s. s\<lparr>sb := load_sb m\<rparr>))
     (op_brelse bio bp)))"

definition fsinit :: "'x fs_bio \<Rightarrow> int \<Rightarrow> ('x, unit) fsfun" where
  "fsinit bio dev =
     kseq (readsb bio dev)
     (kbind (gets sb) (\<lambda>sb.
      if sb_magic sb \<noteq> FSMAGIC then panic ''invalid file system''
      else initlog bio dev sb))"

definition bzero :: "'x fs_bio \<Rightarrow> u32 \<Rightarrow> u32 \<Rightarrow> ('x, unit) fsfun" where
  "bzero bio dev bno =
     kbind (op_bread bio dev bno) (\<lambda>bp.
     kseq (upd_data bp (\<lambda>m. memset m 0 0 BSIZE))
     (kseq (log_write bio bp)
     (op_brelse bio bp)))"

definition bit_mask :: "nat \<Rightarrow> u8" where
  "bit_mask bi = push_bit (bi mod 8) 1"

text \<open>The inner loop of \<open>balloc\<close>: the first clear bit of the bitmap block, from bit \<open>bi\<close> on.\<close>

function balloc_scan :: "memory \<Rightarrow> u32 \<Rightarrow> u32 \<Rightarrow> nat \<Rightarrow> nat option" where
  "balloc_scan m b sz bi =
     (if bi < BPB \<and> b + word_of_nat bi < sz then
        if m (bi div 8) AND bit_mask bi = 0 then Some bi else balloc_scan m b sz (Suc bi)
      else None)"
  by pat_completeness auto
termination by (relation "measure (\<lambda>(m, b, sz, bi). BPB - bi)") auto

declare balloc_scan.simps [simp del]

definition balloc_round :: "'x fs_bio \<Rightarrow> u32 \<Rightarrow> u32 \<Rightarrow> ('x, u32 + u32 option) fsfun" where
  "balloc_round bio dev b =
     kbind (gets sb) (\<lambda>sb.
     if b < sb_size sb then
       kbind (op_bread bio dev (BBLOCK b sb)) (\<lambda>bp.
       kbind (buf_data bp) (\<lambda>m. case balloc_scan m b (sb_size sb) 0 of
         Some bi \<Rightarrow>
           kseq (upd_data bp (\<lambda>m. m(bi div 8 := m (bi div 8) OR bit_mask bi)))
           (kseq (log_write bio bp)
           (kseq (op_brelse bio bp)
           (kseq (bzero bio dev (b + word_of_nat bi))
           (leave (Some (b + word_of_nat bi))))))
       | None \<Rightarrow> kseq (op_brelse bio bp) (again (b + word_of_nat BPB))))
     else leave None)"

definition balloc :: "'x fs_bio \<Rightarrow> u32 \<Rightarrow> ('x, u32) fsfun" where
  "balloc bio dev =
     kbind (kwhile (balloc_round bio dev) 0) (\<lambda>r. case r of
       Some b \<Rightarrow> kret b
     | None \<Rightarrow> kseq (printf ''balloc: out of blocks\<newline>'' []) (kret 0))"

definition bfree :: "'x fs_bio \<Rightarrow> u32 \<Rightarrow> u32 \<Rightarrow> ('x, unit) fsfun" where
  "bfree bio dev b =
     kbind (gets sb) (\<lambda>sb.
     kbind (op_bread bio dev (BBLOCK b sb)) (\<lambda>bp.
     kbind (buf_data bp) (\<lambda>m.
     let bi = unat (b mod word_of_nat BPB) in
     if m (bi div 8) AND bit_mask bi = 0 then panic ''freeing free block''
     else kseq (upd_data bp (\<lambda>m. m(bi div 8 := m (bi div 8) AND NOT (bit_mask bi))))
       (kseq (log_write bio bp)
       (op_brelse bio bp)))))"

subsection \<open>Inodes\<close>

definition iinit :: "('x, unit) fsfun" where
  "iinit = kseq (initlock ItableLock ''itable'') (for_each [0..<NINODE] (\<lambda>i. initsleeplock (InodeSleep i) ''inode''))"

text \<open>The scan of \<open>iget\<close>: the entry of the inode if it is in the table, and the first empty slot before it.\<close>

fun iget_scan :: "(nat \<Rightarrow> inode) \<Rightarrow> u32 \<Rightarrow> u32 \<Rightarrow> nat list \<Rightarrow> nat option \<Rightarrow> nat option \<times> nat option" where
  "iget_scan t dev inum [] spare = (None, spare)"
| "iget_scan t dev inum (ip # ips) spare =
     (if i_ref (t ip) > 0 \<and> i_dev (t ip) = dev \<and> i_inum (t ip) = inum then (Some ip, spare)
      else iget_scan t dev inum ips (if spare = None \<and> i_ref (t ip) = 0 then Some ip else spare))"

definition iget :: "u32 \<Rightarrow> u32 \<Rightarrow> ('x, nat) fsfun" where
  "iget dev inum =
     kseq (acquire ItableLock)
     (kbind (gets inodes) (\<lambda>t. case iget_scan t dev inum [0..<NINODE] None of
        (Some ip, _) \<Rightarrow>
          kseq (upd_inode ip (\<lambda>x. x\<lparr>i_ref := i_ref x + 1\<rparr>))
          (kseq (release ItableLock)
          (kret ip))
      | (None, None) \<Rightarrow> panic ''iget: no inodes''
      | (None, Some ip) \<Rightarrow>
          kseq (upd_inode ip (\<lambda>x. x\<lparr>i_dev := dev, i_inum := inum, i_ref := 1, i_valid := 0\<rparr>))
          (kseq (release ItableLock)
          (kret ip))))"

definition ialloc_round :: "'x fs_bio \<Rightarrow> u32 \<Rightarrow> u16 \<Rightarrow> u32 \<Rightarrow> ('x, u32 + nat option) fsfun" where
  "ialloc_round bio dev typ inum =
     kbind (gets sb) (\<lambda>sb.
     if inum < sb_ninodes sb then
       kbind (op_bread bio dev (IBLOCK inum sb)) (\<lambda>bp.
       kbind (buf_data bp) (\<lambda>m.
       let off = dinode_off inum in
       if load16 m off = 0 then
         kseq (upd_data bp (\<lambda>m. store16 (memset m off 0 sizeof_dinode) off typ))
         (kseq (log_write bio bp)
         (kseq (op_brelse bio bp)
         (kbind (iget dev inum) (\<lambda>ip. leave (Some ip)))))
       else kseq (op_brelse bio bp) (again (inum + 1))))
     else leave None)"

definition ialloc :: "'x fs_bio \<Rightarrow> u32 \<Rightarrow> u16 \<Rightarrow> ('x, nat option) fsfun" where
  "ialloc bio dev typ =
     kbind (kwhile (ialloc_round bio dev typ) 1) (\<lambda>r. case r of
       Some ip \<Rightarrow> kret (Some ip)
     | None \<Rightarrow> kseq (printf ''ialloc: no inodes\<newline>'' []) (kret None))"

definition iupdate :: "'x fs_bio \<Rightarrow> nat \<Rightarrow> ('x, unit) fsfun" where
  "iupdate bio ip =
     kbind (get_inode ip id) (\<lambda>x. kbind (gets sb) (\<lambda>sb.
     kbind (op_bread bio (i_dev x) (IBLOCK (i_inum x) sb)) (\<lambda>bp.
     kseq (upd_data bp (write_dinode x (dinode_off (i_inum x))))
     (kseq (log_write bio bp)
     (op_brelse bio bp)))))"

definition idup :: "nat \<Rightarrow> ('x, nat) fsfun" where
  "idup ip =
     kseq (acquire ItableLock)
     (kseq (upd_inode ip (\<lambda>x. x\<lparr>i_ref := i_ref x + 1\<rparr>))
     (kseq (release ItableLock)
     (kret ip)))"

definition ilock :: "'x fs_bio \<Rightarrow> nat option \<Rightarrow> ('x, unit) fsfun" where
  "ilock bio ipo = (case ipo of None \<Rightarrow> panic ''ilock'' | Some ip \<Rightarrow>
     kbind (get_inode ip i_ref) (\<lambda>ref.
     if ref < 1 then panic ''ilock''
     else kseq (acquiresleep (InodeSleep ip))
       (kbind (get_inode ip id) (\<lambda>x.
        if i_valid x = 0 then
          kbind (gets sb) (\<lambda>sb.
          kbind (op_bread bio (i_dev x) (IBLOCK (i_inum x) sb)) (\<lambda>bp.
          kbind (buf_data bp) (\<lambda>m.
          kseq (upd_inode ip (read_dinode m (dinode_off (i_inum x))))
          (kseq (op_brelse bio bp)
          (kseq (upd_inode ip (\<lambda>x. x\<lparr>i_valid := 1\<rparr>))
          (kbind (get_inode ip i_type) (\<lambda>t.
           if t = 0 then panic ''ilock: no type'' else kskip)))))))
        else kskip))))"

definition iunlock :: "nat option \<Rightarrow> ('x, unit) fsfun" where
  "iunlock ipo = (case ipo of None \<Rightarrow> panic ''iunlock'' | Some ip \<Rightarrow>
     kbind (holdingsleep (InodeSleep ip)) (\<lambda>h.
     kbind (get_inode ip i_ref) (\<lambda>ref.
     if \<not> h \<or> ref < 1 then panic ''iunlock'' else releasesleep (InodeSleep ip))))"

definition itrunc :: "'x fs_bio \<Rightarrow> nat \<Rightarrow> ('x, unit) fsfun" where
  "itrunc bio ip =
     kseq (for_each [0..<NDIRECT] (\<lambda>i.
        kbind (get_inode ip id) (\<lambda>x.
        kwhen (i_addrs x i \<noteq> 0)
          (kseq (bfree bio (i_dev x) (i_addrs x i))
          (upd_inode ip (\<lambda>x. x\<lparr>i_addrs := (i_addrs x)(i := 0)\<rparr>))))))
     (kbind (get_inode ip id) (\<lambda>x.
      kseq (kwhen (i_addrs x NDIRECT \<noteq> 0)
        (kbind (op_bread bio (i_dev x) (i_addrs x NDIRECT)) (\<lambda>bp.
         kseq (for_each [0..<NINDIRECT] (\<lambda>j.
           kbind (buf_data bp) (\<lambda>m.
           kwhen (load32 m (4 * j) \<noteq> 0) (bfree bio (i_dev x) (load32 m (4 * j))))))
         (kseq (op_brelse bio bp)
         (kseq (bfree bio (i_dev x) (i_addrs x NDIRECT))
         (upd_inode ip (\<lambda>x. x\<lparr>i_addrs := (i_addrs x)(NDIRECT := 0)\<rparr>)))))))
      (kseq (upd_inode ip (\<lambda>x. x\<lparr>i_size := 0\<rparr>))
      (iupdate bio ip))))"

definition iput :: "'x fs_bio \<Rightarrow> nat \<Rightarrow> ('x, unit) fsfun" where
  "iput bio ip =
     kseq (acquire ItableLock)
     (kbind (get_inode ip id) (\<lambda>x.
      kseq (kwhen (i_ref x = 1 \<and> i_valid x \<noteq> 0 \<and> i_nlink x = 0)
        (kseq (acquiresleep (InodeSleep ip))
        (kseq (release ItableLock)
        (kseq (itrunc bio ip)
        (kseq (upd_inode ip (\<lambda>x. x\<lparr>i_type := 0\<rparr>))
        (kseq (iupdate bio ip)
        (kseq (upd_inode ip (\<lambda>x. x\<lparr>i_valid := 0\<rparr>))
        (kseq (releasesleep (InodeSleep ip))
        (acquire ItableLock)))))))))
      (kseq (upd_inode ip (\<lambda>x. x\<lparr>i_ref := i_ref x - 1\<rparr>))
      (release ItableLock))))"

definition iunlockput :: "'x fs_bio \<Rightarrow> nat \<Rightarrow> ('x, unit) fsfun" where
  "iunlockput bio ip = kseq (iunlock (Some ip)) (iput bio ip)"

subsection \<open>Contents\<close>

definition bmap_indirect :: "'x fs_bio \<Rightarrow> nat \<Rightarrow> nat \<Rightarrow> ('x, u32) fsfun" where
  "bmap_indirect bio ip bn =
     kbind (get_inode ip id) (\<lambda>x.
     kbind (op_bread bio (i_dev x) (i_addrs x NDIRECT)) (\<lambda>bp.
     kbind (buf_data bp) (\<lambda>m.
     kbind (if load32 m (4 * bn) = 0 then
              kbind (balloc bio (i_dev x)) (\<lambda>addr.
              kseq (kwhen (addr \<noteq> 0)
                (kseq (upd_data bp (\<lambda>m. store32 m (4 * bn) addr))
                (log_write bio bp)))
              (kret addr))
            else kret (load32 m (4 * bn))) (\<lambda>addr.
     kseq (op_brelse bio bp)
     (kret addr)))))"

definition bmap :: "'x fs_bio \<Rightarrow> nat \<Rightarrow> u32 \<Rightarrow> ('x, u32) fsfun" where
  "bmap bio ip bn =
     kbind (get_inode ip id) (\<lambda>x.
     if unat bn < NDIRECT then
       (if i_addrs x (unat bn) = 0 then
          kbind (balloc bio (i_dev x)) (\<lambda>addr.
          if addr = 0 then kret 0
          else kseq (upd_inode ip (\<lambda>x. x\<lparr>i_addrs := (i_addrs x)(unat bn := addr)\<rparr>)) (kret addr))
        else kret (i_addrs x (unat bn)))
     else let bn' = unat bn - NDIRECT in
       if bn' < NINDIRECT then
         (if i_addrs x NDIRECT = 0 then
            kbind (balloc bio (i_dev x)) (\<lambda>addr.
            if addr = 0 then kret 0
            else kseq (upd_inode ip (\<lambda>x. x\<lparr>i_addrs := (i_addrs x)(NDIRECT := addr)\<rparr>)) (bmap_indirect bio ip bn'))
          else bmap_indirect bio ip bn')
       else panic ''bmap: out of range'')"

record stat =
  st_dev :: int
  st_ino :: u32
  st_type :: u16
  st_nlink :: u16
  st_size :: u64

definition stati :: "nat \<Rightarrow> ('x, stat) fsfun" where
  "stati ip = get_inode ip (\<lambda>x. \<lparr>st_dev = sint (i_dev x), st_ino = i_inum x, st_type = i_type x,
     st_nlink = i_nlink x, st_size = ucast (i_size x)\<rparr>)"

definition block_chunk :: "u32 \<Rightarrow> u32 \<Rightarrow> u32 \<Rightarrow> u32" where
  "block_chunk n tot off = min (n - tot) (word_of_nat BSIZE - off mod word_of_nat BSIZE)"

definition readi_round :: "'x fs_bio \<Rightarrow> nat \<Rightarrow> u32 \<Rightarrow> u32 \<times> u32 \<times> copydst \<times> u8 list \<Rightarrow>
    ('x, u32 \<times> u32 \<times> copydst \<times> u8 list + u32 \<times> u8 list) fsfun" where
  "readi_round bio ip n = (\<lambda>(tot, off, dst, acc).
     if tot < n then
       kbind (bmap bio ip (off div word_of_nat BSIZE)) (\<lambda>addr.
       if addr = 0 then leave (tot, acc)
       else kbind (get_inode ip i_dev) (\<lambda>dev.
         kbind (op_bread bio dev addr) (\<lambda>bp.
         kbind (buf_data bp) (\<lambda>data.
         let m = block_chunk n tot off; bs = mem_read data (unat (off mod word_of_nat BSIZE)) (unat m) in
         kbind (either_copyout dst bs) (\<lambda>r.
         if r = - 1 then kseq (op_brelse bio bp) (leave (- 1, acc))
         else kseq (op_brelse bio bp) (again (tot + m, off + m, dst_plus dst (unat m), acc @ bs)))))))
     else leave (tot, acc))"

definition readi :: "'x fs_bio \<Rightarrow> nat \<Rightarrow> copydst \<Rightarrow> u32 \<Rightarrow> u32 \<Rightarrow> ('x, int \<times> u8 list) fsfun" where
  "readi bio ip dst off n =
     kbind (get_inode ip i_size) (\<lambda>size.
     if off > size \<or> off + n < off then kret (0, [])
     else let n' = (if off + n > size then size - off else n) in
       kbind (kwhile (readi_round bio ip n') (0, off, dst, [])) (\<lambda>(tot, acc). kret (sint tot, acc)))"

definition writei_round :: "'x fs_bio \<Rightarrow> nat \<Rightarrow> u32 \<Rightarrow> u32 \<times> u32 \<times> copysrc \<Rightarrow>
    ('x, u32 \<times> u32 \<times> copysrc + u32 \<times> u32) fsfun" where
  "writei_round bio ip n = (\<lambda>(tot, off, src).
     if tot < n then
       kbind (bmap bio ip (off div word_of_nat BSIZE)) (\<lambda>addr.
       if addr = 0 then leave (tot, off)
       else kbind (get_inode ip i_dev) (\<lambda>dev.
         kbind (op_bread bio dev addr) (\<lambda>bp.
         let m = block_chunk n tot off in
         kbind (either_copyin src (unat m)) (\<lambda>(r, bs).
         kseq (upd_data bp (\<lambda>d. mem_write d (unat (off mod word_of_nat BSIZE)) bs))
         (if r = - 1 then kseq (op_brelse bio bp) (leave (tot, off))
          else kseq (log_write bio bp)
            (kseq (op_brelse bio bp)
            (again (tot + m, off + m, src_plus src (unat m)))))))))
     else leave (tot, off))"

definition writei :: "'x fs_bio \<Rightarrow> nat \<Rightarrow> copysrc \<Rightarrow> u32 \<Rightarrow> u32 \<Rightarrow> ('x, int) fsfun" where
  "writei bio ip src off n =
     kbind (get_inode ip i_size) (\<lambda>size.
     if off > size \<or> off + n < off then kret (- 1)
     else if off + n > word_of_nat (MAXFILE * BSIZE) then kret (- 1)
     else kbind (kwhile (writei_round bio ip n) (0, off, src)) (\<lambda>(tot, off').
       kbind (get_inode ip i_size) (\<lambda>size.
       kseq (kwhen (off' > size) (upd_inode ip (\<lambda>x. x\<lparr>i_size := off'\<rparr>)))
       (kseq (iupdate bio ip)
       (kret (sint tot))))))"

end
