(* ===== verification/Path.thy ===== *)
theory Path
  imports Fs
begin

text \<open>
  Directories and path names (the second half of \<^verbatim>\<open>kernel/fs.c\<close>). A directory is a file of 16-byte entries, a 16-bit
  inode number and a name of at most \<open>DIRSIZ\<close> bytes.
\<close>

subsection \<open>Directories\<close>

definition namecmp :: "u8 list \<Rightarrow> u8 list \<Rightarrow> int" where
  "namecmp s t = strncmp (list_ptr s) (list_ptr t) DIRSIZ"

definition de_inum :: "u8 list \<Rightarrow> u16" where
  "de_inum de = word_of_nat (le_val (take 2 de))"

definition de_name :: "u8 list \<Rightarrow> u8 list" where
  "de_name de = take DIRSIZ (drop 2 de)"

definition make_dirent :: "u8 list \<Rightarrow> u8 list \<Rightarrow> u32 \<Rightarrow> u8 list" where
  "make_dirent old name inum =
     le_bytes 2 (unat (ucast inum :: u16)) @
     map (strncpy (list_ptr (de_name old)) (list_ptr name) (int DIRSIZ)) [0..<DIRSIZ]"

text \<open>Reading the entry at \<open>off\<close> into the local variable \<open>de\<close>.\<close>

definition read_dirent :: "'x fs_bio \<Rightarrow> string \<Rightarrow> nat \<Rightarrow> u32 \<Rightarrow> ('x, u8 list) fsfun" where
  "read_dirent bio msg dp off =
     kbind (readi bio dp LocalDst off (word_of_nat sizeof_dirent)) (\<lambda>(r, de).
     if r \<noteq> int sizeof_dirent then panic msg else kret de)"

definition dirlookup_round :: "'x fs_bio \<Rightarrow> nat \<Rightarrow> u8 list \<Rightarrow> u32 \<Rightarrow> ('x, u32 + (nat \<times> u32) option) fsfun" where
  "dirlookup_round bio dp name off =
     kbind (get_inode dp i_size) (\<lambda>sz.
     if off < sz then
       kbind (read_dirent bio ''dirlookup read'' dp off) (\<lambda>de.
       if de_inum de = 0 then again (off + word_of_nat sizeof_dirent)
       else if namecmp name (de_name de) = 0 then
         kbind (get_inode dp i_dev) (\<lambda>dev.
         kbind (iget dev (ucast (de_inum de))) (\<lambda>ip. leave (Some (ip, off))))
       else again (off + word_of_nat sizeof_dirent))
     else leave None)"

text \<open>The result carries the offset of the entry, which the code stores through \<open>poff\<close> when the caller asks for it.\<close>

definition dirlookup :: "'x fs_bio \<Rightarrow> nat \<Rightarrow> u8 list \<Rightarrow> ('x, (nat \<times> u32) option) fsfun" where
  "dirlookup bio dp name =
     kbind (get_inode dp i_type) (\<lambda>t.
     if t \<noteq> T_DIR then panic ''dirlookup not DIR''
     else kwhile (dirlookup_round bio dp name) 0)"

definition dirlink_round :: "'x fs_bio \<Rightarrow> nat \<Rightarrow> u32 \<times> u8 list \<Rightarrow> ('x, u32 \<times> u8 list + u32 \<times> u8 list) fsfun" where
  "dirlink_round bio dp = (\<lambda>(off, de).
     kbind (get_inode dp i_size) (\<lambda>sz.
     if off < sz then
       kbind (read_dirent bio ''dirlink read'' dp off) (\<lambda>de.
       if de_inum de = 0 then leave (off, de)
       else again (off + word_of_nat sizeof_dirent, de))
     else leave (off, de)))"

definition dirlink :: "'x fs_bio \<Rightarrow> nat \<Rightarrow> u8 list \<Rightarrow> u32 \<Rightarrow> ('x, int) fsfun" where
  "dirlink bio dp name inum =
     kbind (dirlookup bio dp name) (\<lambda>found. case found of
       Some (ip, _) \<Rightarrow> kseq (iput bio ip) (kret (- 1))
     | None \<Rightarrow>
       kbind (kwhile (dirlink_round bio dp) (0, replicate sizeof_dirent 0)) (\<lambda>(off, de).
       kbind (writei bio dp (LocalSrc (make_dirent de name inum)) off (word_of_nat sizeof_dirent)) (\<lambda>r.
       if r \<noteq> int sizeof_dirent then kret (- 1) else kret 0)))"

subsection \<open>Paths\<close>

definition slash :: u8 where "slash = of_char CHR ''/''"

definition skipelem :: "u8 list \<Rightarrow> (u8 list \<times> u8 list) option" where
  "skipelem p =
     (let s = dropWhile (\<lambda>c. c = slash) p in
      if s = [] then None
      else let elem = takeWhile (\<lambda>c. c \<noteq> slash) s;
               rest = dropWhile (\<lambda>c. c \<noteq> slash) s
        in Some (dropWhile (\<lambda>c. c = slash) rest, if length elem \<ge> DIRSIZ then take DIRSIZ elem else elem))"

definition namex_round :: "'x fs_bio \<Rightarrow> bool \<Rightarrow> nat \<times> u8 list \<times> u8 list \<Rightarrow>
    ('x, nat \<times> u8 list \<times> u8 list + nat option \<times> u8 list) fsfun" where
  "namex_round bio parent = (\<lambda>(ip, p, name). case skipelem p of
     None \<Rightarrow> (if parent then kseq (iput bio ip) (leave (None, name)) else leave (Some ip, name))
   | Some (p', name') \<Rightarrow>
       kseq (ilock bio (Some ip))
       (kbind (get_inode ip i_type) (\<lambda>t.
        if t \<noteq> T_DIR then kseq (iunlockput bio ip) (leave (None, name'))
        else if parent \<and> p' = [] then kseq (iunlock (Some ip)) (leave (Some ip, name'))
        else kbind (dirlookup bio ip name') (\<lambda>found. case found of
          None \<Rightarrow> kseq (iunlockput bio ip) (leave (None, name'))
        | Some (nxt, _) \<Rightarrow> kseq (iunlockput bio ip) (again (nxt, p', name'))))))"

text \<open>The inode and the last name; the name is not set before the first path element.\<close>

definition namex :: "'x fs_bio \<Rightarrow> u8 list \<Rightarrow> bool \<Rightarrow> ('x, nat option \<times> u8 list) fsfun" where
  "namex bio p parent =
     kbind (if p \<noteq> [] \<and> hd p = slash then iget ROOTDEV ROOTINO
            else with_myproc (\<lambda>me. kbind (get_proc me p_cwd) (\<lambda>cwd. case cwd of
              None \<Rightarrow> panic ''kerneltrap'' | Some ip \<Rightarrow> idup ip))) (\<lambda>ip.
     kwhile (namex_round bio parent) (ip, p, []))"

definition namei :: "'x fs_bio \<Rightarrow> u8 list \<Rightarrow> ('x, nat option) fsfun" where
  "namei bio p = kbind (namex bio p False) (\<lambda>(ip, name). kret ip)"

definition nameiparent :: "'x fs_bio \<Rightarrow> u8 list \<Rightarrow> ('x, nat option \<times> u8 list) fsfun" where
  "nameiparent bio p = namex bio p True"

end
