(* ===== verification/Pipe.thy ===== *)
theory Pipe
  imports Path
begin

text \<open>
  The tables of open files and pipes (\<^verbatim>\<open>kernel/file.h\<close>) and the pipe operations of \<^verbatim>\<open>kernel/pipe.c\<close> that need no file
  operation. A pipe lives in a page of \<open>kalloc\<close> and is named by the address of its page; its contents are a typed
  record.
\<close>

subsection \<open>State\<close>

datatype fdtype = FD_NONE | FD_PIPE | FD_INODE | FD_DEVICE

record ofile =
  f_type :: fdtype
  f_ref :: int
  f_readable :: bool
  f_writable :: bool
  f_pipe :: u64
  f_ip :: "nat option"
  f_off :: u32
  f_major :: u16

definition PIPESIZE :: u32 where "PIPESIZE = 512"

record pipe =
  pi_data :: "nat \<Rightarrow> u8"
  pi_nread :: u32
  pi_nwrite :: u32
  pi_readopen :: int
  pi_writeopen :: int

record kfile = kfs +
  files :: "nat \<Rightarrow> ofile"
  pipes :: "u64 \<Rightarrow> pipe"

type_synonym ('x, 'a) filefun = "('x kfile_scheme, 'a) kfun"
type_synonym 'x file_bio = "('x kfile_scheme) block_ops"

definition upd_pipe :: "u64 \<Rightarrow> (pipe \<Rightarrow> pipe) \<Rightarrow> ('x, unit) filefun" where
  "upd_pipe pi f = modify (\<lambda>s. s\<lparr>pipes := (pipes s)(pi := f (pipes s pi))\<rparr>)"

definition get_pipe :: "u64 \<Rightarrow> ('x, pipe) filefun" where
  "get_pipe pi = gets (\<lambda>s. pipes s pi)"

subsection \<open>Operations\<close>

definition pipeclose :: "u64 \<Rightarrow> bool \<Rightarrow> ('x, unit) filefun" where
  "pipeclose pi writable =
     kseq (acquire (PipeLock pi))
     (kseq (if writable
        then kseq (upd_pipe pi (\<lambda>x. x\<lparr>pi_writeopen := 0\<rparr>)) (wakeup (PipeReadChan pi))
        else kseq (upd_pipe pi (\<lambda>x. x\<lparr>pi_readopen := 0\<rparr>)) (wakeup (PipeWriteChan pi)))
     (kbind (get_pipe pi) (\<lambda>x.
      if pi_readopen x = 0 \<and> pi_writeopen x = 0
      then kseq (release (PipeLock pi)) (kfree pi)
      else release (PipeLock pi))))"

definition pipe_put :: "u8 \<Rightarrow> pipe \<Rightarrow> pipe" where
  "pipe_put ch x = x\<lparr>pi_data := (pi_data x)(unat (pi_nwrite x mod PIPESIZE) := ch), pi_nwrite := pi_nwrite x + 1\<rparr>"

text \<open>A round of the loop of \<open>pipewrite\<close>; it leaves without a value when the write fails.\<close>

definition pipewrite_round :: "u64 \<Rightarrow> nat \<Rightarrow> u64 \<Rightarrow> int \<Rightarrow> int \<Rightarrow> ('x, int + int option) filefun" where
  "pipewrite_round pi pr addr n i =
     (if i < n then
        kbind (get_pipe pi) (\<lambda>x.
        kbind (if pi_readopen x = 0 then kret 1 else killed pr) (\<lambda>dead.
        if dead \<noteq> 0 then leave None
        else if pi_nwrite x = pi_nread x + PIPESIZE then
          kseq (wakeup (PipeReadChan pi))
          (kseq (sleep (PipeWriteChan pi) (PipeLock pi))
          (again i))
        else kbind (get_proc pr p_pagetable) (\<lambda>pt.
          kbind (copyin pt (addr + word_of_int i) 1) (\<lambda>(r, bs).
          if r = - 1 then leave (Some i)
          else kseq (upd_pipe pi (pipe_put (bs ! 0))) (again (i + 1))))))
      else leave (Some i))"

definition pipewrite :: "u64 \<Rightarrow> u64 \<Rightarrow> int \<Rightarrow> ('x, int) filefun" where
  "pipewrite pi addr n =
     with_myproc (\<lambda>pr.
     kseq (acquire (PipeLock pi))
     (kbind (kwhile (pipewrite_round pi pr addr n) 0) (\<lambda>res. case res of
        None \<Rightarrow> kseq (release (PipeLock pi)) (kret (- 1))
      | Some i \<Rightarrow>
        kseq (wakeup (PipeReadChan pi))
        (kseq (release (PipeLock pi))
        (kret i)))))"

text \<open>The waiting loop of \<open>piperead\<close>: \<open>True\<close> when the process was killed.\<close>

definition piperead_wait :: "u64 \<Rightarrow> nat \<Rightarrow> ('x, bool option) filefun" where
  "piperead_wait pi pr =
     kbind (get_pipe pi) (\<lambda>x.
     if pi_nread x = pi_nwrite x \<and> pi_writeopen x \<noteq> 0 then
       kbind (killed pr) (\<lambda>k.
       if k \<noteq> 0 then kret (Some True)
       else kseq (sleep (PipeReadChan pi) (PipeLock pi)) (kret None))
     else kret (Some False))"

definition piperead_round :: "u64 \<Rightarrow> nat \<Rightarrow> u64 \<Rightarrow> int \<Rightarrow> int \<Rightarrow> ('x, int + int) filefun" where
  "piperead_round pi pr addr n i =
     (if i < n then
        kbind (get_pipe pi) (\<lambda>x.
        if pi_nread x = pi_nwrite x then leave i
        else
          let ch = pi_data x (unat (pi_nread x mod PIPESIZE)) in
          kseq (upd_pipe pi (\<lambda>x. x\<lparr>pi_nread := pi_nread x + 1\<rparr>))
          (kbind (get_proc pr p_pagetable) (\<lambda>pt.
           kbind (copyout pt (addr + word_of_int i) [ch]) (\<lambda>r.
           if r = - 1 then leave i else again (i + 1)))))
      else leave i)"

definition piperead :: "u64 \<Rightarrow> u64 \<Rightarrow> int \<Rightarrow> ('x, int) filefun" where
  "piperead pi addr n =
     with_myproc (\<lambda>pr.
     kseq (acquire (PipeLock pi))
     (kbind (kloop (piperead_wait pi pr)) (\<lambda>dead.
      if dead then kseq (release (PipeLock pi)) (kret (- 1))
      else kbind (kwhile (piperead_round pi pr addr n) 0) (\<lambda>i.
        kseq (wakeup (PipeWriteChan pi))
        (kseq (release (PipeLock pi))
        (kret i))))))"

subsection \<open>The bytes in a pipe\<close>

definition pipe_queue :: "pipe \<Rightarrow> u8 list" where
  "pipe_queue x = ring 512 (pi_data x) (pi_nread x) (pi_nwrite x)"

definition pipe_ok :: "pipe \<Rightarrow> bool" where
  "pipe_ok x \<longleftrightarrow> unat (pi_nwrite x - pi_nread x) \<le> 512"

lemma length_pipe_queue: "pipe_ok x \<Longrightarrow> length (pipe_queue x) \<le> 512"
  by (simp add: pipe_ok_def pipe_queue_def)

lemma pipe_full_iff: "pi_nwrite x = pi_nread x + PIPESIZE \<longleftrightarrow> length (pipe_queue x) = 512"
proof -
  have "pi_nwrite x = pi_nread x + PIPESIZE \<longleftrightarrow> pi_nwrite x - pi_nread x = 512" by (auto simp: PIPESIZE_def algebra_simps)
  also have "\<dots> \<longleftrightarrow> unat (pi_nwrite x - pi_nread x) = unat (512 :: u32)" by (simp only: word_unat_eq_iff)
  finally show ?thesis by (simp add: pipe_queue_def)
qed

lemma pipe_put_queue:
  assumes "length (pipe_queue x) < 512"
  shows "pipe_queue (pipe_put b x) = pipe_queue x @ [b]" "pipe_ok (pipe_put b x)"
proof -
  have l: "unat (pi_nwrite x - pi_nread x) < 512" using assms by (simp add: pipe_queue_def)
  have "unat (pi_nwrite x mod PIPESIZE) = unat (pi_nwrite x) mod 512" by (simp add: PIPESIZE_def unat_mod)
  then show "pipe_queue (pipe_put b x) = pipe_queue x @ [b]"
    using l by (simp add: pipe_queue_def pipe_put_def ring_push)
  show "pipe_ok (pipe_put b x)"
    using l word_Suc_diff [of "pi_nwrite x" "pi_nread x"] by (simp add: pipe_ok_def pipe_put_def)
qed

lemma pipe_get_queue:
  assumes "pi_nread x \<noteq> pi_nwrite x"
  shows "pipe_queue x = pi_data x (unat (pi_nread x mod PIPESIZE)) # pipe_queue (x\<lparr>pi_nread := pi_nread x + 1\<rparr>)"
    "pipe_ok x \<Longrightarrow> pipe_ok (x\<lparr>pi_nread := pi_nread x + 1\<rparr>)"
proof -
  have "unat (pi_nread x mod PIPESIZE) = unat (pi_nread x) mod 512" by (simp add: PIPESIZE_def unat_mod)
  then show "pipe_queue x = pi_data x (unat (pi_nread x mod PIPESIZE)) # pipe_queue (x\<lparr>pi_nread := pi_nread x + 1\<rparr>)"
    using assms by (simp add: pipe_queue_def ring_pop)
  show "pipe_ok x \<Longrightarrow> pipe_ok (x\<lparr>pi_nread := pi_nread x + 1\<rparr>)"
    using word_diff_Suc [of "pi_nwrite x" "pi_nread x"] assms by (simp add: pipe_ok_def)
qed

lemma pipe_empty_iff: "pi_nread x = pi_nwrite x \<longleftrightarrow> pipe_queue x = []"
  by (auto simp: pipe_queue_def ring_Nil_iff)

lemma pipe_puts_queue:
  "length (pipe_queue x) + length bs \<le> 512 \<Longrightarrow> pipe_queue (fold pipe_put bs x) = pipe_queue x @ bs"
  by (induction bs arbitrary: x) (simp_all add: pipe_put_queue)

lemma pipe_puts_fields [simp]:
  "pi_readopen (fold pipe_put bs x) = pi_readopen x" "pi_writeopen (fold pipe_put bs x) = pi_writeopen x"
  by (induction bs arbitrary: x) (simp_all add: pipe_put_def)

lemma length_ufetch: "length (snd (ufetch m pt va n)) \<le> n"
  by (induction n arbitrary: va) (simp_all add: split_def)

lemma pipewrite_loop_eq:
  assumes "hw_ok (hw s)" "hw_touch (hw s) = hw s" "lock_free (ProcLock pr) (hw s)" "p_killed (procs s pr) = 0"
    and "user_ok e (mem s) (p_pagetable (procs s pr))" "pi_readopen (pipes s pi) \<noteq> 0"
    and "length (pipe_queue (pipes s pi)) + k \<le> 512"
  shows "kwhile (pipewrite_round pi pr addr (int (i + k))) (int i) s =
    (let bs = snd (ufetch (mem s) (p_pagetable (procs s pr)) (addr + of_nat i) k) in
     Ret (Some (int (i + length bs))) (s\<lparr>pipes := (pipes s)(pi := fold pipe_put bs (pipes s pi))\<rparr>))"
  using assms
proof (induction k arbitrary: i s)
  case 0
  then show ?case by (subst kwhile_step) (simp add: pipewrite_round_def)
next
  case (Suc k)
  let ?pt = "p_pagetable (procs s pr)" and ?va = "addr + of_nat i"
  let ?b = "mem s (ubyte_at (mem s) ?pt ?va)"
  let ?s = "s\<lparr>pipes := (pipes s)(pi := pipe_put ?b (pipes s pi))\<rparr>"
  have kl: "killed pr s = Ret 0 s" using Suc.prems by (simp add: killed_def kexec get_proc_def)
  have room: "pi_nwrite (pipes s pi) \<noteq> pi_nread (pipes s pi) + PIPESIZE" using Suc.prems(7) by (simp add: pipe_full_iff)
  have ci: "copyin ?pt (addr + word_of_int (int i)) 1 s = Ret (ufetch (mem s) ?pt ?va 1) s"
    using copyin_loop_eq [OF Suc.prems(5), of ?va 1 "[]"] by (simp add: copyin_def split_def)
  show ?case
  proof (cases "uaddr (mem s) ?pt (PGROUNDDOWN ?va) = 0")
    case True
    then show ?thesis
      using Suc.prems(6) kl room ci by (subst kwhile_step) (simp add: pipewrite_round_def get_pipe_def get_proc_def)
  next
    case False
    have "kwhile (pipewrite_round pi pr addr (int (i + Suc k))) (int i) s =
        kwhile (pipewrite_round pi pr addr (int (Suc i + k))) (int (Suc i)) ?s"
      using Suc.prems(6) kl room ci False
      by (subst kwhile_step) (simp add: pipewrite_round_def get_pipe_def get_proc_def upd_pipe_def add.commute)
    also have "\<dots> = (let bs = snd (ufetch (mem ?s) (p_pagetable (procs ?s pr)) (addr + of_nat (Suc i)) k) in
     Ret (Some (int (Suc i + length bs))) (?s\<lparr>pipes := (pipes ?s)(pi := fold pipe_put bs (pipes ?s pi))\<rparr>))"
      using Suc.prems by (intro Suc.IH) (simp_all add: pipe_put_queue, simp add: pipe_put_def)
    finally show ?thesis using False by (simp add: Let_def split_def algebra_simps fun_upd_def cong: if_cong)
  qed
qed

text \<open>How many bytes of a range can be stored before the first address that is not mapped.\<close>

primrec ustored :: "memory \<Rightarrow> u64 \<Rightarrow> u64 \<Rightarrow> nat \<Rightarrow> nat" where
  "ustored m pt va 0 = 0"
| "ustored m pt va (Suc k) = (if uaddr m pt (PGROUNDDOWN va) = 0 then 0 else Suc (ustored m pt (va + 1) k))"

lemma ustored_cong: "(\<And>va. uaddr m' pt va = uaddr m pt va) \<Longrightarrow> ustored m' pt va k = ustored m pt va k"
  by (induction k arbitrary: va) simp_all

lemma ustored_le: "ustored m pt va k \<le> k"
  by (induction k arbitrary: va) simp_all

text \<open>The bytes that \<open>piperead\<close> takes out of the pipe when \<open>k\<close> of the \<open>n\<close> can be stored: the one that cannot is lost.\<close>

definition piperead_taken :: "nat \<Rightarrow> nat \<Rightarrow> nat" where
  "piperead_taken k n = (if k < n then Suc k else n)"

lemma piperead_taken_Suc [simp]: "piperead_taken (Suc k) (Suc n) = Suc (piperead_taken k n)"
  by (simp add: piperead_taken_def)

lemma piperead_loop_eq:
  assumes "user_ok e (mem s) (p_pagetable (procs s pr))" "pipe_ok (pipes s pi)" "va = addr + of_nat i"
    "bs = take k (pipe_queue (pipes s pi))"
  shows "\<exists>x. kwhile (piperead_round pi pr addr (int (i + k))) (int i) s =
    Ret (int (i + ustored (mem s) (p_pagetable (procs s pr)) va (length bs)))
      (s\<lparr>mem := snd (ustore (mem s) (p_pagetable (procs s pr)) va bs), pipes := (pipes s)(pi := x)\<rparr>) \<and> pipe_ok x \<and>
    pipe_queue x = drop (piperead_taken (ustored (mem s) (p_pagetable (procs s pr)) va (length bs)) (length bs)) (pipe_queue (pipes s pi))"
  using assms
proof (induction k arbitrary: i s va bs)
  case 0
  then show ?case
    by (subst kwhile_step) (auto simp: piperead_round_def piperead_taken_def intro!: exI [of _ "pipes s pi"])
next
  case (Suc k)
  let ?x = "pipes s pi" and ?pt = "p_pagetable (procs s pr)"
  define x1 where "x1 = ?x\<lparr>pi_nread := pi_nread ?x + 1\<rparr>"
  define b where "b = pi_data ?x (unat (pi_nread ?x mod PIPESIZE))"
  show ?case
  proof (cases "pi_nread ?x = pi_nwrite ?x")
    case True
    then show ?thesis
      using Suc.prems by (subst kwhile_step)
        (auto simp: piperead_round_def get_pipe_def piperead_taken_def pipe_empty_iff intro!: exI [of _ "pipes s pi"])
  next
    case False
    note q = pipe_get_queue [OF False, folded x1_def b_def]
    have bs: "bs = b # take k (pipe_queue x1)" using Suc.prems(4) q(1) by simp
    have rnd: "piperead_round pi pr addr (int (i + Suc k)) (int i) s =
        (case ustore (mem s) ?pt va [b] of (r, m) \<Rightarrow>
          Ret (if r = - 1 then Inr (int i) else Inl (int (Suc i))) (s\<lparr>pipes := (pipes s)(pi := x1), mem := m\<rparr>))"
      using False copyout_eq [of e "s\<lparr>pipes := (pipes s)(pi := x1)\<rparr>" ?pt va "[b]"] Suc.prems(1,3)
      by (simp add: piperead_round_def get_pipe_def upd_pipe_def get_proc_def Let_def x1_def b_def split: prod.split)
    show ?thesis
    proof (cases "uaddr (mem s) ?pt (PGROUNDDOWN va) = 0")
      case True
      then show ?thesis
        using q(2) [OF Suc.prems(2)] unfolding kwhile_step [of _ _ s] rnd
        by (intro exI [of _ x1]) (simp add: bs q(1) piperead_taken_def fun_upd_def)
    next
      case mapped: False
      define m1 where "m1 = (mem s)(ubyte_at (mem s) ?pt va := b)"
      define s1 where "s1 = s\<lparr>pipes := (pipes s)(pi := x1), mem := m1\<rparr>"
      note poke = user_ok_poke [OF Suc.prems(1) mapped, of b, folded m1_def]
      have st: "ustored m1 ?pt va l = ustored (mem s) ?pt va l" for va l using poke(2) by (rule ustored_cong)
      have s1: "pipes s1 = (pipes s)(pi := x1)" "mem s1 = m1" "procs s1 = procs s" by (simp_all add: s1_def)
      have "user_ok e (mem s1) (p_pagetable (procs s1 pr))" "pipe_ok (pipes s1 pi)" "va + 1 = addr + of_nat (Suc i)"
        using poke(1) q(2) [OF Suc.prems(2)] Suc.prems(3) by (simp_all add: s1)
      from Suc.IH [OF this refl] obtain x where x: "kwhile (piperead_round pi pr addr (int (Suc i + k))) (int (Suc i)) s1 =
          Ret (int (Suc i + ustored (mem s) ?pt (va + 1) (length (take k (pipe_queue x1)))))
            (s1\<lparr>mem := snd (ustore m1 ?pt (va + 1) (take k (pipe_queue x1))), pipes := (pipes s1)(pi := x)\<rparr>)" "pipe_ok x"
          "pipe_queue x = drop (piperead_taken (ustored (mem s) ?pt (va + 1) (length (take k (pipe_queue x1))))
            (length (take k (pipe_queue x1)))) (pipe_queue x1)"
        unfolding s1 fun_upd_same st by blast
      have "kwhile (piperead_round pi pr addr (int (i + Suc k))) (int i) s =
          kwhile (piperead_round pi pr addr (int (Suc i + k))) (int (Suc i)) s1"
        unfolding kwhile_step [of _ _ s] rnd using mapped by (simp add: s1_def m1_def)
      then show ?thesis
        using x mapped by (intro exI [of _ x]) (simp add: bs q(1) s1_def m1_def fun_upd_def cong: if_cong del: length_take)
    qed
  qed
qed

subsection \<open>Writing and reading\<close>

text \<open>C32: a write that fits. \<open>pipewrite\<close> by a live process into a pipe whose read end is open and that has room for \<open>n\<close> bytes
  appends, in order, the bytes of the caller's memory up to the first address that is not mapped, and returns their
  number; readers asleep on the pipe become runnable, other pipes and memory do not change.\<close>

theorem pipewrite_appends:
  fixes s :: "'x kfile_scheme"
  defines "pr \<equiv> the (c_proc (cpus (hw s) (tp (hw s))))"
  assumes "procs_free (hw s)" "c_proc (cpus (hw s) (tp (hw s))) \<noteq> None" "lock_free (PipeLock pi) (hw s)" "p_killed (procs s pr) = 0"
    and "user_ok e (mem s) (p_pagetable (procs s pr))" "pi_readopen (pipes s pi) \<noteq> 0"
    and "length (pipe_queue (pipes s pi)) + n \<le> 512" "ufetch (mem s) (p_pagetable (procs s pr)) addr n = (r, bs)" "pr < NPROC"
  shows "\<exists>s'. pipewrite pi addr (int n) s = Ret (int (length bs)) s' \<and>
    pipe_queue (pipes s' pi) = pipe_queue (pipes s pi) @ bs \<and> (\<forall>q. q \<noteq> pi \<longrightarrow> pipes s' q = pipes s q) \<and> mem s' = mem s \<and>
    hw s' = hw_touch (hw s) \<and> procs s' = woken (PipeReadChan pi) (Some pr) (procs s)"
proof -
  have cp: "c_proc (cpus (hw s) (tp (hw s))) = Some pr" using assms(3) by (simp add: pr_def)
  have ok: "hw_ok (hw s)" "\<And>i. i < NPROC \<Longrightarrow> lock_free (ProcLock i) (hw s)" using assms(2) by (simp_all add: procs_free_def)
  have len: "length bs \<le> n" using length_ufetch [of "mem s" "p_pagetable (procs s pr)" addr n] assms(9) by simp
  let ?s1 = "s\<lparr>hw := hw_enter (PipeLock pi) (hw s)\<rparr>"
  have e: "hw_enter (PipeLock pi) (hw_touch (hw s)) = hw_enter (PipeLock pi) (hw s)" using ok(1) by simp
  have loop: "kwhile (pipewrite_round pi pr addr (int n)) 0 ?s1 =
      Ret (Some (int (length bs))) (?s1\<lparr>pipes := (pipes s)(pi := fold pipe_put bs (pipes s pi))\<rparr>)"
    using pipewrite_loop_eq [of ?s1 pr e pi n addr 0] ok assms(5-10) by simp
  let ?s2 = "?s1\<lparr>pipes := (pipes s)(pi := fold pipe_put bs (pipes s pi))\<rparr>"
  have wk: "wakeup (PipeReadChan pi) ?s2 = Ret () (?s2\<lparr>hw := hw_touch (hw ?s2), procs := woken (PipeReadChan pi) (Some pr) (procs ?s2)\<rparr>)"
    using ok cp by (intro wakeup_eq) simp_all
  show ?thesis
    using ok assms(4) cp loop wk e pipe_puts_queue [of "pipes s pi" bs] len assms(8)
    by (simp add: pipewrite_def with_myproc_def myproc_eq kexec)
qed

lemma ustored_all: "user_ok e m pt \<Longrightarrow> ustored m pt va (length bs) = length bs \<Longrightarrow> fst (ustore m pt va bs) = 0"
proof (induction bs arbitrary: m va)
  case (Cons b bs)
  then have ne: "uaddr m pt (PGROUNDDOWN va) \<noteq> 0" by (auto split: if_splits)
  define m1 where "m1 = m(ubyte_at m pt va := b)"
  note poke = user_ok_poke [OF Cons.prems(1) ne, of b, folded m1_def]
  have "ustored m1 pt (va + 1) (length bs) = length bs" using ustored_cong [OF poke(2)] Cons.prems(2) ne by simp
  from Cons.IH [OF poke(1) this] show ?case using ne by (simp add: m1_def fun_upd_def)
qed simp

text \<open>C33: a read that does not block. \<open>piperead\<close> of up to \<open>n\<close> bytes, from a pipe that has some or whose write end is closed, stores
  the oldest bytes at the caller's address, up to the first address that is not mapped, returns the number of bytes
  stored, and takes them out of the pipe. If an address is not mapped, the byte meant for it is taken out as well.\<close>

theorem piperead_takes:
  fixes s :: "'x kfile_scheme"
  defines "pr \<equiv> the (c_proc (cpus (hw s) (tp (hw s))))"
  assumes "procs_free (hw s)" "c_proc (cpus (hw s) (tp (hw s))) \<noteq> None" "lock_free (PipeLock pi) (hw s)"
    and "user_ok e (mem s) (p_pagetable (procs s pr))" "pipe_ok (pipes s pi)" "pipe_queue (pipes s pi) \<noteq> [] \<or> pi_writeopen (pipes s pi) = 0"
    and "bs = take n (pipe_queue (pipes s pi))" "k = ustored (mem s) (p_pagetable (procs s pr)) addr (length bs)"
  shows "\<exists>s'. piperead pi addr (int n) s = Ret (int k) s' \<and>
    pipe_queue (pipes s' pi) = drop (if k < length bs then Suc k else k) (pipe_queue (pipes s pi)) \<and> pipe_ok (pipes s' pi) \<and>
    (\<forall>q. q \<noteq> pi \<longrightarrow> pipes s' q = pipes s q) \<and> mem s' = snd (ustore (mem s) (p_pagetable (procs s pr)) addr bs) \<and>
    (k = length bs \<longrightarrow> ufetch (mem s') (p_pagetable (procs s pr)) addr k = (0, bs)) \<and>
    hw s' = hw_touch (hw s) \<and> procs s' = woken (PipeWriteChan pi) (Some pr) (procs s)"
proof -
  have cp: "c_proc (cpus (hw s) (tp (hw s))) = Some pr" using assms(3) by (simp add: pr_def)
  have ok: "hw_ok (hw s)" "\<And>i. i < NPROC \<Longrightarrow> lock_free (ProcLock i) (hw s)" using assms(2) by (simp_all add: procs_free_def)
  define s1 where "s1 = s\<lparr>hw := hw_enter (PipeLock pi) (hw s)\<rparr>"
  have s1: "mem s1 = mem s" "pipes s1 = pipes s" "procs s1 = procs s" by (simp_all add: s1_def)
  have wait: "kloop (piperead_wait pi pr) s1 = Ret False s1"
    using assms(7) by (subst kloop_step) (auto simp: piperead_wait_def get_pipe_def s1 pipe_empty_iff)
  obtain x where x: "kwhile (piperead_round pi pr addr (int n)) 0 s1 = Ret (int k)
      (s1\<lparr>mem := snd (ustore (mem s) (p_pagetable (procs s pr)) addr bs), pipes := (pipes s)(pi := x)\<rparr>)" "pipe_ok x"
      "pipe_queue x = drop (piperead_taken k (length bs)) (pipe_queue (pipes s pi))"
    using piperead_loop_eq [of e s1 pr pi addr addr 0 bs n] assms(5,6,8,9) by (auto simp: s1)
  define s2 where "s2 = s1\<lparr>mem := snd (ustore (mem s) (p_pagetable (procs s pr)) addr bs), pipes := (pipes s)(pi := x)\<rparr>"
  have wk: "wakeup (PipeWriteChan pi) s2 = Ret () (s2\<lparr>hw := hw_touch (hw s2), procs := woken (PipeWriteChan pi) (Some pr) (procs s2)\<rparr>)"
    using ok cp by (intro wakeup_eq) (simp_all add: s2_def s1_def)
  have f: "ufetch (snd (ustore (mem s) (p_pagetable (procs s pr)) addr bs)) (p_pagetable (procs s pr)) addr k = (0, bs)" if "k = length bs"
    using ufetch_ustore [OF assms(5), of addr bs] ustored_all [OF assms(5), of addr bs] that assms(9) by (metis prod.collapse)
  have k: "k \<le> length bs" using ustored_le assms(9) by metis
  have "piperead pi addr (int n) s = Ret (int k) (s2\<lparr>hw := hw_touch (hw s), procs := woken (PipeWriteChan pi) (Some pr) (procs s)\<rparr>)"
    using ok assms(4) cp wait x(1) wk by (simp add: piperead_def with_myproc_def myproc_eq kexec flip: s1_def s2_def)
      (simp add: kexec s2_def s1_def)
  then show ?thesis
    using x(2,3) f k by (auto simp: s2_def s1_def piperead_taken_def)
qed

text \<open>A machine with an empty pipe at page \<open>0x80100000\<close> and a process whose address space is \<open>pt\<close> in the memory \<open>m\<close>.\<close>

definition idle_fs :: kfs where
  "idle_fs = klog.extend idle_log (kfs.fields
     \<lparr>sb_magic = FSMAGIC, sb_size = 2000, sb_nblocks = 1954, sb_ninodes = 200, sb_nlog = 31, sb_logstart = 2, sb_inodestart = 33, sb_bmapstart = 46\<rparr>
     (\<lambda>_. \<lparr>i_dev = 0, i_inum = 0, i_ref = 0, i_valid = 0, i_type = 0, i_major = 0, i_minor = 0, i_nlink = 0, i_size = 0, i_addrs = \<lambda>_. 0\<rparr>))"

definition idle_file :: kfile where
  "idle_file = kfs.extend idle_fs (kfile.fields
     (\<lambda>_. \<lparr>f_type = FD_NONE, f_ref = 0, f_readable = False, f_writable = False, f_pipe = 0, f_ip = None, f_off = 0, f_major = 0\<rparr>)
     (\<lambda>_. \<lparr>pi_data = \<lambda>_. 0, pi_nread = 0, pi_nwrite = 0, pi_readopen = 1, pi_writeopen = 1\<rparr>))"

lemma idle_file_fields [simp]:
  "hw idle_file = hw three_procs" "procs idle_file = procs three_procs" "bufs idle_file = bufs idle_log" "disk idle_file = disk idle_log"
  "pipes idle_file = (\<lambda>_. \<lparr>pi_data = \<lambda>_. 0, pi_nread = 0, pi_nwrite = 0, pi_readopen = 1, pi_writeopen = 1\<rparr>)"
  using idle_log_fields by (simp_all add: idle_file_def idle_fs_def klog.extend_def kfs.extend_def kfs.fields_def kfile.fields_def del: idle_log_fields)

definition in_space :: "memory \<Rightarrow> u64 \<Rightarrow> kfile" where
  "in_space m pt = idle_file\<lparr>mem := m, procs := (procs idle_file)(0 := (procs idle_file 0)\<lparr>p_pagetable := pt\<rparr>)\<rparr>"

lemma in_space_facts [simp]:
  "procs_free (hw (in_space m pt))" "c_proc (cpus (hw (in_space m pt)) (tp (hw (in_space m pt)))) = Some 0" "mem (in_space m pt) = m"
  "pipes (in_space m pt) = pipes idle_file" "p_pagetable (procs (in_space m pt) 0) = pt" "p_killed (procs (in_space m pt) 0) = 0"
  "lock_free (PipeLock pi) (hw (in_space m pt))"
  by (simp_all add: in_space_def) (simp_all add: three_procs_def lock_free_def boot_hw_def no_proc_def)

theorem pipewrite_appends_witness:
  "\<exists>m s'. pipewrite 0x80100000 0 1 (in_space m 0x87FFD000) = Ret 1 s' \<and> pipe_queue (pipes s' 0x80100000) = [m 0x87FFA000]"
proof -
  obtain t :: kvm where t: "user_ok (kend t) (mem t) 0x87FFD000" "uaddr (mem t) 0x87FFD000 0 = 0x87FFA000" using one_page_space by blast
  have "ufetch (mem t) 0x87FFD000 0 1 = (0, [mem t 0x87FFA000])" using t(2) by (simp add: ubyte_at_def PGROUNDDOWN_def)
  then show ?thesis
    using pipewrite_appends [where s = "in_space (mem t) 0x87FFD000" and pi = "0x80100000" and e = "kend t" and n = 1 and addr = 0
        and r = 0 and bs = "[mem t 0x87FFA000]"] t
    by (intro exI [of _ "mem t"]) (auto simp: pipe_queue_def)
qed

theorem piperead_takes_witness:
  "\<exists>m s'. piperead 0x80100000 0 4 ((in_space m 0x87FFD000)\<lparr>pipes := \<lambda>_. pipe_put 7 (pipes idle_file 0)\<rparr>) = Ret 1 s' \<and>
     pipe_queue (pipes s' 0x80100000) = [] \<and> mem s' 0x87FFA000 = 7"
proof -
  obtain t :: kvm where t: "user_ok (kend t) (mem t) 0x87FFD000" "uaddr (mem t) 0x87FFD000 0 = 0x87FFA000" using one_page_space by blast
  have z: "PGROUNDDOWN 0 = 0" by (simp add: PGROUNDDOWN_def)
  let ?x = "pipe_put 7 (pipes idle_file 0)"
  have x: "pipe_queue ?x = [7]" "pipe_ok ?x"
    using pipe_put_queue [of "pipes idle_file 0" 7] by (simp_all add: pipe_queue_def)
  have u: "ustored (mem t) 0x87FFD000 0 1 = 1" using t(2) z by simp
  let ?s = "(in_space (mem t) 0x87FFD000)\<lparr>pipes := \<lambda>_. ?x\<rparr>"
  have s: "procs_free (hw ?s)" "c_proc (cpus (hw ?s) (tp (hw ?s))) \<noteq> None" "lock_free (PipeLock 0x80100000) (hw ?s)"
      "user_ok (kend t) (mem ?s) (p_pagetable (procs ?s (the (c_proc (cpus (hw ?s) (tp (hw ?s)))))))" "pipe_ok (pipes ?s 0x80100000)"
      "pipe_queue (pipes ?s 0x80100000) \<noteq> [] \<or> pi_writeopen (pipes ?s 0x80100000) = 0" "[7] = take 4 (pipe_queue (pipes ?s 0x80100000))"
      "1 = ustored (mem ?s) (p_pagetable (procs ?s (the (c_proc (cpus (hw ?s) (tp (hw ?s))))))) 0 (length [7 :: u8])"
    using t x u by simp_all
  obtain s' where "piperead 0x80100000 0 (int 4) ?s = Ret (int 1) s'" "pipe_queue (pipes s' 0x80100000) = drop 1 [7]"
      "mem s' = snd (ustore (mem t) 0x87FFD000 0 [7])"
    using piperead_takes [OF s] x by auto
  moreover have "snd (ustore (mem t) 0x87FFD000 0 [7]) 0x87FFA000 = 7" using t(2) z by (simp add: ubyte_at_def)
  ultimately show ?thesis by (intro exI [of _ "mem t"] exI [of _ s']) simp
qed

end
