(* ===== verification/File.thy ===== *)
theory File
  imports Pipe
begin

text \<open>
  Open files (\<^verbatim>\<open>kernel/file.c\<close>) and the allocation of pipes (\<open>pipealloc\<close> of \<^verbatim>\<open>kernel/pipe.c\<close>). A file pointer is an index
  in \<open>ftable\<close>.
\<close>

definition upd_file :: "nat \<Rightarrow> (ofile \<Rightarrow> ofile) \<Rightarrow> ('x, unit) filefun" where
  "upd_file f g = modify (\<lambda>s. s\<lparr>files := (files s)(f := g (files s f))\<rparr>)"

definition get_file :: "nat \<Rightarrow> (ofile \<Rightarrow> 'a) \<Rightarrow> ('x, 'a) filefun" where
  "get_file f g = gets (\<lambda>s. g (files s f))"

definition fileinit :: "('x, unit) filefun" where
  "fileinit = initlock FtableLock ''ftable''"

definition filealloc :: "('x, nat option) filefun" where
  "filealloc =
     kseq (acquire FtableLock)
     (kbind (for_first [0..<NFILE] (\<lambda>f.
        kbind (get_file f f_ref) (\<lambda>ref.
        if ref = 0 then kseq (upd_file f (\<lambda>x. x\<lparr>f_ref := 1\<rparr>)) (kseq (release FtableLock) (kret (Some f)))
        else kret None)))
     (\<lambda>r. case r of Some f \<Rightarrow> kret (Some f) | None \<Rightarrow> kseq (release FtableLock) (kret None)))"

definition filedup :: "nat \<Rightarrow> ('x, nat) filefun" where
  "filedup f =
     kseq (acquire FtableLock)
     (kbind (get_file f f_ref) (\<lambda>ref.
      if ref < 1 then panic ''filedup''
      else kseq (upd_file f (\<lambda>x. x\<lparr>f_ref := f_ref x + 1\<rparr>))
        (kseq (release FtableLock)
        (kret f))))"

text \<open>A dereference of the inode pointer of a file that has none is a load through a null pointer.\<close>

definition deref_ip :: "nat option \<Rightarrow> (nat \<Rightarrow> ('x, 'a) filefun) \<Rightarrow> ('x, 'a) filefun" where
  "deref_ip ipo f = (case ipo of None \<Rightarrow> panic ''kerneltrap'' | Some ip \<Rightarrow> f ip)"

definition fileclose :: "'x file_bio \<Rightarrow> nat \<Rightarrow> ('x, unit) filefun" where
  "fileclose bio f =
     kseq (acquire FtableLock)
     (kbind (get_file f f_ref) (\<lambda>ref.
      if ref < 1 then panic ''fileclose''
      else kseq (upd_file f (\<lambda>x. x\<lparr>f_ref := f_ref x - 1\<rparr>))
        (if ref - 1 > 0 then release FtableLock
         else kbind (get_file f id) (\<lambda>ff.
           kseq (upd_file f (\<lambda>x. x\<lparr>f_ref := 0, f_type := FD_NONE\<rparr>))
           (kseq (release FtableLock)
           (if f_type ff = FD_PIPE then pipeclose (f_pipe ff) (f_writable ff)
            else if f_type ff = FD_INODE \<or> f_type ff = FD_DEVICE then
              kseq begin_op
              (kseq (deref_ip (f_ip ff) (iput bio))
              (end_op bio))
            else kskip))))))"

text \<open>\<open>struct stat\<close> as 24 bytes; the four bytes of padding before the size are not initialised by the code and are 0 here.\<close>

definition stat_bytes :: "stat \<Rightarrow> u8 list" where
  "stat_bytes st = le_bytes 4 (unat (word_of_int (st_dev st) :: u32)) @ le_bytes 4 (unat (st_ino st)) @
     le_bytes 2 (unat (st_type st)) @ le_bytes 2 (unat (st_nlink st)) @ replicate 4 0 @ le_bytes 8 (unat (st_size st))"

definition filestat :: "'x file_bio \<Rightarrow> nat \<Rightarrow> u64 \<Rightarrow> ('x, int) filefun" where
  "filestat bio f addr =
     kbind myproc (\<lambda>me.
     kbind (get_file f id) (\<lambda>x.
     if f_type x = FD_INODE \<or> f_type x = FD_DEVICE then
       kseq (ilock bio (f_ip x))
       (deref_ip (f_ip x) (\<lambda>ip.
        kbind (stati ip) (\<lambda>st.
        kseq (iunlock (f_ip x))
        (case me of None \<Rightarrow> panic ''kerneltrap'' | Some p \<Rightarrow>
          kbind (get_proc p p_pagetable) (\<lambda>pt.
          kbind (copyout pt addr (stat_bytes st)) (\<lambda>r.
          if r < 0 then kret (- 1) else kret 0))))))
     else kret (- 1)))"

definition dev_read_call :: "devop \<Rightarrow> u64 \<Rightarrow> int \<Rightarrow> ('x, int) filefun" where
  "dev_read_call d addr n = (case d of ConsoleRead \<Rightarrow> consoleread (UserDst addr) n | ConsoleWrite \<Rightarrow> consolewrite (UserSrc addr) n)"

definition bad_major :: "u16 \<Rightarrow> bool" where
  "bad_major m \<longleftrightarrow> sint m < 0 \<or> sint m \<ge> int NDEV"

definition fileread :: "'x file_bio \<Rightarrow> nat \<Rightarrow> u64 \<Rightarrow> int \<Rightarrow> ('x, int) filefun" where
  "fileread bio f addr n =
     kbind (get_file f id) (\<lambda>x.
     if \<not> f_readable x then kret (- 1)
     else case f_type x of
       FD_PIPE \<Rightarrow> piperead (f_pipe x) addr n
     | FD_DEVICE \<Rightarrow>
         kbind (gets devsws) (\<lambda>sw.
         if bad_major (f_major x) then kret (- 1)
         else (case dev_read (sw (unat (f_major x))) of None \<Rightarrow> kret (- 1) | Some d \<Rightarrow> dev_read_call d addr n))
     | FD_INODE \<Rightarrow>
         kseq (ilock bio (f_ip x))
         (deref_ip (f_ip x) (\<lambda>ip.
          kbind (get_file f f_off) (\<lambda>off.
          kbind (readi bio ip (UserDst addr) off (word_of_int n)) (\<lambda>(r, _).
          kseq (kwhen (r > 0) (upd_file f (\<lambda>x. x\<lparr>f_off := f_off x + word_of_int r\<rparr>)))
          (kseq (iunlock (f_ip x))
          (kret r))))))
     | FD_NONE \<Rightarrow> panic ''fileread'')"

text \<open>The write of at most three blocks in one transaction.\<close>

definition max_write :: int where "max_write = ((MAXOPBLOCKS - 1 - 1 - 2) div 2) * int BSIZE"

definition filewrite_round :: "'x file_bio \<Rightarrow> nat \<Rightarrow> nat option \<Rightarrow> u64 \<Rightarrow> int \<Rightarrow> int \<Rightarrow> ('x, int + int) filefun" where
  "filewrite_round bio f ipo addr n i =
     (if i < n then
        let n1 = (if n - i > max_write then max_write else n - i) in
        kseq begin_op
        (kseq (ilock bio ipo)
        (deref_ip ipo (\<lambda>ip.
         kbind (get_file f f_off) (\<lambda>off.
         kbind (writei bio ip (UserSrc (addr + word_of_int i)) off (word_of_int n1)) (\<lambda>r.
         kseq (kwhen (r > 0) (upd_file f (\<lambda>x. x\<lparr>f_off := f_off x + word_of_int r\<rparr>)))
         (kseq (iunlock ipo)
         (kseq (end_op bio)
         (if r \<noteq> n1 then leave i else again (i + r)))))))))
      else leave i)"

definition filewrite :: "'x file_bio \<Rightarrow> nat \<Rightarrow> u64 \<Rightarrow> int \<Rightarrow> ('x, int) filefun" where
  "filewrite bio f addr n =
     kbind (get_file f id) (\<lambda>x.
     if \<not> f_writable x then kret (- 1)
     else case f_type x of
       FD_PIPE \<Rightarrow> pipewrite (f_pipe x) addr n
     | FD_DEVICE \<Rightarrow>
         kbind (gets devsws) (\<lambda>sw.
         if bad_major (f_major x) then kret (- 1)
         else (case dev_write (sw (unat (f_major x))) of None \<Rightarrow> kret (- 1) | Some d \<Rightarrow> dev_read_call d addr n))
     | FD_INODE \<Rightarrow>
         kbind (kwhile (filewrite_round bio f (f_ip x) addr n) 0) (\<lambda>i. kret (if i = n then n else - 1))
     | FD_NONE \<Rightarrow> panic ''filewrite'')"

subsection \<open>Allocation of pipes\<close>

definition pipealloc_bad :: "'x file_bio \<Rightarrow> nat option \<Rightarrow> nat option \<Rightarrow> ('x, (nat \<times> nat) option) filefun" where
  "pipealloc_bad bio f0 f1 =
     kseq (case f0 of None \<Rightarrow> kskip | Some f \<Rightarrow> fileclose bio f)
     (kseq (case f1 of None \<Rightarrow> kskip | Some f \<Rightarrow> fileclose bio f)
     (kret None))"

definition pipealloc :: "'x file_bio \<Rightarrow> ('x, (nat \<times> nat) option) filefun" where
  "pipealloc bio =
     kbind filealloc (\<lambda>f0. case f0 of
       None \<Rightarrow> pipealloc_bad bio None None
     | Some r \<Rightarrow> kbind filealloc (\<lambda>f1. case f1 of
         None \<Rightarrow> pipealloc_bad bio (Some r) None
       | Some w \<Rightarrow> kbind kalloc (\<lambda>pi.
           if pi = 0 then pipealloc_bad bio (Some r) (Some w)
           else kseq (upd_pipe pi (\<lambda>x. x\<lparr>pi_readopen := 1, pi_writeopen := 1, pi_nwrite := 0, pi_nread := 0\<rparr>))
             (kseq (initlock (PipeLock pi) ''pipe'')
             (kseq (upd_file r (\<lambda>x. x\<lparr>f_type := FD_PIPE, f_readable := True, f_writable := False, f_pipe := pi\<rparr>))
             (kseq (upd_file w (\<lambda>x. x\<lparr>f_type := FD_PIPE, f_readable := False, f_writable := True, f_pipe := pi\<rparr>))
             (kret (Some (r, w)))))))))"

end
