(* ===== verification/Process.thy ===== *)
theory Process
  imports File
begin

text \<open>
  The life of a process (the rest of \<^verbatim>\<open>kernel/proc.c\<close>): the first process, \<open>fork\<close>, \<open>exit\<close> and \<open>wait\<close>. The state gets
  the fields that the trap and system-call layer adds: the tick counter of \<^verbatim>\<open>kernel/trap.c\<close>, the control registers
  that the kernel reads and writes, the interrupt controller's registers and the addresses of the assembly entry points.
\<close>

subsection \<open>State\<close>

record csrs =
  stvec :: u64
  sepc :: u64
  scause :: u64
  stval :: u64
  sstatus :: u64
  sip :: u64

record ktrap = kfile +
  ticks :: u32
  forkret_first :: int
  started :: int
  csr :: "nat \<Rightarrow> csrs"
  plic_claims :: "nat \<Rightarrow> u32"
  plic_regs :: "nat \<Rightarrow> u32"
  kernelvec_addr :: u64
  uservec_addr :: u64
  userret_addr :: u64
  usertrap_addr :: u64

type_synonym ('x, 'a) trapfun = "('x ktrap_scheme, 'a) kfun"
type_synonym 'x trap_bio = "('x ktrap_scheme) block_ops"

subsection \<open>Operations\<close>

definition initcode :: "u8 list" where
  "initcode = [
     0x17, 0x05, 0x00, 0x00, 0x13, 0x05, 0x45, 0x02,
     0x97, 0x05, 0x00, 0x00, 0x93, 0x85, 0x35, 0x02,
     0x93, 0x08, 0x70, 0x00, 0x73, 0x00, 0x00, 0x00,
     0x93, 0x08, 0x20, 0x00, 0x73, 0x00, 0x00, 0x00,
     0xef, 0xf0, 0x9f, 0xff, 0x2f, 0x69, 0x6e, 0x69,
     0x74, 0x00, 0x00, 0x24, 0x00, 0x00, 0x00, 0x00,
     0x00, 0x00, 0x00, 0x00]"

definition cstring :: "string \<Rightarrow> u8 list" where
  "cstring s = map of_char s"

definition userinit :: "'x file_bio \<Rightarrow> ('x, unit) filefun" where
  "userinit bio =
     kbind allocproc (\<lambda>po.
     kseq (modify (\<lambda>s. s\<lparr>initproc := po\<rparr>))
     (case po of None \<Rightarrow> panic ''kerneltrap'' | Some p \<Rightarrow>
       kbind (get_proc p p_pagetable) (\<lambda>pt.
       kseq (uvmfirst pt initcode (word_of_nat (length initcode)))
       (kseq (upd_proc p (\<lambda>x. x\<lparr>p_sz := PGSIZE\<rparr>))
       (kseq (store_tf p tf_epc 0)
       (kseq (store_tf p tf_sp PGSIZE)
       (kseq (upd_proc p (\<lambda>x. x\<lparr>p_name := safestrcpy (p_name x) (list_ptr (cstring ''initcode'')) 16\<rparr>))
       (kbind (namei bio (cstring ''/'')) (\<lambda>ip.
        kseq (upd_proc p (\<lambda>x. x\<lparr>p_cwd := ip\<rparr>))
        (kseq (upd_proc p (\<lambda>x. x\<lparr>p_state := RUNNABLE\<rparr>))
        (release (ProcLock p))))))))))))"

definition copy_trapframe :: "nat \<Rightarrow> nat \<Rightarrow> ('x, unit) procfun" where
  "copy_trapframe np p =
     kbind (get_proc np p_trapframe) (\<lambda>dst. kbind (get_proc p p_trapframe) (\<lambda>src.
     mem_modify (\<lambda>m. mem_write m (unat dst) (mem_read m (unat src) tf_size))))"

definition dup_files :: "nat \<Rightarrow> nat \<Rightarrow> ('x, unit) filefun" where
  "dup_files np p =
     for_each [0..<NOFILE] (\<lambda>i.
       kbind (get_proc p (\<lambda>x. p_ofile x i)) (\<lambda>fo. case fo of None \<Rightarrow> kskip | Some f \<Rightarrow>
         kbind (filedup f) (\<lambda>f'. upd_proc np (\<lambda>x. x\<lparr>p_ofile := (p_ofile x)(i := Some f')\<rparr>))))"

text \<open>The last part of \<open>fork\<close>: publishing the child.\<close>

definition fork_publish :: "nat \<Rightarrow> nat \<Rightarrow> ('x, int) filefun" where
  "fork_publish np p =
     kbind (get_proc np p_pid) (\<lambda>pid.
     kseq (release (ProcLock np))
     (kseq (acquire WaitLock)
     (kseq (upd_proc np (\<lambda>x. x\<lparr>p_parent := Some p\<rparr>))
     (kseq (release WaitLock)
     (kseq (acquire (ProcLock np))
     (kseq (upd_proc np (\<lambda>x. x\<lparr>p_state := RUNNABLE\<rparr>))
     (kseq (release (ProcLock np))
     (kret pid))))))))"

text \<open>The copying part of \<open>fork\<close>, between the copy of the memory and the publication.\<close>

definition fork_copy :: "nat \<Rightarrow> nat \<Rightarrow> ('x, unit) filefun" where
  "fork_copy np p =
     kbind (get_proc p id) (\<lambda>x.
     kseq (upd_proc np (\<lambda>y. y\<lparr>p_sz := p_sz x\<rparr>))
     (kseq (upd_proc np (\<lambda>y. y\<lparr>p_trace_mask := p_trace_mask x\<rparr>))
     (kseq (copy_trapframe np p)
     (kseq (store_tf np (tf_a 0) 0)
     (kseq (dup_files np p)
     (kbind (deref_ip (p_cwd x) idup) (\<lambda>ip.
      kseq (upd_proc np (\<lambda>y. y\<lparr>p_cwd := Some ip\<rparr>))
      (upd_proc np (\<lambda>y. y\<lparr>p_name := safestrcpy (p_name y) (p_name x) 16\<rparr>)))))))))"

definition fork :: "('x, int) filefun" where
  "fork =
     with_myproc (\<lambda>p.
     kbind allocproc (\<lambda>npo. case npo of None \<Rightarrow> kret (- 1) | Some np \<Rightarrow>
       kbind (get_proc p p_pagetable) (\<lambda>old. kbind (get_proc np p_pagetable) (\<lambda>new. kbind (get_proc p p_sz) (\<lambda>sz.
       kbind (uvmcopy old new sz) (\<lambda>r.
       if r < 0 then kseq (freeproc np) (kseq (release (ProcLock np)) (kret (- 1)))
       else kseq (fork_copy np p) (fork_publish np p)))))))"

definition close_files :: "'x file_bio \<Rightarrow> nat \<Rightarrow> ('x, unit) filefun" where
  "close_files bio p =
     for_each [0..<NOFILE] (\<lambda>fd.
       kbind (get_proc p (\<lambda>x. p_ofile x fd)) (\<lambda>fo. case fo of None \<Rightarrow> kskip | Some f \<Rightarrow>
         kseq (fileclose bio f)
         (upd_proc p (\<lambda>x. x\<lparr>p_ofile := (p_ofile x)(fd := None)\<rparr>))))"

text \<open>\<open>exit\<close> does not return: after the switch in \<open>sched\<close> it panics. Nobody sleeps on a null channel, so waking a
  missing parent does nothing.\<close>

definition exit_zombie :: "nat \<Rightarrow> int \<Rightarrow> ('x, 'a) filefun" where
  "exit_zombie p status =
     kseq (acquire WaitLock)
     (kseq (reparent p)
     (kbind (get_proc p p_parent) (\<lambda>par.
      kseq (case par of None \<Rightarrow> kskip | Some q \<Rightarrow> wakeup (ProcChan q))
      (kseq (acquire (ProcLock p))
      (kseq (upd_proc p (\<lambda>x. x\<lparr>p_xstate := status\<rparr>))
      (kseq (upd_proc p (\<lambda>x. x\<lparr>p_state := ZOMBIE\<rparr>))
      (kseq (release WaitLock)
      (kseq sched
      (panic ''zombie exit'')))))))))"

definition exit :: "'x file_bio \<Rightarrow> int \<Rightarrow> ('x, 'a) filefun" where
  "exit bio status =
     with_myproc (\<lambda>p.
     kbind (gets initproc) (\<lambda>ini.
     if Some p = ini then panic ''init exiting''
     else kseq (close_files bio p)
       (kseq begin_op
       (kbind (get_proc p p_cwd) (\<lambda>cwd.
        kseq (deref_ip cwd (iput bio))
        (kseq (end_op bio)
        (kseq (upd_proc p (\<lambda>x. x\<lparr>p_cwd := None\<rparr>))
        (exit_zombie p status))))))))"

text \<open>The scan of \<open>wait\<close>: a value to return, or whether there are children.\<close>

definition reap :: "nat \<Rightarrow> u64 \<Rightarrow> nat \<Rightarrow> ('x, int) procfun" where
  "reap p addr pp =
     kbind (get_proc pp p_pid) (\<lambda>pid. kbind (get_proc p p_pagetable) (\<lambda>pt. kbind (get_proc pp p_xstate) (\<lambda>xs.
     kbind (if addr \<noteq> 0 then copyout pt addr (le_bytes 4 (unat (word_of_int xs :: u32))) else kret 0) (\<lambda>r.
     if r < 0 then
       kseq (release (ProcLock pp)) (kseq (release WaitLock) (kret (- 1)))
     else
       kseq (freeproc pp)
       (kseq (release (ProcLock pp))
       (kseq (release WaitLock)
       (kret pid)))))))"

fun wait_scan :: "nat \<Rightarrow> u64 \<Rightarrow> nat list \<Rightarrow> bool \<Rightarrow> ('x, int option \<times> bool) procfun" where
  "wait_scan p addr [] havekids = kret (None, havekids)"
| "wait_scan p addr (pp # pps) havekids =
     kbind (get_proc pp p_parent) (\<lambda>par.
     if par = Some p then
       kseq (acquire (ProcLock pp))
       (kbind (get_proc pp p_state) (\<lambda>st.
        if st = ZOMBIE then kbind (reap p addr pp) (\<lambda>v. kret (Some v, True))
        else kseq (release (ProcLock pp)) (wait_scan p addr pps True)))
     else wait_scan p addr pps havekids)"

definition wait_round :: "nat \<Rightarrow> u64 \<Rightarrow> ('x, int option) procfun" where
  "wait_round p addr =
     kbind (wait_scan p addr [0..<NPROC] False) (\<lambda>(res, havekids). case res of
       Some v \<Rightarrow> kret (Some v)
     | None \<Rightarrow> kbind (if \<not> havekids then kret 1 else killed p) (\<lambda>stop.
         if stop \<noteq> 0 then kseq (release WaitLock) (kret (Some (- 1)))
         else kseq (sleep (ProcChan p) WaitLock) (kret None)))"

definition wait :: "u64 \<Rightarrow> ('x, int) procfun" where
  "wait addr = with_myproc (\<lambda>p. kseq (acquire WaitLock) (kloop (wait_round p addr)))"

end
