(* ===== verification/Exec.thy ===== *)
theory Exec
  imports Process
begin

text \<open>
  \<open>exec\<close> (\<^verbatim>\<open>kernel/exec.c\<close>, \<^verbatim>\<open>kernel/elf.h\<close>): loading an ELF image into a new address space, building the argument stack
  and committing to the new image. The ELF header and the program headers are the bytes that \<open>readi\<close> returns for local
  variables. \<open>argv\<close> is the list of the pages that hold the argument strings, without the final null pointer.
\<close>

subsection \<open>ELF\<close>

definition ELF_MAGIC :: u32 where "ELF_MAGIC = 0x464C457F"
definition ELF_PROG_LOAD :: u32 where "ELF_PROG_LOAD = 1"

definition field :: "u8 list \<Rightarrow> nat \<Rightarrow> nat \<Rightarrow> nat" where
  "field bs off n = le_val (take n (drop off bs))"

record elfhdr =
  elf_magic :: u32
  elf_entry :: u64
  elf_phoff :: u64
  elf_phnum :: u16

record proghdr =
  ph_type :: u32
  ph_flags :: u32
  ph_off :: u64
  ph_vaddr :: u64
  ph_filesz :: u64
  ph_memsz :: u64

definition sizeof_elfhdr :: nat where "sizeof_elfhdr = 64"
definition sizeof_proghdr :: nat where "sizeof_proghdr = 56"

definition elf_of :: "u8 list \<Rightarrow> elfhdr" where
  "elf_of bs = \<lparr>elf_magic = word_of_nat (field bs 0 4), elf_entry = word_of_nat (field bs 24 8),
     elf_phoff = word_of_nat (field bs 32 8), elf_phnum = word_of_nat (field bs 56 2)\<rparr>"

definition ph_of :: "u8 list \<Rightarrow> proghdr" where
  "ph_of bs = \<lparr>ph_type = word_of_nat (field bs 0 4), ph_flags = word_of_nat (field bs 4 4),
     ph_off = word_of_nat (field bs 8 8), ph_vaddr = word_of_nat (field bs 16 8),
     ph_filesz = word_of_nat (field bs 32 8), ph_memsz = word_of_nat (field bs 40 8)\<rparr>"

definition flags2perm :: "u32 \<Rightarrow> u64" where
  "flags2perm flags =
     (let perm = (if flags AND 0x1 \<noteq> 0 then PTE_X else 0) in
      if flags AND 0x2 \<noteq> 0 then perm OR PTE_W else perm)"

subsection \<open>Loading\<close>

definition loadseg_round :: "'x file_bio \<Rightarrow> u64 \<Rightarrow> u64 \<Rightarrow> nat \<Rightarrow> u32 \<Rightarrow> u32 \<Rightarrow> u32 \<Rightarrow> ('x, u32 + int) filefun" where
  "loadseg_round bio pt va ip offset sz i =
     (if i < sz then
        kbind (walkaddr pt (va + ucast i)) (\<lambda>pa.
        if pa = 0 then panic ''loadseg: address should exist''
        else
          let n = (if sz - i < ucast PGSIZE then sz - i else ucast PGSIZE) in
          kbind (readi bio ip (KernDst pa) (offset + i) n) (\<lambda>(r, _).
          if word_of_int r \<noteq> n then leave (- 1) else again (i + ucast PGSIZE)))
      else leave 0)"

definition loadseg :: "'x file_bio \<Rightarrow> u64 \<Rightarrow> u64 \<Rightarrow> nat \<Rightarrow> u32 \<Rightarrow> u32 \<Rightarrow> ('x, int) filefun" where
  "loadseg bio pt va ip offset sz = kwhile (loadseg_round bio pt va ip offset sz) 0"

text \<open>The loop over the program headers; it leaves with whether all were loaded and the size so far.\<close>

definition exec_load_round :: "'x file_bio \<Rightarrow> u64 \<Rightarrow> nat \<Rightarrow> elfhdr \<Rightarrow> nat \<times> u32 \<times> u64 \<Rightarrow>
    ('x, nat \<times> u32 \<times> u64 + bool \<times> u64) filefun" where
  "exec_load_round bio pt ip elf = (\<lambda>(i, off, sz).
     if i < unat (elf_phnum elf) then
       kbind (readi bio ip LocalDst off (word_of_nat sizeof_proghdr)) (\<lambda>(r, bs).
       let ph = ph_of bs in
       if r \<noteq> int sizeof_proghdr then leave (False, sz)
       else if ph_type ph \<noteq> ELF_PROG_LOAD then again (i + 1, off + word_of_nat sizeof_proghdr, sz)
       else if ph_memsz ph < ph_filesz ph then leave (False, sz)
       else if ph_vaddr ph + ph_memsz ph < ph_vaddr ph then leave (False, sz)
       else if ph_vaddr ph mod PGSIZE \<noteq> 0 then leave (False, sz)
       else kbind (uvmalloc pt sz (ph_vaddr ph + ph_memsz ph) (flags2perm (ph_flags ph))) (\<lambda>sz1.
         if sz1 = 0 then leave (False, sz)
         else kbind (loadseg bio pt (ph_vaddr ph) ip (ucast (ph_off ph)) (ucast (ph_filesz ph))) (\<lambda>r.
           if r < 0 then leave (False, sz1)
           else again (i + 1, off + word_of_nat sizeof_proghdr, sz1))))
     else leave (True, sz))"

definition exec_bad :: "'x file_bio \<Rightarrow> u64 \<Rightarrow> u64 \<Rightarrow> nat option \<Rightarrow> ('x, int) filefun" where
  "exec_bad bio pt sz ipo =
     kseq (kwhen (pt \<noteq> 0) (proc_freepagetable pt sz))
     (kseq (case ipo of None \<Rightarrow> kskip | Some ip \<Rightarrow> kseq (iunlockput bio ip) (end_op bio))
     (kret (- 1)))"

subsection \<open>The argument stack\<close>

definition string_at :: "u64 \<Rightarrow> ('x, u8 list) kmemfun" where
  "string_at p = gets (\<lambda>s. takeWhile (\<lambda>b. b \<noteq> 0) (mem_read (mem s) (unat p) (unat PGSIZE)))"

text \<open>Pushing the strings; the result is the stack pointer and the addresses of the strings, or nothing.\<close>

definition exec_args_round :: "u64 \<Rightarrow> u64 \<Rightarrow> u64 list \<times> u64 \<times> u64 list \<Rightarrow>
    ('x, u64 list \<times> u64 \<times> u64 list + (u64 \<times> u64 list) option) filefun" where
  "exec_args_round pt stackbase = (\<lambda>(argv, sp, ustack). case argv of
     [] \<Rightarrow> leave (Some (sp, ustack))
   | a # rest \<Rightarrow>
       if length ustack \<ge> MAXARG then leave None
       else kbind (string_at a) (\<lambda>str.
         let sp1 = sp - word_of_nat (length str + 1); sp2 = sp1 - sp1 mod 16 in
         if sp2 < stackbase then leave None
         else kbind (copyout pt sp2 (str @ [0])) (\<lambda>r.
           if r < 0 then leave None else again (rest, sp2, ustack @ [sp2]))))"

definition u64_bytes :: "u64 list \<Rightarrow> u8 list" where
  "u64_bytes ws = concat (map (\<lambda>w. le_bytes 8 (unat w)) ws)"

definition exec_stack :: "u64 \<Rightarrow> u64 \<Rightarrow> u64 list \<Rightarrow> ('x, (u64 \<times> nat) option) filefun" where
  "exec_stack pt sz argv =
     (let stackbase = sz - PGSIZE in
      kbind (kwhile (exec_args_round pt stackbase) (argv, sz, [])) (\<lambda>res. case res of
        None \<Rightarrow> kret None
      | Some (sp, ustack) \<Rightarrow>
          let argc = length ustack; sp1 = sp - word_of_nat ((argc + 1) * 8); sp2 = sp1 - sp1 mod 16 in
          if sp2 < stackbase then kret None
          else kbind (copyout pt sp2 (u64_bytes (ustack @ [0]))) (\<lambda>r.
            if r < 0 then kret None else kret (Some (sp2, argc)))))"

definition last_elem :: "u8 list \<Rightarrow> u8 list" where
  "last_elem p = rev (takeWhile (\<lambda>c. c \<noteq> slash) (rev p))"

subsection \<open>The system call\<close>

definition exec_commit :: "nat \<Rightarrow> u8 list \<Rightarrow> elfhdr \<Rightarrow> u64 \<Rightarrow> u64 \<Rightarrow> u64 \<Rightarrow> u64 \<Rightarrow> nat \<Rightarrow> ('x, int) filefun" where
  "exec_commit p fname elf pt sz oldsz sp argc =
     kseq (store_tf p (tf_a 1) sp)
     (kseq (upd_proc p (\<lambda>x. x\<lparr>p_name := safestrcpy (p_name x) (list_ptr (last_elem fname)) 16\<rparr>))
     (kbind (get_proc p p_pagetable) (\<lambda>oldpt.
      kseq (upd_proc p (\<lambda>x. x\<lparr>p_pagetable := pt\<rparr>))
      (kseq (upd_proc p (\<lambda>x. x\<lparr>p_sz := sz\<rparr>))
      (kseq (store_tf p tf_epc (elf_entry elf))
      (kseq (store_tf p tf_sp sp)
      (kseq (proc_freepagetable oldpt oldsz)
      (kret (int argc)))))))))"

definition exec_image :: "'x file_bio \<Rightarrow> nat \<Rightarrow> u8 list \<Rightarrow> u64 list \<Rightarrow> elfhdr \<Rightarrow> u64 \<Rightarrow> u64 \<Rightarrow> ('x, int) filefun" where
  "exec_image bio p fname argv elf pt sz0 =
     kbind (get_proc p p_sz) (\<lambda>oldsz.
     let sz = PGROUNDUP sz0 in
     kbind (uvmalloc pt sz (sz + 2 * PGSIZE) PTE_W) (\<lambda>sz1.
     if sz1 = 0 then exec_bad bio pt sz None
     else kseq (uvmclear pt (sz1 - 2 * PGSIZE))
       (kbind (exec_stack pt sz1 argv) (\<lambda>res. case res of
          None \<Rightarrow> exec_bad bio pt sz1 None
        | Some (sp, argc) \<Rightarrow> exec_commit p fname elf pt sz1 oldsz sp argc))))"

definition exec :: "'x file_bio \<Rightarrow> u8 list \<Rightarrow> u64 list \<Rightarrow> ('x, int) filefun" where
  "exec bio fname argv =
     with_myproc (\<lambda>p.
     kseq begin_op
     (kbind (namei bio fname) (\<lambda>ipo. case ipo of
        None \<Rightarrow> kseq (end_op bio) (kret (- 1))
      | Some ip \<Rightarrow>
        kseq (ilock bio (Some ip))
        (kbind (readi bio ip LocalDst 0 (word_of_nat sizeof_elfhdr)) (\<lambda>(r, bs).
         let elf = elf_of bs in
         if r \<noteq> int sizeof_elfhdr then exec_bad bio 0 0 (Some ip)
         else if elf_magic elf \<noteq> ELF_MAGIC then exec_bad bio 0 0 (Some ip)
         else kbind (proc_pagetable p) (\<lambda>pt.
           if pt = 0 then exec_bad bio 0 0 (Some ip)
           else kbind (kwhile (exec_load_round bio pt ip elf) (0, ucast (elf_phoff elf), 0)) (\<lambda>(ok, sz).
             if \<not> ok then exec_bad bio pt sz (Some ip)
             else kseq (iunlockput bio ip)
               (kseq (end_op bio)
               (exec_image bio p fname argv elf pt sz)))))))))"

end
