(* ===== verification/Sysproc.thy ===== *)
theory Sysproc
  imports Exec
begin

text \<open>
  System-call arguments (\<^verbatim>\<open>kernel/syscall.c\<close>) and the system calls on processes, including the two that MP1 adds,
  \<open>trace\<close> and \<open>sysinfo\<close> (\<^verbatim>\<open>kernel/sysproc.c\<close>, \<^verbatim>\<open>kernel/sysinfo.h\<close>). A handler returns the 64-bit value that goes to
  \<open>a0\<close>.
\<close>

subsection \<open>Arguments\<close>

definition sizeof_u64 :: nat where "sizeof_u64 = 8"

definition fetchaddr :: "u64 \<Rightarrow> ('x, int \<times> u64) procfun" where
  "fetchaddr addr =
     with_myproc (\<lambda>p.
     kbind (get_proc p p_sz) (\<lambda>sz. kbind (get_proc p p_pagetable) (\<lambda>pt.
     if addr \<ge> sz \<or> addr + word_of_nat sizeof_u64 > sz then kret (- 1, 0)
     else kbind (copyin pt addr sizeof_u64) (\<lambda>(r, bs).
       if r \<noteq> 0 then kret (- 1, 0) else kret (0, word_of_nat (le_val bs))))))"

text \<open>The string is returned without its NUL.\<close>

definition fetchstr :: "u64 \<Rightarrow> nat \<Rightarrow> ('x, int \<times> u8 list) procfun" where
  "fetchstr addr mx =
     with_myproc (\<lambda>p.
     kbind (get_proc p p_pagetable) (\<lambda>pt.
     kbind (copyinstr pt addr mx) (\<lambda>(r, bs).
     if r < 0 then kret (- 1, [])
     else let str = takeWhile (\<lambda>b. b \<noteq> 0) bs in kret (int (length str), str))))"

definition argraw :: "nat \<Rightarrow> ('x, u64) procfun" where
  "argraw n = with_myproc (\<lambda>p. if n < 6 then load_tf p (tf_a n) else panic ''argraw'')"

definition argint :: "nat \<Rightarrow> ('x, int) procfun" where
  "argint n = kbind (argraw n) (\<lambda>w. kret (sint (ucast w :: u32)))"

definition argaddr :: "nat \<Rightarrow> ('x, u64) procfun" where
  "argaddr n = argraw n"

definition argstr :: "nat \<Rightarrow> nat \<Rightarrow> ('x, int \<times> u8 list) procfun" where
  "argstr n mx = kbind (argaddr n) (\<lambda>addr. fetchstr addr mx)"

subsection \<open>System calls\<close>

definition sys_exit :: "'x trap_bio \<Rightarrow> ('x, u64) trapfun" where
  "sys_exit bio = kbind (argint 0) (\<lambda>n. exit bio n)"

definition sys_getpid :: "('x, u64) trapfun" where
  "sys_getpid = with_myproc (\<lambda>p. kbind (get_proc p p_pid) (\<lambda>pid. kret (word_of_int pid)))"

definition sys_fork :: "('x, u64) trapfun" where
  "sys_fork = kbind fork (\<lambda>r. kret (word_of_int r))"

definition sys_wait :: "('x, u64) trapfun" where
  "sys_wait = kbind (argaddr 0) (\<lambda>p. kbind (wait p) (\<lambda>r. kret (word_of_int r)))"

definition sys_sbrk :: "('x, u64) trapfun" where
  "sys_sbrk =
     kbind (argint 0) (\<lambda>n.
     kbind (with_myproc (\<lambda>p. get_proc p p_sz)) (\<lambda>addr.
     kbind (growproc n) (\<lambda>r.
     if r < 0 then kret (- 1) else kret addr)))"

text \<open>The loop of \<open>sys_sleep\<close>: \<open>True\<close> when the process was killed.\<close>

definition sys_sleep_round :: "u32 \<Rightarrow> int \<Rightarrow> ('x, bool option) trapfun" where
  "sys_sleep_round ticks0 n =
     kbind (gets ticks) (\<lambda>t.
     if t - ticks0 < word_of_int n then
       kbind (with_myproc killed) (\<lambda>k.
       if k \<noteq> 0 then kseq (release TicksLock) (kret (Some True))
       else kseq (sleep TicksChan TicksLock) (kret None))
     else kret (Some False))"

definition sys_sleep :: "('x, u64) trapfun" where
  "sys_sleep =
     kbind (argint 0) (\<lambda>n0.
     let n = (if n0 < 0 then 0 else n0) in
     kseq (acquire TicksLock)
     (kbind (gets ticks) (\<lambda>ticks0.
      kbind (kloop (sys_sleep_round ticks0 n)) (\<lambda>dead.
      if dead then kret (- 1)
      else kseq (release TicksLock) (kret 0)))))"

definition sys_kill :: "('x, u64) trapfun" where
  "sys_kill = kbind (argint 0) (\<lambda>pid. kbind (kill pid) (\<lambda>r. kret (word_of_int r)))"

definition sys_uptime :: "('x, u64) trapfun" where
  "sys_uptime =
     kseq (acquire TicksLock)
     (kbind (gets ticks) (\<lambda>xticks.
      kseq (release TicksLock)
      (kret (ucast xticks))))"

definition sys_trace :: "('x, u64) trapfun" where
  "sys_trace =
     kbind (argint 0) (\<lambda>mask.
     with_myproc (\<lambda>p. kseq (upd_proc p (\<lambda>x. x\<lparr>p_trace_mask := mask\<rparr>)) (kret 0)))"

record sysinfo =
  si_freemem :: u64
  si_nproc :: u64

definition sysinfo_bytes :: "sysinfo \<Rightarrow> u8 list" where
  "sysinfo_bytes si = le_bytes 8 (unat (si_freemem si)) @ le_bytes 8 (unat (si_nproc si))"

definition sys_sysinfo :: "('x, u64) trapfun" where
  "sys_sysinfo =
     kbind (argaddr 0) (\<lambda>uaddr.
     kbind getfreemem (\<lambda>fm.
     kbind getnproc (\<lambda>np.
     with_myproc (\<lambda>p. kbind (get_proc p p_pagetable) (\<lambda>pt.
     kbind (copyout pt uaddr (sysinfo_bytes \<lparr>si_freemem = fm, si_nproc = word_of_int np\<rparr>)) (\<lambda>r.
     if r < 0 then kret (- 1) else kret 0))))))"

end
