(* ===== verification/Sysfile.thy ===== *)
theory Sysfile
  imports Sysproc
begin

text \<open>
  The system calls on files (\<^verbatim>\<open>kernel/sysfile.c\<close>). The \<^verbatim>\<open>goto bad\<close> and \<^verbatim>\<open>goto fail\<close> exits are functions of
  their own.
\<close>

subsection \<open>Descriptors\<close>

text \<open>The descriptor and the file, when the argument names an open one.\<close>

definition argfd :: "nat \<Rightarrow> ('x, (int \<times> nat) option) trapfun" where
  "argfd n =
     kbind (argint n) (\<lambda>fd.
     if fd < 0 \<or> fd \<ge> int NOFILE then kret None
     else with_myproc (\<lambda>p. kbind (get_proc p (\<lambda>x. p_ofile x (nat fd))) (\<lambda>fo. case fo of
       None \<Rightarrow> kret None | Some f \<Rightarrow> kret (Some (fd, f)))))"

definition fdalloc :: "nat \<Rightarrow> ('x, int) trapfun" where
  "fdalloc f =
     with_myproc (\<lambda>p.
     kbind (for_first [0..<NOFILE] (\<lambda>fd.
       kbind (get_proc p (\<lambda>x. p_ofile x fd)) (\<lambda>fo.
       if fo = None then kseq (upd_proc p (\<lambda>x. x\<lparr>p_ofile := (p_ofile x)(fd := Some f)\<rparr>)) (kret (Some (int fd)))
       else kret None)))
     (\<lambda>r. case r of Some fd \<Rightarrow> kret fd | None \<Rightarrow> kret (- 1)))"

definition sys_dup :: "('x, u64) trapfun" where
  "sys_dup =
     kbind (argfd 0) (\<lambda>a. case a of None \<Rightarrow> kret (- 1) | Some (_, f) \<Rightarrow>
       kbind (fdalloc f) (\<lambda>fd.
       if fd < 0 then kret (- 1)
       else kbind (filedup f) (\<lambda>_. kret (word_of_int fd))))"

definition sys_read :: "'x trap_bio \<Rightarrow> ('x, u64) trapfun" where
  "sys_read bio =
     kbind (argaddr 1) (\<lambda>p. kbind (argint 2) (\<lambda>n.
     kbind (argfd 0) (\<lambda>a. case a of None \<Rightarrow> kret (- 1) | Some (_, f) \<Rightarrow>
       kbind (fileread bio f p n) (\<lambda>r. kret (word_of_int r)))))"

definition sys_write :: "'x trap_bio \<Rightarrow> ('x, u64) trapfun" where
  "sys_write bio =
     kbind (argaddr 1) (\<lambda>p. kbind (argint 2) (\<lambda>n.
     kbind (argfd 0) (\<lambda>a. case a of None \<Rightarrow> kret (- 1) | Some (_, f) \<Rightarrow>
       kbind (filewrite bio f p n) (\<lambda>r. kret (word_of_int r)))))"

definition clear_fd :: "int \<Rightarrow> ('x, unit) trapfun" where
  "clear_fd fd = with_myproc (\<lambda>p. upd_proc p (\<lambda>x. x\<lparr>p_ofile := (p_ofile x)(nat fd := None)\<rparr>))"

definition sys_close :: "'x trap_bio \<Rightarrow> ('x, u64) trapfun" where
  "sys_close bio =
     kbind (argfd 0) (\<lambda>a. case a of None \<Rightarrow> kret (- 1) | Some (fd, f) \<Rightarrow>
       kseq (clear_fd fd)
       (kseq (fileclose bio f)
       (kret 0)))"

definition sys_fstat :: "'x trap_bio \<Rightarrow> ('x, u64) trapfun" where
  "sys_fstat bio =
     kbind (argaddr 1) (\<lambda>st.
     kbind (argfd 0) (\<lambda>a. case a of None \<Rightarrow> kret (- 1) | Some (_, f) \<Rightarrow>
       kbind (filestat bio f st) (\<lambda>r. kret (word_of_int r))))"

subsection \<open>Links\<close>

definition end_fail :: "'x trap_bio \<Rightarrow> ('x, u64) trapfun" where
  "end_fail bio = kseq (end_op bio) (kret (- 1))"

definition link_bad :: "'x trap_bio \<Rightarrow> nat \<Rightarrow> ('x, u64) trapfun" where
  "link_bad bio ip =
     kseq (ilock bio (Some ip))
     (kseq (upd_inode ip (\<lambda>x. x\<lparr>i_nlink := i_nlink x - 1\<rparr>))
     (kseq (iupdate bio ip)
     (kseq (iunlockput bio ip)
     (end_fail bio))))"

definition sys_link :: "'x trap_bio \<Rightarrow> ('x, u64) trapfun" where
  "sys_link bio =
     kbind (argstr 0 MAXPATH) (\<lambda>(r, old). if r < 0 then kret (- 1) else
     kbind (argstr 1 MAXPATH) (\<lambda>(r, new). if r < 0 then kret (- 1) else
     kseq begin_op
     (kbind (namei bio old) (\<lambda>ipo. case ipo of None \<Rightarrow> end_fail bio | Some ip \<Rightarrow>
       kseq (ilock bio (Some ip))
       (kbind (get_inode ip i_type) (\<lambda>t.
        if t = T_DIR then kseq (iunlockput bio ip) (end_fail bio)
        else kseq (upd_inode ip (\<lambda>x. x\<lparr>i_nlink := i_nlink x + 1\<rparr>))
          (kseq (iupdate bio ip)
          (kseq (iunlock (Some ip))
          (kbind (nameiparent bio new) (\<lambda>(dpo, name). case dpo of None \<Rightarrow> link_bad bio ip | Some dp \<Rightarrow>
            kseq (ilock bio (Some dp))
            (kbind (get_inode dp i_dev) (\<lambda>ddev. kbind (get_inode ip i_dev) (\<lambda>idev. kbind (get_inode ip i_inum) (\<lambda>inum.
             kbind (if ddev \<noteq> idev then kret (- 1) else dirlink bio dp name inum) (\<lambda>r.
             if r < 0 then kseq (iunlockput bio dp) (link_bad bio ip)
             else kseq (iunlockput bio dp)
               (kseq (iput bio ip)
               (kseq (end_op bio)
               (kret 0))))))))))))))))))"

definition isdirempty_round :: "'x trap_bio \<Rightarrow> nat \<Rightarrow> u32 \<Rightarrow> ('x, u32 + bool) trapfun" where
  "isdirempty_round bio dp off =
     kbind (get_inode dp i_size) (\<lambda>sz.
     if off < sz then
       kbind (read_dirent bio ''isdirempty: readi'' dp off) (\<lambda>de.
       if de_inum de \<noteq> 0 then leave False else again (off + word_of_nat sizeof_dirent))
     else leave True)"

definition isdirempty :: "'x trap_bio \<Rightarrow> nat \<Rightarrow> ('x, bool) trapfun" where
  "isdirempty bio dp = kwhile (isdirempty_round bio dp) (word_of_nat (2 * sizeof_dirent))"

definition unlink_bad :: "'x trap_bio \<Rightarrow> nat \<Rightarrow> ('x, u64) trapfun" where
  "unlink_bad bio dp = kseq (iunlockput bio dp) (end_fail bio)"

text \<open>Removing the entry at \<open>off\<close> of \<open>dp\<close>, which names \<open>ip\<close>; both inodes are locked.\<close>

definition unlink_entry :: "'x trap_bio \<Rightarrow> nat \<Rightarrow> nat \<Rightarrow> u32 \<Rightarrow> ('x, u64) trapfun" where
  "unlink_entry bio dp ip off =
     kbind (writei bio dp (LocalSrc (replicate sizeof_dirent 0)) off (word_of_nat sizeof_dirent)) (\<lambda>r.
     if r \<noteq> int sizeof_dirent then panic ''unlink: writei''
     else kbind (get_inode ip i_type) (\<lambda>t.
       kseq (kwhen (t = T_DIR)
         (kseq (upd_inode dp (\<lambda>x. x\<lparr>i_nlink := i_nlink x - 1\<rparr>)) (iupdate bio dp)))
       (kseq (iunlockput bio dp)
       (kseq (upd_inode ip (\<lambda>x. x\<lparr>i_nlink := i_nlink x - 1\<rparr>))
       (kseq (iupdate bio ip)
       (kseq (iunlockput bio ip)
       (kseq (end_op bio)
       (kret 0))))))))"

definition sys_unlink :: "'x trap_bio \<Rightarrow> ('x, u64) trapfun" where
  "sys_unlink bio =
     kbind (argstr 0 MAXPATH) (\<lambda>(r, p). if r < 0 then kret (- 1) else
     kseq begin_op
     (kbind (nameiparent bio p) (\<lambda>(dpo, name). case dpo of None \<Rightarrow> end_fail bio | Some dp \<Rightarrow>
       kseq (ilock bio (Some dp))
       (if namecmp name (cstring ''.'') = 0 \<or> namecmp name (cstring ''..'') = 0 then unlink_bad bio dp
        else kbind (dirlookup bio dp name) (\<lambda>found. case found of None \<Rightarrow> unlink_bad bio dp | Some (ip, off) \<Rightarrow>
          kseq (ilock bio (Some ip))
          (kbind (get_inode ip id) (\<lambda>x.
           if sint (i_nlink x) < 1 then panic ''unlink: nlink < 1''
           else kbind (if i_type x = T_DIR then isdirempty bio ip else kret True) (\<lambda>ok.
             if \<not> ok then kseq (iunlockput bio ip) (unlink_bad bio dp)
             else unlink_entry bio dp ip off)))))))) "

subsection \<open>Creating and opening\<close>

definition create_fail :: "'x trap_bio \<Rightarrow> nat \<Rightarrow> nat \<Rightarrow> ('x, nat option) trapfun" where
  "create_fail bio ip dp =
     kseq (upd_inode ip (\<lambda>x. x\<lparr>i_nlink := 0\<rparr>))
     (kseq (iupdate bio ip)
     (kseq (iunlockput bio ip)
     (kseq (iunlockput bio dp)
     (kret None))))"

text \<open>Linking the new inode \<open>ip\<close> into the locked directory \<open>dp\<close>.\<close>

definition create_new :: "'x trap_bio \<Rightarrow> nat \<Rightarrow> nat \<Rightarrow> u8 list \<Rightarrow> u16 \<Rightarrow> u16 \<Rightarrow> u16 \<Rightarrow> ('x, nat option) trapfun" where
  "create_new bio dp ip name typ major minor =
     kseq (ilock bio (Some ip))
     (kseq (upd_inode ip (\<lambda>x. x\<lparr>i_major := major, i_minor := minor, i_nlink := 1\<rparr>))
     (kseq (iupdate bio ip)
     (kbind (get_inode ip i_inum) (\<lambda>inum. kbind (get_inode dp i_inum) (\<lambda>dinum.
      kbind (if typ = T_DIR then
               kbind (dirlink bio ip (cstring ''.'') inum) (\<lambda>r.
               if r < 0 then kret r else dirlink bio ip (cstring ''..'') dinum)
             else kret 0) (\<lambda>r.
      if r < 0 then create_fail bio ip dp
      else kbind (dirlink bio dp name inum) (\<lambda>r.
        if r < 0 then create_fail bio ip dp
        else kseq (kwhen (typ = T_DIR)
            (kseq (upd_inode dp (\<lambda>x. x\<lparr>i_nlink := i_nlink x + 1\<rparr>)) (iupdate bio dp)))
          (kseq (iunlockput bio dp)
          (kret (Some ip))))))))))"

definition create :: "'x trap_bio \<Rightarrow> u8 list \<Rightarrow> u16 \<Rightarrow> u16 \<Rightarrow> u16 \<Rightarrow> ('x, nat option) trapfun" where
  "create bio p typ major minor =
     kbind (nameiparent bio p) (\<lambda>(dpo, name). case dpo of None \<Rightarrow> kret None | Some dp \<Rightarrow>
       kseq (ilock bio (Some dp))
       (kbind (dirlookup bio dp name) (\<lambda>found. case found of
          Some (ip, _) \<Rightarrow>
            kseq (iunlockput bio dp)
            (kseq (ilock bio (Some ip))
            (kbind (get_inode ip i_type) (\<lambda>t.
             if typ = T_FILE \<and> (t = T_FILE \<or> t = T_DEVICE) then kret (Some ip)
             else kseq (iunlockput bio ip) (kret None))))
        | None \<Rightarrow>
            kbind (get_inode dp i_dev) (\<lambda>dev.
            kbind (ialloc bio dev typ) (\<lambda>ipo. case ipo of
              None \<Rightarrow> kseq (iunlockput bio dp) (kret None)
            | Some ip \<Rightarrow> create_new bio dp ip name typ major minor)))))"

definition open_fail :: "'x trap_bio \<Rightarrow> nat \<Rightarrow> ('x, u64) trapfun" where
  "open_fail bio ip = kseq (iunlockput bio ip) (end_fail bio)"

text \<open>The locked inode of \<open>sys_open\<close>, or nothing when the call fails (the transaction has ended then).\<close>

definition open_inode :: "'x trap_bio \<Rightarrow> u8 list \<Rightarrow> int \<Rightarrow> ('x, nat option) trapfun" where
  "open_inode bio p omode =
     (if (word_of_int omode :: u32) AND O_CREATE \<noteq> 0 then
        kbind (create bio p T_FILE 0 0) (\<lambda>ipo. case ipo of
          None \<Rightarrow> kseq (end_op bio) (kret None) | Some ip \<Rightarrow> kret (Some ip))
      else kbind (namei bio p) (\<lambda>ipo. case ipo of
          None \<Rightarrow> kseq (end_op bio) (kret None)
        | Some ip \<Rightarrow>
            kseq (ilock bio (Some ip))
            (kbind (get_inode ip i_type) (\<lambda>t.
             if t = T_DIR \<and> omode \<noteq> O_RDONLY then kseq (iunlockput bio ip) (kseq (end_op bio) (kret None))
             else kret (Some ip)))))"

definition open_file :: "'x trap_bio \<Rightarrow> nat \<Rightarrow> nat \<Rightarrow> int \<Rightarrow> int \<Rightarrow> ('x, u64) trapfun" where
  "open_file bio ip f fd omode =
     (let om = word_of_int omode :: u32 in
      kbind (get_inode ip id) (\<lambda>x.
      kseq (if i_type x = T_DEVICE then upd_file f (\<lambda>y. y\<lparr>f_type := FD_DEVICE, f_major := i_major x\<rparr>)
            else upd_file f (\<lambda>y. y\<lparr>f_type := FD_INODE, f_off := 0\<rparr>))
      (kseq (upd_file f (\<lambda>y. y\<lparr>f_ip := Some ip, f_readable := (om AND O_WRONLY = 0),
         f_writable := (om AND O_WRONLY \<noteq> 0 \<or> om AND O_RDWR \<noteq> 0)\<rparr>))
      (kseq (kwhen (om AND O_TRUNC \<noteq> 0 \<and> i_type x = T_FILE) (itrunc bio ip))
      (kseq (iunlock (Some ip))
      (kseq (end_op bio)
      (kret (word_of_int fd))))))))"

definition sys_open :: "'x trap_bio \<Rightarrow> ('x, u64) trapfun" where
  "sys_open bio =
     kbind (argint 1) (\<lambda>omode.
     kbind (argstr 0 MAXPATH) (\<lambda>(n, p). if n < 0 then kret (- 1) else
     kseq begin_op
     (kbind (open_inode bio p omode) (\<lambda>ipo. case ipo of None \<Rightarrow> kret (- 1) | Some ip \<Rightarrow>
       kbind (get_inode ip id) (\<lambda>x.
       if i_type x = T_DEVICE \<and> bad_major (i_major x) then open_fail bio ip
       else kbind filealloc (\<lambda>fo. case fo of None \<Rightarrow> open_fail bio ip | Some f \<Rightarrow>
         kbind (fdalloc f) (\<lambda>fd.
         if fd < 0 then kseq (fileclose bio f) (open_fail bio ip)
         else open_file bio ip f fd omode)))))))"

definition sys_mkdir :: "'x trap_bio \<Rightarrow> ('x, u64) trapfun" where
  "sys_mkdir bio =
     kseq begin_op
     (kbind (argstr 0 MAXPATH) (\<lambda>(n, p). if n < 0 then end_fail bio else
      kbind (create bio p T_DIR 0 0) (\<lambda>ipo. case ipo of None \<Rightarrow> end_fail bio | Some ip \<Rightarrow>
        kseq (iunlockput bio ip)
        (kseq (end_op bio)
        (kret 0)))))"

definition sys_mknod :: "'x trap_bio \<Rightarrow> ('x, u64) trapfun" where
  "sys_mknod bio =
     kseq begin_op
     (kbind (argint 1) (\<lambda>major. kbind (argint 2) (\<lambda>minor.
      kbind (argstr 0 MAXPATH) (\<lambda>(n, p). if n < 0 then end_fail bio else
      kbind (create bio p T_DEVICE (word_of_int major) (word_of_int minor)) (\<lambda>ipo. case ipo of
        None \<Rightarrow> end_fail bio
      | Some ip \<Rightarrow>
        kseq (iunlockput bio ip)
        (kseq (end_op bio)
        (kret 0)))))))"

definition sys_chdir :: "'x trap_bio \<Rightarrow> ('x, u64) trapfun" where
  "sys_chdir bio =
     with_myproc (\<lambda>me.
     kseq begin_op
     (kbind (argstr 0 MAXPATH) (\<lambda>(n, p). if n < 0 then end_fail bio else
      kbind (namei bio p) (\<lambda>ipo. case ipo of None \<Rightarrow> end_fail bio | Some ip \<Rightarrow>
        kseq (ilock bio (Some ip))
        (kbind (get_inode ip i_type) (\<lambda>t.
         if t \<noteq> T_DIR then kseq (iunlockput bio ip) (end_fail bio)
         else kseq (iunlock (Some ip))
           (kbind (get_proc me p_cwd) (\<lambda>cwd.
            kseq (deref_ip cwd (iput bio))
            (kseq (end_op bio)
            (kseq (upd_proc me (\<lambda>x. x\<lparr>p_cwd := Some ip\<rparr>))
            (kret 0))))))))))) "

subsection \<open>exec and pipe\<close>

text \<open>The loop that fetches the argument strings: the pages so far, and whether it reached the null pointer.\<close>

definition sys_exec_round :: "u64 \<Rightarrow> u64 list \<Rightarrow> ('x, u64 list + bool \<times> u64 list) trapfun" where
  "sys_exec_round uargv argv =
     (if length argv \<ge> MAXARG then leave (False, argv)
      else kbind (fetchaddr (uargv + word_of_nat (sizeof_u64 * length argv))) (\<lambda>(r, uarg).
        if r < 0 then leave (False, argv)
        else if uarg = 0 then leave (True, argv)
        else kbind kalloc (\<lambda>pg.
          if pg = 0 then leave (False, argv)
          else kbind (fetchstr uarg (unat PGSIZE)) (\<lambda>(r, str).
            if r < 0 then leave (False, argv @ [pg])
            else kseq (mem_modify (\<lambda>m. mem_write m (unat pg) (str @ [0]))) (again (argv @ [pg]))))))"

definition sys_exec :: "'x trap_bio \<Rightarrow> ('x, u64) trapfun" where
  "sys_exec bio =
     kbind (argaddr 1) (\<lambda>uargv.
     kbind (argstr 0 MAXPATH) (\<lambda>(r, p). if r < 0 then kret (- 1) else
     kbind (kwhile (sys_exec_round uargv) []) (\<lambda>(ok, argv).
     if ok then
       kbind (exec bio p argv) (\<lambda>ret.
       kseq (for_each argv kfree)
       (kret (word_of_int ret)))
     else kseq (for_each argv kfree) (kret (- 1)))))"

definition int_bytes :: "int \<Rightarrow> u8 list" where
  "int_bytes v = le_bytes 4 (unat (word_of_int v :: u32))"

definition close_both :: "'x trap_bio \<Rightarrow> nat \<Rightarrow> nat \<Rightarrow> ('x, u64) trapfun" where
  "close_both bio rf wrf = kseq (fileclose bio rf) (kseq (fileclose bio wrf) (kret (- 1)))"

definition sys_pipe :: "'x trap_bio \<Rightarrow> ('x, u64) trapfun" where
  "sys_pipe bio =
     with_myproc (\<lambda>p.
     kbind (argaddr 0) (\<lambda>fdarray.
     kbind (pipealloc bio) (\<lambda>res. case res of None \<Rightarrow> kret (- 1) | Some (rf, wrf) \<Rightarrow>
       kbind (fdalloc rf) (\<lambda>fd0.
       if fd0 < 0 then close_both bio rf wrf
       else kbind (fdalloc wrf) (\<lambda>fd1.
         if fd1 < 0 then kseq (clear_fd fd0) (close_both bio rf wrf)
         else kbind (get_proc p p_pagetable) (\<lambda>pt.
           kbind (copyout pt fdarray (int_bytes fd0)) (\<lambda>r.
           kbind (if r < 0 then kret r else copyout pt (fdarray + 4) (int_bytes fd1)) (\<lambda>r.
           if r < 0 then
             kseq (clear_fd fd0)
             (kseq (clear_fd fd1)
             (close_both bio rf wrf))
           else kret 0))))))))"

end
