(* ===== verification/Syscall.thy ===== *)
theory Syscall
  imports Sysfile
begin

text \<open>
  The dispatch of system calls with the tracing of MP1 (\<open>syscall\<close> of \<^verbatim>\<open>kernel/syscall.c\<close>, \<^verbatim>\<open>kernel/syscall.h\<close>). The table of
  handlers and the table of names are association lists indexed by the numbers of \<^verbatim>\<open>syscall.h\<close>.
\<close>

definition SYS_fork :: int where "SYS_fork = 1"
definition SYS_exit :: int where "SYS_exit = 2"
definition SYS_wait :: int where "SYS_wait = 3"
definition SYS_pipe :: int where "SYS_pipe = 4"
definition SYS_read :: int where "SYS_read = 5"
definition SYS_kill :: int where "SYS_kill = 6"
definition SYS_exec :: int where "SYS_exec = 7"
definition SYS_fstat :: int where "SYS_fstat = 8"
definition SYS_chdir :: int where "SYS_chdir = 9"
definition SYS_dup :: int where "SYS_dup = 10"
definition SYS_getpid :: int where "SYS_getpid = 11"
definition SYS_sbrk :: int where "SYS_sbrk = 12"
definition SYS_sleep :: int where "SYS_sleep = 13"
definition SYS_uptime :: int where "SYS_uptime = 14"
definition SYS_open :: int where "SYS_open = 15"
definition SYS_write :: int where "SYS_write = 16"
definition SYS_mknod :: int where "SYS_mknod = 17"
definition SYS_unlink :: int where "SYS_unlink = 18"
definition SYS_link :: int where "SYS_link = 19"
definition SYS_mkdir :: int where "SYS_mkdir = 20"
definition SYS_close :: int where "SYS_close = 21"
definition SYS_trace :: int where "SYS_trace = 22"
definition SYS_sysinfo :: int where "SYS_sysinfo = 23"

lemmas SYS_defs = SYS_fork_def SYS_exit_def SYS_wait_def SYS_pipe_def SYS_read_def SYS_kill_def SYS_exec_def
  SYS_fstat_def SYS_chdir_def SYS_dup_def SYS_getpid_def SYS_sbrk_def SYS_sleep_def SYS_uptime_def SYS_open_def
  SYS_write_def SYS_mknod_def SYS_unlink_def SYS_link_def SYS_mkdir_def SYS_close_def SYS_trace_def SYS_sysinfo_def

definition syscalls :: "'x trap_bio \<Rightarrow> (int \<times> ('x, u64) trapfun) list" where
  "syscalls bio = [
     (SYS_fork, sys_fork),
     (SYS_exit, sys_exit bio),
     (SYS_wait, sys_wait),
     (SYS_pipe, sys_pipe bio),
     (SYS_read, sys_read bio),
     (SYS_kill, sys_kill),
     (SYS_exec, sys_exec bio),
     (SYS_fstat, sys_fstat bio),
     (SYS_chdir, sys_chdir bio),
     (SYS_dup, sys_dup),
     (SYS_getpid, sys_getpid),
     (SYS_sbrk, sys_sbrk),
     (SYS_sleep, sys_sleep),
     (SYS_uptime, sys_uptime),
     (SYS_open, sys_open bio),
     (SYS_write, sys_write bio),
     (SYS_mknod, sys_mknod bio),
     (SYS_unlink, sys_unlink bio),
     (SYS_link, sys_link bio),
     (SYS_mkdir, sys_mkdir bio),
     (SYS_close, sys_close bio),
     (SYS_trace, sys_trace),
     (SYS_sysinfo, sys_sysinfo)]"

definition syscall_names :: "(int \<times> string) list" where
  "syscall_names = [
     (SYS_fork, ''fork''),
     (SYS_exit, ''exit''),
     (SYS_wait, ''wait''),
     (SYS_pipe, ''pipe''),
     (SYS_read, ''read''),
     (SYS_kill, ''kill''),
     (SYS_exec, ''exec''),
     (SYS_fstat, ''fstat''),
     (SYS_chdir, ''chdir''),
     (SYS_dup, ''dup''),
     (SYS_getpid, ''getpid''),
     (SYS_sbrk, ''sbrk''),
     (SYS_sleep, ''sleep''),
     (SYS_uptime, ''uptime''),
     (SYS_open, ''open''),
     (SYS_write, ''write''),
     (SYS_mknod, ''mknod''),
     (SYS_unlink, ''unlink''),
     (SYS_link, ''link''),
     (SYS_mkdir, ''mkdir''),
     (SYS_close, ''close''),
     (SYS_trace, ''trace''),
     (SYS_sysinfo, ''sysinfo'')]"

text \<open>The bit of \<open>trace_mask\<close> (a C \<^verbatim>\<open>int\<close>, shifted arithmetically) for a call number.\<close>

definition traced :: "int \<Rightarrow> int \<Rightarrow> bool" where
  "traced msk num \<longleftrightarrow> drop_bit (nat num) msk AND 1 \<noteq> 0"

definition syscall_trace :: "nat \<Rightarrow> int \<Rightarrow> string \<Rightarrow> ('x, unit) trapfun" where
  "syscall_trace p num name =
     kbind (get_proc p p_trace_mask) (\<lambda>mask.
     if traced mask num then
       kbind (get_proc p p_pid) (\<lambda>pid.
       kbind (load_tf p (tf_a 0)) (\<lambda>a0.
       printf ''%d: syscall %s -> %d\<newline>'' [VInt pid, VStr (Some (cstring name)), VInt (sint (ucast a0 :: u32))]))
     else kskip)"

definition syscall :: "'x trap_bio \<Rightarrow> ('x, unit) trapfun" where
  "syscall bio =
     with_myproc (\<lambda>p.
     kbind (load_tf p (tf_a 7)) (\<lambda>a7.
     let num = sint (ucast a7 :: u32) in
     case (map_of (syscalls bio) num, map_of syscall_names num) of
       (Some f, Some name) \<Rightarrow>
         kbind f (\<lambda>r.
         kseq (store_tf p (tf_a 0) r)
         (syscall_trace p num name))
     | _ \<Rightarrow>
         kbind (get_proc p p_pid) (\<lambda>pid.
         kbind (get_proc p p_name) (\<lambda>name.
         kseq (printf ''%d %s: unknown sys call %d\<newline>'' [VInt pid, VStr (Some (cstr name 16)), VInt num])
         (store_tf p (tf_a 0) (- 1))))))"

subsection \<open>The tables\<close>

lemma syscalls_dom: "dom (map_of (syscalls bio)) = {1..23}" "dom (map_of syscall_names) = {1..23}"
proof -
  have "[1..23 :: int] = [1, 2, 3, 4, 5, 6, 7, 8, 9, 10, 11, 12, 13, 14, 15, 16, 17, 18, 19, 20, 21, 22, 23]" by code_simp
  from arg_cong [OF this, of set]
  have d: "{1..23 :: int} = set [1, 2, 3, 4, 5, 6, 7, 8, 9, 10, 11, 12, 13, 14, 15, 16, 17, 18, 19, 20, 21, 22, 23]"
    unfolding set_upto .
  show "dom (map_of (syscalls bio)) = {1..23}" unfolding d by (simp add: dom_map_of_conv_image_fst syscalls_def SYS_defs)
  show "dom (map_of syscall_names) = {1..23}" unfolding d by (simp add: dom_map_of_conv_image_fst syscall_names_def SYS_defs)
qed

text \<open>the tables of handlers and of names cover the same numbers, 1 to 23, each once: a call that has a handler has a name, so
  tracing never reads a missing name, and the numbers that \<open>syscall\<close> accepts are exactly those of \<^verbatim>\<open>syscall.h\<close>.\<close>

theorem syscall_tables_agree:
  "dom (map_of (syscalls bio)) = {1..23} \<and> dom (map_of syscall_names) = {1..23} \<and>
   distinct (map fst (syscalls bio)) \<and> distinct (map fst syscall_names) \<and> distinct (map snd syscall_names)"
  by (simp add: syscalls_dom, simp add: syscalls_def syscall_names_def SYS_defs)

subsection \<open>Dispatch\<close>

text \<open>The console can take \<open>n\<close> more bytes from \<open>printf\<close>.\<close>

definition tty_ready :: "nat \<Rightarrow> 'x kprint_scheme \<Rightarrow> bool" where
  "tty_ready n s \<longleftrightarrow> hw_ok (hw s) \<and> lock_free PrLock (hw s) \<and> pr_locking s \<noteq> 0 \<and> panicked s = 0 \<and> chip_ready (uart s) \<and> n \<le> u_room (uart s)"

definition dec_text :: "int \<Rightarrow> u8 list" where
  "dec_text n = rev (printint_buf n 10 True)"

definition trace_line :: "int \<Rightarrow> string \<Rightarrow> int \<Rightarrow> u8 list" where
  "trace_line pid name r = dec_text pid @ cstring '': syscall '' @ cstring name @ cstring '' -> '' @ dec_text r @ [10]"

lemma printf_ready:
  "tty_ready (length (printf_out fmt ap)) s \<Longrightarrow>
   printf fmt ap s = Ret () (s\<lparr>uart := chip_send (printf_out fmt ap) (uart s), hw := hw_touch (hw s)\<rparr>)"
  unfolding tty_ready_def by (intro printf_eq) simp_all

lemma of_char_u8_0: "(of_char c :: u8) = 0 \<longleftrightarrow> c = CHR 0x00"
proof
  assume "(of_char c :: u8) = 0"
  then have "(of_nat (of_char c) :: u8) = 0" by (subst of_nat_of_char)
  then have "unat (of_nat (of_char c) :: u8) = unat (0 :: u8)" by (rule arg_cong)
  then have "of_char c mod 256 = (0 :: nat)" unfolding unat_of_nat by simp
  then have "(of_char c :: nat) = of_char CHR 0x00" by simp
  then show "c = CHR 0x00" by (simp only: of_char_eq_iff)
qed simp

lemma cstring_no_nul: "CHR 0x00 \<notin> set name \<Longrightarrow> takeWhile (\<lambda>b. b \<noteq> 0) (cstring name) = cstring name"
  by (auto simp: cstring_def takeWhile_eq_all_conv of_char_u8_0)

lemma syscall_names_no_nul: "map_of syscall_names num = Some name \<Longrightarrow> CHR 0x00 \<notin> set name"
  by (auto simp: syscall_names_def split: if_splits)

lemma trace_line_out:
  assumes "CHR 0x00 \<notin> set name"
  shows "printf_out ''%d: syscall %s -> %d\<newline>'' [VInt pid, VStr (Some (cstring name)), VInt r] = trace_line pid name r"
  using cstring_no_nul [OF assms] by (simp add: conv_out_def va_arg_def va_int_def va_str_def trace_line_def dec_text_def cstring_def)

lemma traced_bit: "traced msk num \<longleftrightarrow> bit msk (nat num)"
  by (simp add: traced_def bit_iff_odd_drop_bit and_one_eq odd_iff_mod_2_eq_one)

text \<open>The call number in the trapframe, and the state after a call whose handler has left \<open>s\<close> with the result \<open>r\<close>.\<close>

definition call_number :: "nat \<Rightarrow> 'x ktrap_scheme \<Rightarrow> int" where
  "call_number p s = sint (ucast (load64 (mem s) (unat (p_trapframe (procs s p)) + tf_a 7)) :: u32)"

definition with_result :: "nat \<Rightarrow> u64 \<Rightarrow> 'x ktrap_scheme \<Rightarrow> 'x ktrap_scheme" where
  "with_result p r s = s\<lparr>mem := store64 (mem s) (unat (p_trapframe (procs s p)) + tf_a 0) r\<rparr>"

definition traced_state :: "nat \<Rightarrow> int \<Rightarrow> string \<Rightarrow> u64 \<Rightarrow> 'x ktrap_scheme \<Rightarrow> 'x ktrap_scheme" where
  "traced_state p num name r s =
     (if bit (p_trace_mask (procs s p)) (nat num)
      then (with_result p r s)\<lparr>hw := hw_touch (hw s),
        uart := chip_send (trace_line (p_pid (procs s p)) name (sint (ucast r :: u32))) (uart s)\<rparr>
      else with_result p r s)"

definition trace_ready :: "nat \<Rightarrow> string \<Rightarrow> u64 \<Rightarrow> 'x ktrap_scheme \<Rightarrow> bool" where
  "trace_ready p name r s \<longleftrightarrow> tty_ready (length (trace_line (p_pid (procs s p)) name (sint (ucast r :: u32)))) s"

text \<open>C4: tracing. Take a call with a handler, and any interference while it waits. When the handler returns \<open>r\<close> in a state \<open>s'\<close>,
  \<open>syscall\<close> stores \<open>r\<close> in the caller's \<open>a0\<close>; and if the bit of the call's number is set in the trace mask that the
  process has then, it prints exactly the line \<open>pid: syscall name -> r\<close>, with \<open>r\<close> as a signed 32-bit number; otherwise it prints
  nothing.\<close>

theorem syscall_traces:
  fixes s :: "'x ktrap_scheme"
  assumes "hw_ok (hw s)" "c_proc (cpus (hw s) (tp (hw s))) = Some p" "call_number p s = num"
    and "map_of (syscalls bio) num = Some f" "map_of syscall_names num = Some name"
    and "hoare R (\<lambda>r s'. Q r s' \<and> trace_ready p name r s') (f (s\<lparr>hw := hw_touch (hw s)\<rparr>))"
  shows "hoare R (\<lambda>_ t. \<exists>r s'. Q r s' \<and> t = traced_state p num name r s') (syscall bio s)"
proof -
  let ?s0 = "s\<lparr>hw := hw_touch (hw s)\<rparr>"
  have e: "syscall bio s = tbind (f ?s0) (\<lambda>r. kseq (store_tf p (tf_a 0) r) (syscall_trace p num name))"
    using assms(1-5) by (simp add: syscall_def with_myproc_def myproc_eq load_tf_def call_number_def Let_def)
  have k: "kseq (store_tf p (tf_a 0) r) (syscall_trace p num name) s' = Ret () (traced_state p num name r s')"
    if "trace_ready p name r s'" for r and s' :: "'x ktrap_scheme"
  proof -
    let ?ap = "[VInt (p_pid (procs s' p)), VStr (Some (cstring name)), VInt (sint (ucast r :: u32))]"
    have o: "printf_out ''%d: syscall %s -> %d\<newline>'' ?ap = trace_line (p_pid (procs s' p)) name (sint (ucast r :: u32))"
      by (rule trace_line_out [OF syscall_names_no_nul [OF assms(5)]])
    have "tty_ready (length (printf_out ''%d: syscall %s -> %d\<newline>'' ?ap)) (with_result p r s')"
      using that unfolding o by (simp add: trace_ready_def tty_ready_def with_result_def)
    from printf_ready [OF this] show ?thesis
      unfolding o by (simp add: store_tf_def syscall_trace_def get_proc_def load_tf_def traced_bit traced_state_def with_result_def)
  qed
  show ?thesis unfolding e by (rule hoare_tbind [OF assms(6)]) (use k in \<open>auto simp del: kseq_def\<close>)
qed

text \<open>C34: an unknown call. If the number in \<open>a7\<close> is not one of 1 to 23, no handler runs: \<open>syscall\<close> prints the complaint with the pid,
  the name of the process and the number, stores -1 in \<open>a0\<close>, and changes nothing else.\<close>

theorem syscall_unknown:
  fixes s :: "'x ktrap_scheme"
  assumes "hw_ok (hw s)" "c_proc (cpus (hw s) (tp (hw s))) = Some p" "call_number p s \<notin> {1..23}"
    and "msg = printf_out ''%d %s: unknown sys call %d\<newline>'' [VInt (p_pid (procs s p)), VStr (Some (cstr (p_name (procs s p)) 16)),
      VInt (call_number p s)]" "tty_ready (length msg) s"
  shows "syscall bio s = Ret () (with_result p (- 1) (s\<lparr>hw := hw_touch (hw s), uart := chip_send msg (uart s)\<rparr>))"
proof -
  have n: "map_of (syscalls bio) (call_number p s) = None" using assms(3) syscalls_dom(1) [of bio] by (metis domIff)
  let ?s0 = "s\<lparr>hw := hw_touch (hw s)\<rparr>"
  have "tty_ready (length msg) ?s0" using assms(5) by (simp add: tty_ready_def)
  from printf_ready [OF this [unfolded assms(4)], folded assms(4)] show ?thesis
    using assms(1,2) n by (simp add: syscall_def with_myproc_def myproc_eq load_tf_def call_number_def Let_def get_proc_def store_tf_def
        with_result_def)
qed

subsection \<open>An example\<close>

text \<open>Process 0 of the example machine, in a call whose number is \<open>num\<close>, with the trace mask \<open>msk\<close>.\<close>

definition in_call :: "u64 \<Rightarrow> int \<Rightarrow> ktrap" where
  "in_call num msk = kfile.extend (idle_file\<lparr>uart := (uart idle_file)\<lparr>u_room := 1000\<rparr>,
       mem := store64 (\<lambda>_. 0) (0x87000000 + 168) num,
       procs := (procs idle_file)(0 := (procs idle_file 0)\<lparr>p_trapframe := 0x87000000, p_trace_mask := msk\<rparr>)\<rparr>)
     (ktrap.fields 0 0 0 (\<lambda>_. \<lparr>stvec = 0, sepc = 0, scause = 0, stval = 0, sstatus = 0, sip = 0\<rparr>) (\<lambda>_. 0) (\<lambda>_. 0) 0 0 0 0)"

lemma in_call_facts [simp]:
  "hw (in_call num msk) = hw three_procs" "p_pid (procs (in_call num msk) 0) = 1" "p_trace_mask (procs (in_call num msk) 0) = msk"
  "p_trapframe (procs (in_call num msk) 0) = 0x87000000" "pr_locking (in_call num msk) = 1" "panicked (in_call num msk) = 0"
  "chip_ready (uart (in_call num msk))" "u_room (uart (in_call num msk)) = 1000" "u_out (uart (in_call num msk)) = []"
  "p_name (procs (in_call num msk) 0) = (\<lambda>_. 0)"
  "mem (in_call num msk) = store64 (\<lambda>_. 0) (0x87000000 + 168) num"
  by (simp_all add: in_call_def kfile.extend_def ktrap.fields_def)
    (simp_all add: idle_file_def kfs.extend_def kfile.fields_def idle_fs_def klog.extend_def kfs.fields_def idle_log_def kdisk.extend_def
      klog.fields_def idle_disk_def ksleep.extend_def kdisk.fields_def idle_sleep_def kcons.extend_def ksleep.fields_def
      typing_console_def kprint.extend_def kcons.fields_def quiet_console_def kuart.extend_def kprint.fields_def idle_uart_def
      kproc.extend_def kuart.fields_def three_procs_procs no_proc_def chip_ready_def LCR_BAUD_LATCH_def)

lemma in_call_number: "call_number 0 (in_call num msk) = sint (ucast num :: u32)"
  by (simp add: call_number_def tf_a_def)

theorem syscall_traces_witness:
  "hoare (\<lambda>_ _ _. True) (\<lambda>_ t. u_out (uart t) = map of_char ''1: syscall getpid -> 1\<newline>'') (syscall kernel_bio (in_call 11 2048))"
proof -
  let ?s = "in_call 11 2048"
  have h: "hw_ok (hw ?s)" "c_proc (cpus (hw ?s) (tp (hw ?s))) = Some 0" "call_number 0 ?s = 11" "lock_free PrLock (hw ?s)"
    by (simp_all add: three_procs_locks in_call_number)
  have f: "map_of (syscalls kernel_bio) 11 = Some sys_getpid" "map_of syscall_names 11 = Some ''getpid''"
    by (simp_all add: syscalls_def syscall_names_def SYS_defs)
  have line: "trace_line 1 ''getpid'' 1 = map of_char ''1: syscall getpid -> 1\<newline>''"
    by (simp add: trace_line_def dec_text_def cstring_def printint_buf_def printint_digits.simps digits_def)
  have g: "sys_getpid (?s\<lparr>hw := hw_touch (hw ?s)\<rparr>) = Ret 1 (?s\<lparr>hw := hw_touch (hw ?s)\<rparr>)"
    using h(1,2) by (simp add: sys_getpid_def with_myproc_def myproc_eq get_proc_def)
  have "hoare (\<lambda>_ _ _. True) (\<lambda>r s'. (r = 1 \<and> s' = ?s\<lparr>hw := hw_touch (hw ?s)\<rparr>) \<and> trace_ready 0 ''getpid'' r s')
      (sys_getpid (?s\<lparr>hw := hw_touch (hw ?s)\<rparr>))"
    unfolding g using h(1,4) by (simp add: trace_ready_def tty_ready_def line)
  from syscall_traces [OF h(1-3) f this] show ?thesis
    by (rule hoare_mono) (auto simp: traced_state_def with_result_def line bit_numeral_rec)
qed

theorem syscall_unknown_witness:
  "\<exists>t. syscall kernel_bio (in_call 24 0) = Ret () t \<and> load64 (mem t) (0x87000000 + tf_a 0) = - 1 \<and>
     u_out (uart t) = map of_char ''1 : unknown sys call 24\<newline>''"
proof -
  let ?s = "in_call 24 0"
  have h: "hw_ok (hw ?s)" "c_proc (cpus (hw ?s) (tp (hw ?s))) = Some 0" "call_number 0 ?s = 24" "lock_free PrLock (hw ?s)"
    by (simp_all add: three_procs_locks in_call_number)
  have m: "printf_out ''%d %s: unknown sys call %d\<newline>'' [VInt (p_pid (procs ?s 0)), VStr (Some (cstr (p_name (procs ?s 0)) 16)),
      VInt (call_number 0 ?s)] = map of_char ''1 : unknown sys call 24\<newline>''"
    using h(3) by (simp add: conv_out_def va_arg_def va_int_def va_str_def cstr_def upt_rec printint_buf_def printint_digits.simps digits_def)
  show ?thesis
    using syscall_unknown [OF h(1,2) _ m [symmetric], of kernel_bio] h by (simp add: with_result_def tty_ready_def)
qed

end
