(* ===== verification/Trap.thy ===== *)
theory Trap
  imports Syscall
begin

text \<open>
  Traps (\<^verbatim>\<open>kernel/trap.c\<close>), the interrupt controller (\<^verbatim>\<open>kernel/plic.c\<close>) and \<open>forkret\<close> of \<^verbatim>\<open>kernel/proc.c\<close>. The supervisor
  registers of the running hart are in the record \<open>csrs\<close>; the interrupt-enable bit of \<^verbatim>\<open>sstatus\<close> is kept with the
  hart's other interrupt state. The return to user space, a jump to \<^verbatim>\<open>userret\<close> with the user page table, is the value
  that \<open>usertrapret\<close> returns.
\<close>

definition SSTATUS_SPP :: u64 where "SSTATUS_SPP = push_bit 8 1"
definition SSTATUS_SPIE :: u64 where "SSTATUS_SPIE = push_bit 5 1"
definition SSTATUS_SIE :: u64 where "SSTATUS_SIE = push_bit 1 1"

definition get_csr :: "(csrs \<Rightarrow> 'a) \<Rightarrow> ('x, 'a) trapfun" where
  "get_csr f = gets (\<lambda>s. f (csr s (tp (hw s))))"

definition upd_csr :: "(csrs \<Rightarrow> csrs) \<Rightarrow> ('x, unit) trapfun" where
  "upd_csr f = modify (\<lambda>s. s\<lparr>csr := (csr s)(tp (hw s) := f (csr s (tp (hw s))))\<rparr>)"

definition r_sstatus :: "('x, u64) trapfun" where
  "r_sstatus = kbind (get_csr sstatus) (\<lambda>x. kbind (gets (\<lambda>s. intr_get (hw s))) (\<lambda>on.
     kret (if on then x OR SSTATUS_SIE else x AND NOT SSTATUS_SIE)))"

definition w_sstatus :: "u64 \<Rightarrow> ('x, unit) trapfun" where
  "w_sstatus x = kseq (upd_csr (\<lambda>c. c\<lparr>sstatus := x\<rparr>))
     (hw_modify (if x AND SSTATUS_SIE \<noteq> 0 then intr_on else intr_off))"

subsection \<open>The interrupt controller\<close>

definition PLIC_SENABLE :: "nat \<Rightarrow> nat" where "PLIC_SENABLE hart = unat PLIC + 0x2080 + hart * 0x100"
definition PLIC_SPRIORITY :: "nat \<Rightarrow> nat" where "PLIC_SPRIORITY hart = unat PLIC + 0x201000 + hart * 0x2000"
definition PLIC_SCLAIM :: "nat \<Rightarrow> nat" where "PLIC_SCLAIM hart = unat PLIC + 0x201004 + hart * 0x2000"

definition write_plic :: "nat \<Rightarrow> u32 \<Rightarrow> ('x, unit) trapfun" where
  "write_plic a v = modify (\<lambda>s. s\<lparr>plic_regs := (plic_regs s)(a := v)\<rparr>)"

definition plicinit :: "('x, unit) trapfun" where
  "plicinit =
     kseq (write_plic (unat PLIC + nat UART0_IRQ * 4) 1)
     (write_plic (unat PLIC + nat VIRTIO0_IRQ * 4) 1)"

definition plicinithart :: "('x, unit) trapfun" where
  "plicinithart =
     kbind (gets (\<lambda>s. cpuid (hw s))) (\<lambda>hart.
     kseq (write_plic (PLIC_SENABLE hart) (push_bit (nat UART0_IRQ) 1 OR push_bit (nat VIRTIO0_IRQ) 1))
     (write_plic (PLIC_SPRIORITY hart) 0))"

definition plic_claim :: "('x, int) trapfun" where
  "plic_claim =
     kbind (gets (\<lambda>s. cpuid (hw s))) (\<lambda>hart.
     kbind (gets (\<lambda>s. plic_claims s hart)) (\<lambda>irq. kret (sint irq)))"

definition plic_complete :: "int \<Rightarrow> ('x, unit) trapfun" where
  "plic_complete irq =
     kbind (gets (\<lambda>s. cpuid (hw s))) (\<lambda>hart. write_plic (PLIC_SCLAIM hart) (word_of_int irq))"

subsection \<open>Traps\<close>

definition trapinit :: "('x, unit) trapfun" where
  "trapinit = initlock TicksLock ''time''"

definition trapinithart :: "('x, unit) trapfun" where
  "trapinithart = kbind (gets kernelvec_addr) (\<lambda>kv. upd_csr (\<lambda>c. c\<lparr>stvec := kv\<rparr>))"

definition clockintr :: "('x, unit) trapfun" where
  "clockintr =
     kseq (acquire TicksLock)
     (kseq (modify (\<lambda>s. s\<lparr>ticks := ticks s + 1\<rparr>))
     (kseq (wakeup TicksChan)
     (release TicksLock)))"

definition devintr :: "('x, int) trapfun" where
  "devintr =
     kbind (get_csr scause) (\<lambda>cause.
     if cause AND 0x8000000000000000 \<noteq> 0 \<and> cause AND 0xff = 9 then
       kbind plic_claim (\<lambda>irq.
       kseq (if irq = UART0_IRQ then uartintr
             else if irq = VIRTIO0_IRQ then virtio_disk_intr
             else if irq \<noteq> 0 then printf ''unexpected interrupt irq=%d\<newline>'' [VInt irq]
             else kskip)
       (kseq (kwhen (irq \<noteq> 0) (plic_complete irq))
       (kret 1)))
     else if cause = 0x8000000000000001 then
       kbind (gets (\<lambda>s. cpuid (hw s))) (\<lambda>hart.
       kseq (kwhen (hart = 0) clockintr)
       (kseq (upd_csr (\<lambda>c. c\<lparr>sip := sip c AND NOT 2\<rparr>))
       (kret 2)))
     else kret 0)"

definition usertrapret :: "('x, u64 \<times> u64) trapfun" where
  "usertrapret =
     with_myproc (\<lambda>p.
     kseq (hw_modify intr_off)
     (kbind (gets (\<lambda>s. TRAMPOLINE + (uservec_addr s - trampoline s))) (\<lambda>uservec.
      kseq (upd_csr (\<lambda>c. c\<lparr>stvec := uservec\<rparr>))
      (kbind (gets (\<lambda>s. satp s (tp (hw s)))) (\<lambda>ksatp.
       kseq (store_tf p tf_kernel_satp ksatp)
       (kbind (get_proc p p_kstack) (\<lambda>kstack.
        kseq (store_tf p tf_kernel_sp (kstack + PGSIZE))
        (kbind (gets usertrap_addr) (\<lambda>ut.
         kseq (store_tf p tf_kernel_trap ut)
         (kbind (gets (\<lambda>s. tp (hw s))) (\<lambda>hart.
          kseq (store_tf p tf_kernel_hartid (word_of_nat hart))
          (kbind r_sstatus (\<lambda>x.
           kseq (w_sstatus ((x AND NOT SSTATUS_SPP) OR SSTATUS_SPIE))
           (kbind (load_tf p tf_epc) (\<lambda>epc.
            kseq (upd_csr (\<lambda>c. c\<lparr>sepc := epc\<rparr>))
            (kbind (get_proc p p_pagetable) (\<lambda>pt.
             kbind (gets (\<lambda>s. TRAMPOLINE + (userret_addr s - trampoline s))) (\<lambda>userret.
             kret (userret, MAKE_SATP pt)))))))))))))))))))"

definition usertrap :: "'x trap_bio \<Rightarrow> ('x, u64 \<times> u64) trapfun" where
  "usertrap bio =
     kbind r_sstatus (\<lambda>st.
     if st AND SSTATUS_SPP \<noteq> 0 then panic ''usertrap: not from user mode''
     else kseq trapinithart
       (with_myproc (\<lambda>p.
        kbind (get_csr sepc) (\<lambda>pc.
        kseq (store_tf p tf_epc pc)
        (kbind (get_csr scause) (\<lambda>cause.
         kbind
           (if cause = 8 then
              kbind (killed p) (\<lambda>k.
              if k \<noteq> 0 then exit bio (- 1)
              else kbind (load_tf p tf_epc) (\<lambda>epc.
                kseq (store_tf p tf_epc (epc + 4))
                (kseq (hw_modify intr_on)
                (kseq (syscall bio)
                (kret 0)))))
            else kbind devintr (\<lambda>which_dev.
              if which_dev \<noteq> 0 then kret which_dev
              else kbind (get_proc p p_pid) (\<lambda>pid.
                kbind (get_csr sepc) (\<lambda>pc. kbind (get_csr stval) (\<lambda>tv.
                kseq (printf ''usertrap(): unexpected scause %p pid=%d\<newline>'' [VPtr cause, VInt pid])
                (kseq (printf ''            sepc=%p stval=%p\<newline>'' [VPtr pc, VPtr tv])
                (kseq (setkilled p)
                (kret 0)))))))) (\<lambda>which_dev.
         kbind (killed p) (\<lambda>k.
         if k \<noteq> 0 then exit bio (- 1)
         else kseq (kwhen (which_dev = 2) yield) usertrapret))))))))"

definition kerneltrap :: "('x, unit) trapfun" where
  "kerneltrap =
     kbind (get_csr sepc) (\<lambda>pc. kbind r_sstatus (\<lambda>st. kbind (get_csr scause) (\<lambda>cause.
     if st AND SSTATUS_SPP = 0 then panic ''kerneltrap: not from supervisor mode''
     else kbind (gets (\<lambda>s. intr_get (hw s))) (\<lambda>on.
       if on then panic ''kerneltrap: interrupts enabled''
       else kbind devintr (\<lambda>which_dev.
         if which_dev = 0 then
           kbind (get_csr sepc) (\<lambda>pc. kbind (get_csr stval) (\<lambda>tv.
           kseq (printf ''scause %p\<newline>'' [VPtr cause])
           (kseq (printf ''sepc=%p stval=%p\<newline>'' [VPtr pc, VPtr tv])
           (panic ''kerneltrap''))))
         else
           kbind myproc (\<lambda>me.
           kseq (case me of None \<Rightarrow> kskip | Some p \<Rightarrow>
              kbind (get_proc p p_state) (\<lambda>s. kwhen (which_dev = 2 \<and> s = RUNNING) yield))
           (kseq (upd_csr (\<lambda>c. c\<lparr>sepc := pc\<rparr>))
           (w_sstatus st)))))))) "

definition forkret :: "'x trap_bio \<Rightarrow> ('x, u64 \<times> u64) trapfun" where
  "forkret bio =
     kseq (with_myproc (\<lambda>p. release (ProcLock p)))
     (kbind (gets forkret_first) (\<lambda>first.
      kseq (kwhen (first \<noteq> 0)
        (kseq (modify (\<lambda>s. s\<lparr>forkret_first := 0\<rparr>))
        (fsinit bio (uint ROOTDEV))))
      usertrapret))"

end
