(* ===== verification/Boot.thy ===== *)
theory Boot
  imports Trap
begin

text \<open>
  Start-up (\<^verbatim>\<open>kernel/start.c\<close>, \<^verbatim>\<open>kernel/main.c\<close>). \<open>start\<close> runs in machine mode on the registers of one hart, and its \<open>mret\<close>
  is the end of the function: the hart is then in supervisor mode at \<open>mepc\<close>.
\<close>

subsection \<open>Machine mode\<close>

record mcsrs =
  mstatus :: u64
  mepc :: u64
  m_satp :: u64
  medeleg :: u64
  mideleg :: u64
  s_ie :: u64
  pmpaddr0 :: u64
  pmpcfg0 :: u64
  mscratch :: u64
  mtvec :: u64
  mie :: u64
  mhartid :: nat
  m_tp :: nat
  mtimecmp :: "nat \<Rightarrow> u64"
  mtime :: u64
  timer_scratch :: "nat \<Rightarrow> nat \<Rightarrow> u64"

definition MSTATUS_MPP_MASK :: u64 where "MSTATUS_MPP_MASK = push_bit 11 3"
definition MSTATUS_MPP_S :: u64 where "MSTATUS_MPP_S = push_bit 11 1"
definition MSTATUS_MIE :: u64 where "MSTATUS_MIE = push_bit 3 1"
definition MIE_MTIE :: u64 where "MIE_MTIE = push_bit 7 1"
definition SIE_SEIE :: u64 where "SIE_SEIE = push_bit 9 1"
definition SIE_STIE :: u64 where "SIE_STIE = push_bit 5 1"
definition SIE_SSIE :: u64 where "SIE_SSIE = push_bit 1 1"
definition CLINT :: u64 where "CLINT = 0x2000000"
definition CLINT_MTIMECMP :: "nat \<Rightarrow> u64" where "CLINT_MTIMECMP hart = CLINT + 0x4000 + 8 * word_of_nat hart"

text \<open>\<open>scratch_addr\<close> is the address of the hart's row of \<open>timer_scratch\<close> and \<open>timervec\<close> that of the machine-mode handler.\<close>

definition timerinit :: "(nat \<Rightarrow> u64) \<Rightarrow> u64 \<Rightarrow> mcsrs \<Rightarrow> mcsrs" where
  "timerinit scratch_addr timervec m =
     (let i = mhartid m; interval = 1000000;
          m = m\<lparr>mtimecmp := (mtimecmp m)(i := mtime m + interval)\<rparr>;
          m = m\<lparr>timer_scratch := (timer_scratch m)(i := (timer_scratch m i)(3 := CLINT_MTIMECMP i, 4 := interval))\<rparr>;
          m = m\<lparr>mscratch := scratch_addr i\<rparr>;
          m = m\<lparr>mtvec := timervec\<rparr>;
          m = m\<lparr>mstatus := mstatus m OR MSTATUS_MIE\<rparr>
      in m\<lparr>mie := mie m OR MIE_MTIE\<rparr>)"

definition start :: "(nat \<Rightarrow> u64) \<Rightarrow> u64 \<Rightarrow> u64 \<Rightarrow> mcsrs \<Rightarrow> mcsrs" where
  "start scratch_addr timervec main_addr m =
     (let m = m\<lparr>mstatus := (mstatus m AND NOT MSTATUS_MPP_MASK) OR MSTATUS_MPP_S\<rparr>;
          m = m\<lparr>mepc := main_addr\<rparr>;
          m = m\<lparr>m_satp := 0\<rparr>;
          m = m\<lparr>medeleg := 0xffff\<rparr>;
          m = m\<lparr>mideleg := 0xffff\<rparr>;
          m = m\<lparr>s_ie := s_ie m OR SIE_SEIE OR SIE_STIE OR SIE_SSIE\<rparr>;
          m = m\<lparr>pmpaddr0 := 0x3fffffffffffff\<rparr>;
          m = m\<lparr>pmpcfg0 := 0xf\<rparr>;
          m = timerinit scratch_addr timervec m
      in m\<lparr>m_tp := mhartid m\<rparr>)"

subsection \<open>Supervisor mode\<close>

text \<open>Spinning until the first hart has initialised the kernel.\<close>

primcorec wait_started :: "('x, unit) trapfun" where
  "wait_started s = (if started s = 0 then Wait Spinning s (\<lambda>s'. wait_started s') else Ret () s)"

definition boot_first :: "'x trap_bio \<Rightarrow> ('x, unit) trapfun" where
  "boot_first bio =
     kseq consoleinit
     (kseq printfinit
     (kseq (printf ''\<newline>'' [])
     (kseq (printf ''xv6 kernel is booting\<newline>'' [])
     (kseq (printf ''\<newline>'' [])
     (kseq kinit
     (kseq kvminit
     (kseq kvminithart
     (kseq procinit
     (kseq trapinit
     (kseq trapinithart
     (kseq plicinit
     (kseq plicinithart
     (kseq binit
     (kseq iinit
     (kseq fileinit
     (kseq virtio_disk_init
     (kseq (userinit bio)
     (modify (\<lambda>s. s\<lparr>started := 1\<rparr>)))))))))))))))))))"

definition boot_other :: "('x, unit) trapfun" where
  "boot_other =
     kseq wait_started
     (kbind (gets (\<lambda>s. cpuid (hw s))) (\<lambda>hart.
      kseq (printf ''hart %d starting\<newline>'' [VInt (int hart)])
      (kseq kvminithart
      (kseq trapinithart
      plicinithart))))"

text \<open>\<open>main\<close> with the first \<open>n\<close> passes of the scheduler, which never returns.\<close>

definition main :: "'x trap_bio \<Rightarrow> nat \<Rightarrow> ('x, unit) trapfun" where
  "main bio n =
     kbind (gets (\<lambda>s. cpuid (hw s))) (\<lambda>hart.
     kseq (if hart = 0 then boot_first bio else boot_other)
     (scheduler n))"

end
