(* ===== verification/Bcache.thy ===== *)
theory Bcache
  imports Bio
begin

text \<open>
  The buffer cache's list and searches. The buffers are linked in a circular doubly linked list through the head, most
  recently released first; the list is abstracted to the list of buffer indices. Shown: the searches of \<open>bget\<close> end and are
  searches of that list, from the front for the block and from the back for a buffer to recycle; recycling keeps at most
  one copy of every block; \<open>binit\<close> builds the list, and \<open>brelse\<close> moves a buffer that nobody refers to to its front.
\<close>

subsection \<open>The list\<close>

fun linked :: "(nat \<Rightarrow> buf) \<Rightarrow> nat list \<Rightarrow> bool" where
  "linked bs (a # b # xs) \<longleftrightarrow> b_next (bs a) = b \<and> b_prev (bs b) = a \<and> linked bs (b # xs)"
| "linked bs xs \<longleftrightarrow> True"

definition lru :: "(nat \<Rightarrow> buf) \<Rightarrow> nat list \<Rightarrow> bool" where
  "lru bs xs \<longleftrightarrow> distinct (bhead # xs) \<and> linked bs (bhead # xs @ [bhead])"

lemma linked_append: "linked bs (xs @ a # ys) \<longleftrightarrow> linked bs (xs @ [a]) \<and> linked bs (a # ys)"
  by (induction bs xs rule: linked.induct) auto

lemma linked_cong:
  assumes "\<And>a. a \<in> set (butlast xs) \<Longrightarrow> b_next (bs' a) = b_next (bs a)" "\<And>a. a \<in> set (tl xs) \<Longrightarrow> b_prev (bs' a) = b_prev (bs a)"
  shows "linked bs' xs = linked bs xs"
  using assms
proof (induction bs xs rule: linked.induct)
  case (1 bs a b xs)
  have "linked bs' (b # xs) = linked bs (b # xs)"
    using 1(2,3) by (intro 1(1)) (auto dest: in_set_butlastD list.set_sel(2))
  then show ?case using 1(2) [of a] 1(3) [of b] by simp
qed simp_all

lemma find_cached_linked:
  assumes "linked bs (xs @ [bhead])" "bhead \<notin> set xs"
  shows "find_cached bs dev bn (hd (xs @ [bhead])) = Some (find (\<lambda>b. b_dev (bs b) = dev \<and> b_blockno (bs b) = bn) xs)"
  using assms
proof (induction xs)
  case Nil
  then show ?case by (subst find_cached.simps) simp
next
  case (Cons a xs)
  have "linked bs (xs @ [bhead])" "b_next (bs a) = hd (xs @ [bhead])" using Cons.prems(1) by (cases xs; simp)+
  then show ?case using Cons by (subst find_cached.simps) simp
qed

lemma find_unused_linked:
  assumes "linked bs (bhead # xs)" "bhead \<notin> set xs"
  shows "find_unused bs (last (bhead # xs)) = Some (find (\<lambda>b. b_refcnt (bs b) = 0) (rev xs))"
  using assms
proof (induction xs rule: rev_induct)
  case Nil
  then show ?case by (subst find_unused.simps) simp
next
  case (snoc a xs)
  obtain ys z where yz: "bhead # xs = ys @ [z]" by (cases "bhead # xs" rule: rev_cases) auto
  have "bhead # xs @ [a] = ys @ z # [a]" using arg_cong [OF yz, of "\<lambda>l. l @ [a]"] by simp
  then have "linked bs (ys @ z # [a])" using snoc.prems(1) by (simp only:)
  then have "linked bs (bhead # xs)" "b_prev (bs a) = last (bhead # xs)"
    unfolding linked_append [of bs ys z "[a]"] yz by simp_all
  then show ?case using snoc by (subst find_unused.simps) simp
qed

text \<open>Insertion at the front, and removal.\<close>

lemma link_front_lru:
  assumes "lru bs xs" "b \<notin> set xs" "b \<noteq> bhead"
  shows "lru (link_front b bs) (b # xs)"
proof -
  obtain c ys where c: "xs @ [bhead] = c # ys" by (cases "xs @ [bhead]") auto
  have n: "b_next (bs bhead) = c" "linked bs (c # ys)" using assms(1) by (simp_all add: lru_def c)
  have cb: "c \<noteq> b" using c assms(2,3) by (cases xs) auto
  let ?f = "link_front b bs"
  have f: "b_next (?f bhead) = b" "b_prev (?f b) = bhead" "b_next (?f b) = c" "b_prev (?f c) = b"
    using assms(3) cb n(1) by (auto simp: link_front_def Let_def)
  have "linked ?f (c # ys)"
  proof (subst linked_cong [of _ ?f bs])
    have d: "distinct (c # ys)" using assms(1) c unfolding lru_def by (metis distinct.simps(2) distinct_append distinct1_rotate rotate1.simps(2))
    show "b_next (?f a) = b_next (bs a)" if "a \<in> set (butlast (c # ys))" for a
    proof -
      have "a \<in> set xs" using that c by (metis butlast_snoc)
      then have "a \<noteq> b" "a \<noteq> bhead" using assms by (auto simp: lru_def)
      then show ?thesis by (simp add: link_front_def Let_def)
    qed
    show "b_prev (?f a) = b_prev (bs a)" if "a \<in> set (tl (c # ys))" for a
    proof -
      have "a \<noteq> c" using that d by auto
      moreover have "a \<noteq> b" using that c assms(2,3) by (metis list.sel(3) list.set_sel(2) Un_iff empty_iff empty_set insert_iff list.simps(15) set_append list.distinct(1) list.set_intros(2))
      ultimately show ?thesis using n(1) assms(3) by (auto simp: link_front_def Let_def)
    qed
  qed (rule n(2))
  then show ?thesis using f assms by (simp add: lru_def c)
qed

lemma unlink_buf_lru:
  assumes "lru bs (ys @ b # zs)"
  shows "lru (unlink_buf b bs) (ys @ zs)"
proof -
  obtain us p where p: "bhead # ys = us @ [p]" by (cases "bhead # ys" rule: rev_cases) auto
  obtain n vs where n: "zs @ [bhead] = n # vs" by (cases "zs @ [bhead]") auto
  have all: "bhead # (ys @ b # zs) @ [bhead] = us @ p # b # n # vs"
    using arg_cong2 [OF p n, of "\<lambda>l r. l @ b # r"] by simp
  have "linked bs (us @ p # b # n # vs)" using assms all unfolding lru_def by (simp only:)
  then have l: "linked bs (us @ [p])" "b_prev (bs b) = p" "b_next (bs b) = n" "linked bs (n # vs)"
    unfolding linked_append [of bs us p "b # n # vs"] by simp_all
  have d: "distinct (bhead # ys)" "distinct (zs @ [bhead])" "b \<notin> set (bhead # ys)" "b \<notin> set (zs @ [bhead])" "set ys \<inter> set zs = {}"
    using assms by (auto simp: lru_def)
  have np: "p \<in> set (bhead # ys)" "n \<in> set (zs @ [bhead])" unfolding p n by simp_all
  then have nb: "n \<noteq> b" "p \<noteq> b" using d by auto
  let ?f = "unlink_buf b bs"
  have f: "b_next (?f a) = (if a = p then n else b_next (bs a))" "b_prev (?f a) = (if a = n then p else b_prev (bs a))" for a
    using l(2,3) nb by (auto simp: unlink_buf_def Let_def)
  have "linked ?f (us @ [p]) = linked bs (us @ [p])"
  proof (rule linked_cong)
    show "b_next (?f a) = b_next (bs a)" if "a \<in> set (butlast (us @ [p]))" for a
      using that d(1) unfolding p by (auto simp: f)
    show "b_prev (?f a) = b_prev (bs a)" if "a \<in> set (tl (us @ [p]))" for a
      using that np(2) d(1,5) unfolding p [symmetric] by (auto simp: f)
  qed
  moreover have "linked ?f (n # vs) = linked bs (n # vs)"
  proof (rule linked_cong)
    show "b_next (?f a) = b_next (bs a)" if "a \<in> set (butlast (n # vs))" for a
      using that np(1) d(2,5) unfolding n [symmetric] by (auto simp: f)
    show "b_prev (?f a) = b_prev (bs a)" if "a \<in> set (tl (n # vs))" for a
      using that d(2) unfolding n by (auto simp: f)
  qed
  ultimately have "linked ?f (us @ p # n # vs)" unfolding linked_append [of _ us p "n # vs"] using l by (simp add: f)
  moreover have "us @ p # n # vs = bhead # (ys @ zs) @ [bhead]"
    using arg_cong2 [OF p n, of "(@)"] by simp
  ultimately show ?thesis using assms by (auto simp: lru_def)
qed

subsection \<open>The cache\<close>

text \<open>The buffers are linked, and no block of a disk is in two of them. Device 0, which \<open>binit\<close> leaves in the buffers, is no disk.\<close>

definition bcache_ok :: "(nat \<Rightarrow> buf) \<Rightarrow> nat list \<Rightarrow> bool" where
  "bcache_ok bs xs \<longleftrightarrow> lru bs xs \<and> set xs = {..<NBUF} \<and>
     (\<forall>a<NBUF. \<forall>b<NBUF. b_dev (bs a) \<noteq> 0 \<and> b_dev (bs a) = b_dev (bs b) \<and> b_blockno (bs a) = b_blockno (bs b) \<longrightarrow> a = b)"

lemma lru_ends:
  assumes "lru bs xs"
  shows "b_next (bs bhead) = hd (xs @ [bhead])" "b_prev (bs bhead) = last (bhead # xs)" "linked bs (xs @ [bhead])" "linked bs (bhead # xs)"
    "bhead \<notin> set xs"
proof -
  have l: "linked bs (bhead # xs @ [bhead])" and d: "bhead \<notin> set xs" using assms by (auto simp: lru_def)
  then show "b_next (bs bhead) = hd (xs @ [bhead])" "linked bs (xs @ [bhead])" "bhead \<notin> set xs" by (cases xs; simp)+
  obtain us p where p: "bhead # xs = us @ [p]" by (cases "bhead # xs" rule: rev_cases) auto
  have "bhead # xs @ [bhead] = us @ p # [bhead]" using arg_cong [OF p, of "\<lambda>l. l @ [bhead]"] by simp
  then have "linked bs (us @ p # [bhead])" using l by (simp only:)
  then show "b_prev (bs bhead) = last (bhead # xs)" "linked bs (bhead # xs)"
    unfolding linked_append [of bs us p "[bhead]"] p by simp_all
qed

lemma lru_searches:
  assumes "lru bs xs"
  shows "find_cached bs dev bn (b_next (bs bhead)) = Some (find (\<lambda>b. b_dev (bs b) = dev \<and> b_blockno (bs b) = bn) xs)"
    "find_unused bs (b_prev (bs bhead)) = Some (find (\<lambda>b. b_refcnt (bs b) = 0) (rev xs))"
  unfolding lru_ends(1,2) [OF assms]
  by (rule find_cached_linked [OF lru_ends(3,5) [OF assms]], rule find_unused_linked [OF lru_ends(4,5) [OF assms]])

lemma acquiresleep_free:
  assumes "hw_ok (hw s)" "lock_free (SleepLk lk) (hw s)" "sl_locked (sleeplocks s lk) = 0" "c_proc (cpus (hw s) (tp (hw s))) = Some p"
  shows "acquiresleep lk s = Ret () (s\<lparr>hw := hw_touch (hw s),
    sleeplocks := (sleeplocks s)(lk := (sleeplocks s lk)\<lparr>sl_locked := 1, sl_pid := p_pid (procs s p)\<rparr>)\<rparr>)"
proof -
  let ?s = "s\<lparr>hw := hw_enter (SleepLk lk) (hw s)\<rparr>"
  have "kloop (acquiresleep_wait lk) ?s = Ret () ?s"
    using assms(3) by (subst kloop_step) (simp add: acquiresleep_wait_def)
  then show ?thesis
    using assms by (simp add: acquiresleep_def kexec upd_sleeplock_def with_myproc_def myproc_eq get_proc_def)
qed

text \<open>The buffer that \<open>bget\<close> returns, and its header then.\<close>

definition bget_choice :: "(nat \<Rightarrow> buf) \<Rightarrow> u32 \<Rightarrow> u32 \<Rightarrow> nat list \<Rightarrow> (nat \<times> buf) option" where
  "bget_choice bs dev bn xs =
     (case find (\<lambda>b. b_dev (bs b) = dev \<and> b_blockno (bs b) = bn) xs of
        Some b \<Rightarrow> Some (b, (bs b)\<lparr>b_refcnt := b_refcnt (bs b) + 1\<rparr>)
      | None \<Rightarrow> (case find (\<lambda>b. b_refcnt (bs b) = 0) (rev xs) of
          Some b \<Rightarrow> Some (b, (bs b)\<lparr>b_dev := dev, b_blockno := bn, b_valid := 0, b_refcnt := 1\<rparr>)
        | None \<Rightarrow> None))"

lemma bcache_ok_upd:
  assumes "bcache_ok bs xs" "b < NBUF" "b_next x = b_next (bs b)" "b_prev x = b_prev (bs b)"
    and "\<And>c. c < NBUF \<Longrightarrow> c \<noteq> b \<Longrightarrow> b_dev x \<noteq> 0 \<Longrightarrow> \<not> (b_dev (bs c) = b_dev x \<and> b_blockno (bs c) = b_blockno x)"
  shows "bcache_ok (bs(b := x)) xs"
proof -
  have l: "linked (bs(b := x)) ys = linked bs ys" for ys using assms(3,4) by (intro linked_cong) auto
  have "lru (bs(b := x)) xs" "set xs = {..<NBUF}" using assms(1) unfolding bcache_ok_def lru_def l by auto
  moreover have "a = c" if "a < NBUF" "c < NBUF" "b_dev ((bs(b := x)) a) \<noteq> 0" "b_dev ((bs(b := x)) a) = b_dev ((bs(b := x)) c)"
    "b_blockno ((bs(b := x)) a) = b_blockno ((bs(b := x)) c)" for a c
    using that assms(1) assms(5) [of a] assms(5) [of c] unfolding bcache_ok_def by (cases "a = b"; cases "c = b") simp_all
  ultimately show ?thesis unfolding bcache_ok_def by blast
qed

lemma find_in: "find P ys = Some y \<Longrightarrow> y \<in> set ys \<and> P y"
  by (auto simp: find_Some_iff)

lemma bget_choice_cases:
  assumes "bget_choice bs dev bn xs = Some (b, x)"
  obtains (hit) "b \<in> set xs" "b_dev (bs b) = dev" "b_blockno (bs b) = bn" "x = (bs b)\<lparr>b_refcnt := b_refcnt (bs b) + 1\<rparr>"
  | (miss) "b \<in> set xs" "\<And>c. c \<in> set xs \<Longrightarrow> \<not> (b_dev (bs c) = dev \<and> b_blockno (bs c) = bn)"
      "x = (bs b)\<lparr>b_dev := dev, b_blockno := bn, b_valid := 0, b_refcnt := 1\<rparr>"
proof (cases "find (\<lambda>b. b_dev (bs b) = dev \<and> b_blockno (bs b) = bn) xs")
  case (Some d)
  then show ?thesis using assms find_in [OF Some] by (intro hit) (auto simp: bget_choice_def)
next
  case None
  show ?thesis
  proof (cases "find (\<lambda>b. b_refcnt (bs b) = 0) (rev xs)")
    case (Some d)
    then have "d \<in> set xs" using find_in by fastforce
    then show ?thesis using assms None Some by (intro miss) (auto simp: bget_choice_def find_None_iff)
  qed (use assms None in \<open>simp add: bget_choice_def\<close>)
qed

lemma bget_choice_ok:
  assumes "bcache_ok bs xs" "dev \<noteq> 0" "bget_choice bs dev bn xs = Some (b, x)"
  shows "b < NBUF" "b_dev x = dev" "b_blockno x = bn" "bcache_ok (bs(b := x)) xs"
proof -
  have xs: "set xs = {..<NBUF}" using assms(1) by (simp add: bcache_ok_def)
  from assms(3) have "b < NBUF \<and> b_dev x = dev \<and> b_blockno x = bn \<and> bcache_ok (bs(b := x)) xs"
  proof (cases rule: bget_choice_cases)
    case hit
    have u: "\<not> (b_dev (bs c) = dev \<and> b_blockno (bs c) = bn)" if "c < NBUF" "c \<noteq> b" for c
    proof
      assume "b_dev (bs c) = dev \<and> b_blockno (bs c) = bn"
      then have "b_dev (bs c) \<noteq> 0 \<and> b_dev (bs c) = b_dev (bs b) \<and> b_blockno (bs c) = b_blockno (bs b)" using assms(2) hit by simp
      moreover have "b < NBUF" using hit(1) xs by simp
      ultimately show False using assms(1) that unfolding bcache_ok_def by blast
    qed
    have "bcache_ok (bs(b := x)) xs"
      by (rule bcache_ok_upd [OF assms(1)]) (use hit(1-3) u xs in \<open>simp_all add: hit(4)\<close>)
    then show ?thesis using hit(1-3) xs by (simp add: hit(4))
  next
    case miss
    have "bcache_ok (bs(b := x)) xs"
      by (rule bcache_ok_upd [OF assms(1)]) (use miss(1,2) xs in \<open>simp_all add: miss(3)\<close>)
    then show ?thesis using miss(1) xs by (simp add: miss(3))
  qed
  then show "b < NBUF" "b_dev x = dev" "b_blockno x = bn" "bcache_ok (bs(b := x)) xs" by simp_all
qed

text \<open>C30: \<open>bget\<close> without contention. Its searches end. It returns the buffer that caches the block if there is one, with one more
  reference; otherwise the least recently released buffer without references, which it takes over; and panics only
  if every buffer is referred to. The caller holds the sleep lock of the buffer, the buffer is for the block asked for,
  and no block is in two buffers.\<close>

theorem bget_correct:
  assumes "hw_ok (hw s)" "c_proc (cpus (hw s) (tp (hw s))) = Some p" "lock_free BcacheLock (hw s)"
    "\<forall>b<NBUF. lock_free (SleepLk (BufSleep b)) (hw s) \<and> sl_locked (sleeplocks s (BufSleep b)) = 0"
    and "bcache_ok (bufs s) xs" "dev \<noteq> 0"
  shows "case bget_choice (bufs s) dev bn xs of
      None \<Rightarrow> (\<forall>b<NBUF. b_refcnt (bufs s b) \<noteq> 0) \<and> (\<exists>s'. bget dev bn s = Panic ''bget: no buffers'' s')
    | Some (b, x) \<Rightarrow> b < NBUF \<and> b_dev x = dev \<and> b_blockno x = bn \<and> bcache_ok ((bufs s)(b := x)) xs \<and>
        bget dev bn s = Ret b (s\<lparr>hw := hw_touch (hw s), bufs := (bufs s)(b := x),
          sleeplocks := (sleeplocks s)(BufSleep b := (sleeplocks s (BufSleep b))\<lparr>sl_locked := 1, sl_pid := p_pid (procs s p)\<rparr>)\<rparr>)"
proof -
  have l: "lru (bufs s) xs" and xs: "set xs = {..<NBUF}" using assms(5) by (simp_all add: bcache_ok_def)
  let ?s = "s\<lparr>hw := hw_enter BcacheLock (hw s)\<rparr>"
  have tail: "kseq (upd_buf b f) (kseq (release BcacheLock) (kseq (acquiresleep (BufSleep b)) (kret b))) ?s =
      Ret b (s\<lparr>hw := hw_touch (hw s), bufs := (bufs s)(b := f (bufs s b)),
        sleeplocks := (sleeplocks s)(BufSleep b := (sleeplocks s (BufSleep b))\<lparr>sl_locked := 1, sl_pid := p_pid (procs s p)\<rparr>)\<rparr>)"
    if "b < NBUF" for b f
    using assms(1-4) that by (simp add: upd_buf_def kexec acquiresleep_free)
  have first: "bget dev bn s = (case find (\<lambda>b. b_dev (bufs s b) = dev \<and> b_blockno (bufs s b) = bn) xs of
        Some b \<Rightarrow> kseq (upd_buf b (\<lambda>x. x\<lparr>b_refcnt := b_refcnt x + 1\<rparr>)) (kseq (release BcacheLock) (kseq (acquiresleep (BufSleep b)) (kret b))) ?s
      | None \<Rightarrow> (case find (\<lambda>b. b_refcnt (bufs s b) = 0) (rev xs) of
          Some b \<Rightarrow> kseq (upd_buf b (\<lambda>x. x\<lparr>b_dev := dev, b_blockno := bn, b_valid := 0, b_refcnt := 1\<rparr>))
            (kseq (release BcacheLock) (kseq (acquiresleep (BufSleep b)) (kret b))) ?s
        | None \<Rightarrow> Panic ''bget: no buffers'' ?s))"
    using assms(3) lru_searches [OF l] by (simp add: bget_def kexec split: option.split)
  show ?thesis
  proof (cases "bget_choice (bufs s) dev bn xs")
    case None
    then have n: "find (\<lambda>b. b_dev (bufs s b) = dev \<and> b_blockno (bufs s b) = bn) xs = None" "find (\<lambda>b. b_refcnt (bufs s b) = 0) (rev xs) = None"
      by (auto simp: bget_choice_def split: option.splits)
    then have "\<forall>b<NBUF. b_refcnt (bufs s b) \<noteq> 0" using xs by (auto simp: find_None_iff)
    then show ?thesis using None first unfolding n by simp
  next
    case (Some bx)
    obtain b x where bx: "bx = (b, x)" by force
    note ok = bget_choice_ok [OF assms(5,6) Some [unfolded bx]]
    have "bget dev bn s = Ret b (s\<lparr>hw := hw_touch (hw s), bufs := (bufs s)(b := x),
        sleeplocks := (sleeplocks s)(BufSleep b := (sleeplocks s (BufSleep b))\<lparr>sl_locked := 1, sl_pid := p_pid (procs s p)\<rparr>)\<rparr>)"
      using Some ok(1) tail [of b] unfolding first bx by (auto simp: bget_choice_def simp del: kseq_def split: option.splits)
    then show ?thesis using Some ok by (simp add: bx)
  qed
qed

subsection \<open>Building and maintaining the list\<close>

lemma link_front_other [simp]:
  "b_dev (link_front b bs c) = b_dev (bs c)" "b_blockno (link_front b bs c) = b_blockno (bs c)" "b_refcnt (link_front b bs c) = b_refcnt (bs c)"
  "b_dev (unlink_buf b bs c) = b_dev (bs c)" "b_blockno (unlink_buf b bs c) = b_blockno (bs c)" "b_refcnt (unlink_buf b bs c) = b_refcnt (bs c)"
  "b_data (link_front b bs c) = b_data (bs c)" "b_data (unlink_buf b bs c) = b_data (bs c)"
  by (simp_all add: link_front_def unlink_buf_def Let_def)

lemma binit_loop:
  assumes "lru (bufs s) xs" "\<forall>b\<in>set bs. b \<noteq> bhead \<and> b \<notin> set xs" "distinct bs"
  shows "\<exists>s'. for_each bs binit_slot s = Ret () s' \<and>
    lru (bufs s') (rev bs @ xs) \<and> (\<forall>b. b_dev (bufs s' b) = b_dev (bufs s b) \<and> b_refcnt (bufs s' b) = b_refcnt (bufs s b)) \<and>
    (\<forall>b\<in>set bs. sl_locked (sleeplocks s' (BufSleep b)) = 0 \<and> lock_free (SleepLk (BufSleep b)) (hw s')) \<and>
    (\<forall>b. sl_locked (sleeplocks s (BufSleep b)) = 0 \<longrightarrow> sl_locked (sleeplocks s' (BufSleep b)) = 0) \<and>
    (\<forall>l. lock_free l (hw s) \<longrightarrow> lock_free l (hw s')) \<and> tp (hw s') = tp (hw s) \<and> cpus (hw s') = cpus (hw s) \<and> sie (hw s') = sie (hw s)"
  using assms
proof (induction bs arbitrary: s xs)
  case (Cons b bs)
  let ?s = "s\<lparr>hw := set_lock (SleepLk (BufSleep b)) (\<lambda>l. l\<lparr>lk_name := ''sleep lock'', locked := 0, lk_cpu := None\<rparr>) (hw s),
    sleeplocks := (sleeplocks s)(BufSleep b := (sleeplocks s (BufSleep b))\<lparr>sl_name := ''buffer'', sl_locked := 0, sl_pid := 0\<rparr>),
    bufs := link_front b (bufs s)\<rparr>"
  have "lru (bufs ?s) (b # xs)" using link_front_lru [of "bufs s" xs b] Cons.prems by simp
  moreover have "\<forall>c\<in>set bs. c \<noteq> bhead \<and> c \<notin> set (b # xs)" "distinct bs" using Cons.prems(2,3) by auto
  ultimately obtain s' where s': "for_each bs binit_slot ?s = Ret () s'"
    "lru (bufs s') (rev bs @ b # xs)" "\<forall>c. b_dev (bufs s' c) = b_dev (bufs ?s c) \<and> b_refcnt (bufs s' c) = b_refcnt (bufs ?s c)"
    "\<forall>b\<in>set bs. sl_locked (sleeplocks s' (BufSleep b)) = 0 \<and> lock_free (SleepLk (BufSleep b)) (hw s')"
    "\<forall>b. sl_locked (sleeplocks ?s (BufSleep b)) = 0 \<longrightarrow> sl_locked (sleeplocks s' (BufSleep b)) = 0"
    "\<forall>l. lock_free l (hw ?s) \<longrightarrow> lock_free l (hw s')" "tp (hw s') = tp (hw ?s)" "cpus (hw s') = cpus (hw ?s)" "sie (hw s') = sie (hw ?s)"
    using Cons.IH [of ?s "b # xs"] by blast
  have step: "binit_slot b s = Ret () ?s"
    by (simp add: binit_slot_def initsleeplock_def initlock_eq upd_sleeplock_def)
  have "lock_free l (hw ?s)" if "lock_free l (hw s)" for l using that by (auto simp: lock_free_def set_lock_def)
  moreover have "sl_locked (sleeplocks s' (BufSleep b)) = 0" using s'(5) by simp
  moreover have "lock_free (SleepLk (BufSleep b)) (hw s')" using s'(6) by simp
  moreover have "for_each (b # bs) binit_slot s = Ret () s'"
    using s'(1) step by simp
  ultimately show ?case
    using s'(2-) by (intro exI [of _ s']) (simp add: set_lock_def)
qed simp

lemma binit_lru:
  assumes "\<forall>b<NBUF. b_dev (bufs s b) = 0"
  shows "\<exists>s'. binit s = Ret () s' \<and> bcache_ok (bufs s') (rev [0..<NBUF]) \<and>
    (\<forall>b. b_dev (bufs s' b) = b_dev (bufs s b) \<and> b_refcnt (bufs s' b) = b_refcnt (bufs s b)) \<and>
    (\<forall>b<NBUF. sl_locked (sleeplocks s' (BufSleep b)) = 0 \<and> lock_free (SleepLk (BufSleep b)) (hw s')) \<and> lock_free BcacheLock (hw s') \<and>
    (\<forall>l. lock_free l (hw s) \<longrightarrow> lock_free l (hw s')) \<and> tp (hw s') = tp (hw s) \<and> cpus (hw s') = cpus (hw s) \<and> sie (hw s') = sie (hw s)"
proof -
  let ?s = "s\<lparr>hw := set_lock BcacheLock (\<lambda>l. l\<lparr>lk_name := ''bcache'', locked := 0, lk_cpu := None\<rparr>) (hw s),
    bufs := (bufs s)(bhead := (bufs s bhead)\<lparr>b_prev := bhead, b_next := bhead\<rparr>)\<rparr>"
  have "lru (bufs ?s) []" by (simp add: lru_def)
  from binit_loop [OF this, of "[0..<NBUF]"] obtain s' where s': "for_each [0..<NBUF] binit_slot ?s = Ret () s'"
    "lru (bufs s') (rev [0..<NBUF])" "\<forall>b. b_dev (bufs s' b) = b_dev (bufs ?s b) \<and> b_refcnt (bufs s' b) = b_refcnt (bufs ?s b)"
    "\<forall>b\<in>set [0..<NBUF]. sl_locked (sleeplocks s' (BufSleep b)) = 0 \<and> lock_free (SleepLk (BufSleep b)) (hw s')"
    "\<forall>l. lock_free l (hw ?s) \<longrightarrow> lock_free l (hw s')" "tp (hw s') = tp (hw ?s)" "cpus (hw s') = cpus (hw ?s)" "sie (hw s') = sie (hw ?s)"
    by (auto simp: bhead_def)
  have "bcache_ok (bufs s') (rev [0..<NBUF])"
    using s'(2,3) assms unfolding bcache_ok_def by (auto simp: bhead_def)
  moreover have "binit s = Ret () s'" using s'(1) by (simp add: binit_def initlock_eq upd_buf_def)
  moreover have "lock_free l (hw ?s)" if "lock_free l (hw s) \<or> l = BcacheLock" for l using that by (auto simp: lock_free_def set_lock_def)
  ultimately show ?thesis using s'(3-) by (auto simp: set_lock_def)
qed

theorem bget_correct_witness:
  "\<exists>(s :: kdisk) s'. bget 1 5 s = Ret 0 s' \<and> b_dev (bufs s' 0) = 1 \<and> b_blockno (bufs s' 0) = 5"
proof -
  have "\<forall>b<NBUF. b_dev (bufs idle_disk b) = 0" by simp
  from binit_lru [OF this] obtain s :: kdisk where s: "bcache_ok (bufs s) (rev [0..<NBUF])"
      "\<forall>b. b_dev (bufs s b) = b_dev (bufs idle_disk b) \<and> b_refcnt (bufs s b) = b_refcnt (bufs idle_disk b)"
      "\<forall>b<NBUF. sl_locked (sleeplocks s (BufSleep b)) = 0 \<and> lock_free (SleepLk (BufSleep b)) (hw s)" "lock_free BcacheLock (hw s)"
      "tp (hw s) = tp (hw idle_disk)" "cpus (hw s) = cpus (hw idle_disk)" "sie (hw s) = sie (hw idle_disk)" by blast
  have h: "hw_ok (hw s)" "c_proc (cpus (hw s) (tp (hw s))) = Some 0"
    using s(5-7) by (simp_all add: hw_ok_def three_procs_def boot_hw_def)
  have "find (\<lambda>b. b_refcnt (bufs s b) = 0) [0..<NBUF] = Some 0" using s(2) by (simp add: NBUF_def MAXOPBLOCKS_def upt_conv_Cons)
  moreover have "find (\<lambda>b. b_dev (bufs s b) = 1 \<and> b_blockno (bufs s b) = 5) (rev [0..<NBUF]) = None" using s(2) by (simp add: find_None_iff)
  ultimately show ?thesis
    using bget_correct [OF h s(4) _ s(1), of 1 5] s(3) by - (rule exI [of _ s], auto simp: bget_choice_def)
qed

lemma bcache_ok_mono:
  assumes "bcache_ok bs xs" "lru bs' ys" "set ys = set xs" "\<And>c. b_dev (bs' c) = b_dev (bs c)" "\<And>c. b_blockno (bs' c) = b_blockno (bs c)"
  shows "bcache_ok bs' ys"
  using assms(1-3) unfolding bcache_ok_def assms(4,5) by blast

text \<open>C31: \<open>brelse\<close> without contention by the holder of the buffer: it gives up the sleep lock and one reference, and when that was
  the last one moves the buffer to the front of the list, as the most recently released. The list stays linked both ways
  through all the buffers, and neither blocks nor contents change.\<close>

theorem brelse_keeps_lru:
  assumes "procs_free (hw s)" "c_proc (cpus (hw s) (tp (hw s))) = Some p" "lock_free BcacheLock (hw s)"
    "lock_free (SleepLk (BufSleep b)) (hw s)" "sl_locked (sleeplocks s (BufSleep b)) \<noteq> 0" "sl_pid (sleeplocks s (BufSleep b)) = p_pid (procs s p)"
    and "bcache_ok (bufs s) (ys @ b # zs)"
  shows "\<exists>s'. brelse b s = Ret () s' \<and> sl_locked (sleeplocks s' (BufSleep b)) = 0 \<and> b_refcnt (bufs s' b) = b_refcnt (bufs s b) - 1 \<and>
    bcache_ok (bufs s') (if b_refcnt (bufs s b) = 1 then b # ys @ zs else ys @ b # zs) \<and>
    (\<forall>c. b_dev (bufs s' c) = b_dev (bufs s c) \<and> b_blockno (bufs s' c) = b_blockno (bufs s c) \<and> b_data (bufs s' c) = b_data (bufs s c))"
proof -
  define bs1 where "bs1 = (bufs s)(b := (bufs s b)\<lparr>b_refcnt := b_refcnt (bufs s b) - 1\<rparr>)"
  define bs2 where "bs2 = (if b_refcnt (bufs s b) = 1 then link_front b (unlink_buf b bs1) else bs1)"
  have ok: "hw_ok (hw s)" "others_free (hw s)" using assms(1) by (simp_all add: procs_free_def others_free_def)
  have l: "lru (bufs s) (ys @ b # zs)" using assms(7) by (simp add: bcache_ok_def)
  have "linked bs1 xs = linked (bufs s) xs" for xs by (rule linked_cong) (simp_all add: bs1_def)
  then have l1: "lru bs1 (ys @ b # zs)" using l unfolding lru_def by blast
  have f: "b_dev (bs2 c) = b_dev (bufs s c)" "b_blockno (bs2 c) = b_blockno (bufs s c)" "b_data (bs2 c) = b_data (bufs s c)" for c
    by (auto simp: bs2_def bs1_def)
  have "lru bs2 (if b_refcnt (bufs s b) = 1 then b # ys @ zs else ys @ b # zs)"
    using l1 link_front_lru [OF unlink_buf_lru [OF l1], of b] by (auto simp: bs2_def lru_def)
  then have "bcache_ok bs2 (if b_refcnt (bufs s b) = 1 then b # ys @ zs else ys @ b # zs)"
    by (rule bcache_ok_mono [OF assms(7)]) (use f in auto)
  moreover have "\<exists>s'. brelse b s = Ret () s' \<and> sl_locked (sleeplocks s' (BufSleep b)) = 0 \<and> bufs s' = bs2"
    using ok assms(2-6) unfolding bs2_def bs1_def
    by (simp add: brelse_def holdingsleep_def releasesleep_def kexec with_myproc_def myproc_eq get_proc_def upd_sleeplock_def upd_buf_def)
  moreover have "b_refcnt (bs2 b) = b_refcnt (bufs s b) - 1" by (simp add: bs2_def bs1_def)
  ultimately show ?thesis using f by auto
qed

theorem brelse_keeps_lru_witness:
  "\<exists>(s :: kdisk) s'. brelse 3 s = Ret () s' \<and> bcache_ok (bufs s') (3 # rev [4..<NBUF] @ [2, 1, 0])"
proof -
  have "\<forall>b<NBUF. b_dev (bufs idle_disk b) = 0" by simp
  from binit_lru [OF this] obtain s :: kdisk where s: "bcache_ok (bufs s) (rev [0..<NBUF])"
      "\<forall>b<NBUF. sl_locked (sleeplocks s (BufSleep b)) = 0 \<and> lock_free (SleepLk (BufSleep b)) (hw s)" "lock_free BcacheLock (hw s)"
      "\<forall>l. lock_free l (hw idle_disk) \<longrightarrow> lock_free l (hw s)"
      "tp (hw s) = tp (hw idle_disk)" "cpus (hw s) = cpus (hw idle_disk)" "sie (hw s) = sie (hw idle_disk)"
      "\<forall>b. b_dev (bufs s b) = b_dev (bufs idle_disk b) \<and> b_refcnt (bufs s b) = b_refcnt (bufs idle_disk b)" by blast
  let ?s = "s\<lparr>bufs := (bufs s)(3 := (bufs s 3)\<lparr>b_refcnt := 1\<rparr>),
    sleeplocks := (sleeplocks s)(BufSleep 3 := \<lparr>sl_locked = 1, sl_name = [], sl_pid = p_pid (procs s 0)\<rparr>)\<rparr>"
  have h: "procs_free (hw ?s)" "c_proc (cpus (hw ?s) (tp (hw ?s))) = Some 0"
    using s(4-7) three_procs_free by (simp_all add: procs_free_def hw_ok_def)
  have xs: "rev [0..<NBUF] = rev [4..<NBUF] @ 3 # [2, 1, 0]" by (simp add: NBUF_def MAXOPBLOCKS_def upt_conv_Cons)
  have "bcache_ok (bufs ?s) (rev [4..<NBUF] @ 3 # [2, 1, 0])"
    using bcache_ok_upd [OF s(1), of 3 "(bufs s 3)\<lparr>b_refcnt := 1\<rparr>"] s(8) xs by (simp add: NBUF_def MAXOPBLOCKS_def)
  from brelse_keeps_lru [OF h _ _ _ _ this] s(2,3) show ?thesis
    by - (rule exI [of _ ?s], auto simp: NBUF_def MAXOPBLOCKS_def)
qed

end
