(* ===== verification/Crash.thy ===== *)
theory Crash
  imports Log
begin

text \<open>
  Runs of kernel programs without interference, and a block device to run them on.

  \<open>crun G Q t\<close> says that \<open>t\<close>, left alone at its waiting points, ends by returning in \<open>Q\<close>, and that \<open>G\<close> holds of the state at
  every waiting point on the way. It is a total-correctness judgement: programs that panic or go on forever do not satisfy it.

  \<open>plain_bio\<close> is a block device with a cache that holds every block once it has been read: the buffer of a block has the
  block's number. A write reaches the disk before the waiting point that follows it, so the waiting points are the
  moments at which a crash can hit a program that writes blocks one after the other. The log and the file system are
  the same definitions over this device as over the kernel's buffer cache.
\<close>

subsection \<open>Runs\<close>

inductive crun :: "('s \<Rightarrow> bool) \<Rightarrow> ('a \<Rightarrow> 's \<Rightarrow> bool) \<Rightarrow> ('s, 'a) kprog \<Rightarrow> bool" for G Q where
  crun_Ret: "Q a s \<Longrightarrow> crun G Q (Ret a s)"
| crun_Wait: "G s \<Longrightarrow> crun G Q (k s) \<Longrightarrow> crun G Q (Wait w s k)"

inductive_simps crun_Ret_simp [simp]: "crun G Q (Ret a s)"
inductive_simps crun_Wait_simp [simp]: "crun G Q (Wait w s k)"
inductive_simps crun_Panic_simp [simp]: "crun G Q (Panic e s)"
inductive_simps crun_Diverge_simp [simp]: "crun G Q Diverge"

lemma crun_tbind:
  assumes "crun G Q' t" and "\<And>a s. Q' a s \<Longrightarrow> crun G Q (f a s)"
  shows "crun G Q (tbind t f)"
  using assms(1) by induction (auto intro: assms(2))

lemma crun_mono:
  assumes "crun G Q t" and "\<And>s. G s \<Longrightarrow> G' s" and "\<And>a s. Q a s \<Longrightarrow> Q' a s"
  shows "crun G' Q' t"
  using assms(1) by induction (auto intro: assms(2,3))

text \<open>A loop: an invariant and a measure that every round decreases.\<close>

lemma crun_kwhile:
  assumes "\<And>v s. I v s \<Longrightarrow> crun G (\<lambda>r s'. case r of Inl v' \<Rightarrow> I v' s' \<and> m v' < (m v :: nat) | Inr a \<Rightarrow> Q a s') (body v s)"
    and "I v s"
  shows "crun G Q (kwhile body v s)"
  using assms(2)
proof (induction "m v" arbitrary: v s rule: less_induct)
  case less
  have "crun G Q (tbind (body v s) (\<lambda>r. case r of Inl v' \<Rightarrow> kwhile body v' | Inr a \<Rightarrow> kret a))"
  proof (rule crun_tbind [OF assms(1) [OF less.prems]])
    fix r s'
    assume "case r of Inl v' \<Rightarrow> I v' s' \<and> m v' < m v | Inr a \<Rightarrow> Q a s'"
    then show "crun G Q ((case r of Inl v' \<Rightarrow> kwhile body v' | Inr a \<Rightarrow> kret a) s')"
      using less.hyps by (cases r) auto
  qed
  then show ?case by (simp only: kwhile_step [of body v s])
qed

lemma crun_for_each:
  assumes "\<And>x s. x \<in> set xs \<Longrightarrow> I s \<Longrightarrow> crun G (\<lambda>_. I) (body x s)" and "I s"
  shows "crun G (\<lambda>_. I) (for_each xs body s)"
  using assms
proof (induction xs arbitrary: s)
  case (Cons x xs)
  have "crun G (\<lambda>_. I) (tbind (body x s) (\<lambda>_. for_each xs body))"
    by (rule crun_tbind [where Q' = "\<lambda>_. I"]) (use Cons in auto)
  then show ?case by simp
qed simp

subsection \<open>The plain block device\<close>

definition plain_load :: "u32 \<Rightarrow> u32 \<Rightarrow> 'x kdisk_scheme \<Rightarrow> 'x kdisk_scheme" where
  "plain_load dev bn s =
     (if b_valid (bufs s (unat bn)) \<noteq> 0 then s
      else s\<lparr>bufs := (bufs s)(unat bn := (bufs s (unat bn))\<lparr>b_valid := 1, b_dev := dev, b_blockno := bn, b_data := media (disk s) bn\<rparr>)\<rparr>)"

definition plain_store :: "nat \<Rightarrow> 'x kdisk_scheme \<Rightarrow> 'x kdisk_scheme" where
  "plain_store b s = s\<lparr>disk := (disk s)\<lparr>media := (media (disk s))(b_blockno (bufs s b) := b_data (bufs s b))\<rparr>\<rparr>"

definition plain_bio :: "('x kdisk_scheme) block_ops" where
  "plain_bio = \<lparr>op_bread = \<lambda>dev bn s. Ret (unat bn) (plain_load dev bn s),
     op_bwrite = \<lambda>b s. Wait Polling (plain_store b s) (\<lambda>s'. Ret () s'),
     op_brelse = \<lambda>b s. Ret () s, op_bpin = \<lambda>b s. Ret () s, op_bunpin = \<lambda>b s. Ret () s\<rparr>"

text \<open>The contents of a block as programs see it, and the state of the device: buffers carry the number of their block, and
  nothing is stored beyond the end of a block.\<close>

definition cdata :: "'x kdisk_scheme \<Rightarrow> u32 \<Rightarrow> memory" where
  "cdata s bn = (if b_valid (bufs s (unat bn)) \<noteq> 0 then b_data (bufs s (unat bn)) else media (disk s) bn)"

definition sized :: "memory \<Rightarrow> bool" where
  "sized m \<longleftrightarrow> (\<forall>i\<ge>BSIZE. m i = 0)"

definition plain_ok :: "'x kdisk_scheme \<Rightarrow> bool" where
  "plain_ok s \<longleftrightarrow> (\<forall>bn. b_valid (bufs s (unat bn)) \<noteq> 0 \<longrightarrow> b_blockno (bufs s (unat bn)) = bn) \<and>
     (\<forall>bn. sized (cdata s bn)) \<and> (\<forall>bn. sized (media (disk s) bn))"

definition loaded :: "u32 \<Rightarrow> 'x kdisk_scheme \<Rightarrow> bool" where
  "loaded bn s \<longleftrightarrow> b_valid (bufs s (unat bn)) \<noteq> 0"

lemma cdata_loaded: "loaded bn s \<Longrightarrow> cdata s bn = b_data (bufs s (unat bn))"
  by (simp add: cdata_def loaded_def)

lemma cdata_load [simp]: "cdata (plain_load dev bn s) = cdata s"
  by (auto simp: plain_load_def cdata_def fun_eq_iff simp flip: word_unat_eq_iff)

lemma plain_load_simps [simp]:
  "plain_ok s \<Longrightarrow> plain_ok (plain_load dev bn s)"
  "media (disk (plain_load dev bn s)) = media (disk s)" "loaded bn (plain_load dev bn s)"
  "loaded bn' s \<Longrightarrow> loaded bn' (plain_load dev bn s)"
proof -
  show "media (disk (plain_load dev bn s)) = media (disk s)" by (simp add: plain_load_def)
  then show "plain_ok s \<Longrightarrow> plain_ok (plain_load dev bn s)"
    unfolding plain_ok_def cdata_load by (auto simp: plain_load_def simp flip: word_unat_eq_iff split: if_splits)
qed (auto simp: plain_load_def loaded_def)

lemma plain_store_simps:
  assumes "plain_ok s" "loaded bn s"
  shows "plain_ok (plain_store (unat bn) s)" "cdata (plain_store (unat bn) s) = cdata s"
    "media (disk (plain_store (unat bn) s)) = (media (disk s))(bn := cdata s bn)"
    "loaded bn' (plain_store (unat bn) s) = loaded bn' s"
proof -
  have no: "b_blockno (bufs s (unat bn)) = bn" using assms by (simp add: plain_ok_def loaded_def)
  show m: "media (disk (plain_store (unat bn) s)) = (media (disk s))(bn := cdata s bn)"
    using assms(2) by (simp add: plain_store_def no cdata_loaded)
  show c: "cdata (plain_store (unat bn) s) = cdata s"
    using assms(2) by (auto simp: plain_store_def no cdata_def fun_eq_iff loaded_def)
  show "plain_ok (plain_store (unat bn) s)"
    using assms(1) unfolding plain_ok_def m c by (simp add: plain_store_def)
qed (simp add: plain_store_def loaded_def)

lemma plain_update:
  assumes "plain_ok s" "loaded bn s" "sized (f (cdata s bn))"
  defines "s' \<equiv> s\<lparr>bufs := (bufs s)(unat bn := (bufs s (unat bn))\<lparr>b_data := f (b_data (bufs s (unat bn)))\<rparr>)\<rparr>"
  shows "plain_ok s'" "cdata s' = (cdata s)(bn := f (cdata s bn))" "media (disk s') = media (disk s)"
    "loaded bn' s' = loaded bn' s"
proof -
  show c: "cdata s' = (cdata s)(bn := f (cdata s bn))"
    using assms(2) by (auto simp: s'_def cdata_def fun_eq_iff loaded_def simp flip: word_unat_eq_iff)
  show "plain_ok s'"
    using assms(1,3) unfolding plain_ok_def c by (auto simp: s'_def simp flip: word_unat_eq_iff)
qed (auto simp: s'_def loaded_def)

end
