(* ===== verification/Recovery.thy ===== *)
theory Recovery
  imports Crash
begin

text \<open>
  Crash safety of the log. The disk is a map from block numbers to contents. \<open>replay\<close> is what the disk means: the contents with
  the committed transaction of the log header, if there is one, copied to its home blocks. Shown: at every moment of
  \<open>commit\<close> the disk means either the state before the transaction or the state after it, and recovery, which may itself be
  interrupted and run again, turns the disk into what it means.
\<close>

subsection \<open>Storing a sequence of blocks\<close>

primrec put :: "(nat \<Rightarrow> u32) \<Rightarrow> (nat \<Rightarrow> memory) \<Rightarrow> (u32 \<Rightarrow> memory) \<Rightarrow> nat \<Rightarrow> u32 \<Rightarrow> memory" where
  "put h f m 0 = m"
| "put h f m (Suc k) = (put h f m k)(h k := f k)"

lemma put_outside: "\<forall>i<k. h i \<noteq> x \<Longrightarrow> put h f m k x = m x"
  by (induction k) (auto simp: less_Suc_eq)

lemma put_inside:
  "i < k \<Longrightarrow> inj_on h {..<k} \<Longrightarrow> put h f m k (h i) = f i"
proof (induction k)
  case (Suc k)
  have "inj_on h {..<k}" using Suc.prems(2) by (rule inj_on_subset) auto
  moreover have "i < k \<Longrightarrow> h i \<noteq> h k" using Suc.prems(2) by (metis inj_on_contraD lessThan_iff less_SucI lessI nat_neq_iff)
  ultimately show ?case using Suc by (auto simp: less_Suc_eq)
qed simp

lemma put_cong_base: "(\<forall>i<k. h i \<noteq> x) \<longrightarrow> m x = m' x \<Longrightarrow> put h f m k x = put h f m' k x"
  by (induction k) (auto simp: less_Suc_eq)

lemma put_cong_val: "\<forall>i<k. f i = g i \<Longrightarrow> put h f m k = put h g m k"
  by (induction k) (auto simp: less_Suc_eq)

lemma put_put:
  assumes "inj_on h {..<n}" "k \<le> n"
  shows "put h f (put h f m k) n = put h f m n"
proof
  fix x
  show "put h f (put h f m k) n x = put h f m n x"
  proof (cases "\<exists>i<n. h i = x")
    case True
    then obtain i where "i < n" "h i = x" by blast
    then show ?thesis using put_inside [OF \<open>i < n\<close> assms(1)] by metis
  next
    case False
    then show ?thesis using assms(2) by (simp add: put_outside)
  qed
qed

subsection \<open>The header\<close>

primrec enc_blocks :: "(nat \<Rightarrow> int) \<Rightarrow> memory \<Rightarrow> nat \<Rightarrow> memory" where
  "enc_blocks blk m 0 = m"
| "enc_blocks blk m (Suc k) = store_int (enc_blocks blk m k) (4 + 4 * k) (blk k)"

definition enc_head :: "int \<Rightarrow> (nat \<Rightarrow> int) \<Rightarrow> memory \<Rightarrow> memory" where
  "enc_head n blk m = enc_blocks blk (store_int m 0 n) (nat n)"

lemma sint_of_int: "- (2 ^ 31) \<le> v \<Longrightarrow> v < 2 ^ 31 \<Longrightarrow> sint (word_of_int v :: u32) = v"
  by (simp add: signed_of_int signed_take_bit_int_eq_self)

lemma load_store_int:
  "- (2 ^ 31) \<le> v \<Longrightarrow> v < 2 ^ 31 \<Longrightarrow> load_int (store_int m a v) a = v"
  "a + 4 \<le> b \<or> b + 4 \<le> a \<Longrightarrow> load_int (store_int m b v) a = load_int m a"
  by (simp_all add: load_int_def store_int_def sint_of_int load32_def store32_def mem_read_write_disj
      del: take_bit_eq_mod) (use unat_lt2p [of "word_of_int v :: u32"] in \<open>simp add: sint_of_int\<close>)

lemma load_enc_blocks:
  "load_int (enc_blocks blk m k) 0 = load_int m 0"
  "i < k \<Longrightarrow> \<forall>i<k. - (2 ^ 31) \<le> blk i \<and> blk i < 2 ^ 31 \<Longrightarrow> load_int (enc_blocks blk m k) (4 + 4 * i) = blk i"
proof (induction k)
  case (Suc k)
  { case 1 then show ?case using Suc by (simp add: load_store_int) }
  { case 2 then show ?case using Suc by (cases "i = k") (simp_all add: load_store_int less_Suc_eq) }
qed simp_all

lemma sized_store_int: "sized m \<Longrightarrow> a + 4 \<le> BSIZE \<Longrightarrow> sized (store_int m a v)"
  by (simp add: sized_def store_int_def store32_def mem_write_def)

lemma sized_enc_blocks: "sized m \<Longrightarrow> 4 + 4 * k \<le> BSIZE \<Longrightarrow> sized (enc_blocks blk m k)"
  by (induction k) (simp_all add: sized_store_int)

lemma sized_enc_head: "sized m \<Longrightarrow> n \<le> LOGSIZE \<Longrightarrow> sized (enc_head n blk m)"
  by (simp add: enc_head_def sized_enc_blocks sized_store_int LOGSIZE_def MAXOPBLOCKS_def BSIZE_def)

lemma load_enc_head:
  assumes "0 \<le> n" "n \<le> LOGSIZE"
  shows "load_int (enc_head n blk m) 0 = n"
  using assms by (simp add: enc_head_def load_enc_blocks load_store_int LOGSIZE_def MAXOPBLOCKS_def)

lemma load_enc_head_block:
  "i < nat n \<Longrightarrow> \<forall>i<nat n. - (2 ^ 31) \<le> blk i \<and> blk i < 2 ^ 31 \<Longrightarrow> load_int (enc_head n blk m) (4 + 4 * i) = blk i"
  by (simp add: enc_head_def load_enc_blocks)

subsection \<open>One block at a time\<close>

text \<open>The number of the \<open>i\<close>-th block of the log, and of the \<open>i\<close>-th home block of a header in memory.\<close>

definition logb :: "int \<Rightarrow> nat \<Rightarrow> u32" where
  "logb st i = word_of_int (st + int i + 1)"

definition homeb :: "(nat \<Rightarrow> int) \<Rightarrow> nat \<Rightarrow> u32" where
  "homeb blk i = word_of_int (blk i)"

text \<open>The state of the log: its place, the header in memory, what programs see in the blocks, and the disk.\<close>

definition lg :: "int \<Rightarrow> int \<Rightarrow> (nat \<Rightarrow> int) \<Rightarrow> (u32 \<Rightarrow> memory) \<Rightarrow> (u32 \<Rightarrow> memory) \<Rightarrow> 'x klog_scheme \<Rightarrow> bool" where
  "lg st n blk c m s \<longleftrightarrow>
     plain_ok s \<and> log_start s = st \<and> lh_n s = n \<and> lh_block s = blk \<and> cdata s = c \<and> media (disk s) = m"

lemma plain_keeps_log [simp]:
  "log_start (plain_load d b s) = log_start s" "lh_n (plain_load d b s) = lh_n s"
  "lh_block (plain_load d b s) = lh_block s" "log_dev (plain_load d b s) = log_dev s"
  "log_start (plain_store k s) = log_start s" "lh_n (plain_store k s) = lh_n s"
  "lh_block (plain_store k s) = lh_block s" "log_dev (plain_store k s) = log_dev s"
  by (simp_all add: plain_load_def plain_store_def)

lemma lg_load: "lg st n blk c m s \<Longrightarrow> lg st n blk c m (plain_load d b s)"
  by (simp add: lg_def)

lemma lg_store:
  "lg st n blk c m s \<Longrightarrow> loaded b s \<Longrightarrow> lg st n blk c (m(b := c b)) (plain_store (unat b) s)"
  by (simp add: lg_def plain_store_simps)

lemma upd_data_lg:
  assumes "lg st n blk c m s" "loaded b s" "sized (f (c b))"
  shows "\<exists>s'. upd_data (unat b) f s = Ret () s' \<and> lg st n blk (c(b := f (c b))) m s' \<and> (\<forall>x. loaded x s \<longrightarrow> loaded x s')"
  using assms plain_update [of s b f] by (simp add: lg_def upd_data_def upd_buf_def)

lemma sized_copy:
  assumes "sized m" "sized m'"
  shows "mem_write m' 0 (mem_read m 0 BSIZE) = m"
proof
  fix i
  show "mem_write m' 0 (mem_read m 0 BSIZE) i = m i"
    using assms by (simp add: sized_def mem_write_apply)
qed

lemma copy_block_lg:
  assumes "lg st n blk c m s" "loaded a s" "loaded b s"
  shows "\<exists>s'. copy_block (unat a) (unat b) s = Ret () s' \<and> lg st n blk (c(a := c b)) m s' \<and> (\<forall>x. loaded x s \<longrightarrow> loaded x s')"
proof -
  have z: "sized (c x)" for x using assms(1) by (auto simp: lg_def plain_ok_def)
  have "b_data (bufs s (unat b)) = c b" using assms(1,3) by (auto simp: lg_def cdata_loaded)
  then show ?thesis
    using upd_data_lg [OF assms(1,2), of "\<lambda>m'. mem_write m' 0 (mem_read (c b) 0 BSIZE)"] z
    by (simp add: copy_block_def buf_data_def sized_copy)
qed

lemma install_round_lg:
  assumes "lg st n blk c m s" "int k < n"
    and "G (m(homeb blk k := c (logb st k)))"
  shows "crun (\<lambda>s. G (media (disk s)))
    (\<lambda>r s'. r = Inl (int (Suc k)) \<and>
       lg st n blk (c(homeb blk k := c (logb st k))) (m(homeb blk k := c (logb st k))) s')
    (install_trans_round plain_bio rc (int k) s)"
proof -
  let ?l = "logb st k" and ?h = "homeb blk k"
  let ?s2 = "plain_load (word_of_int (log_dev s)) ?h (plain_load (word_of_int (log_dev s)) ?l s)"
  have 2: "lg st n blk c m ?s2" "loaded ?h ?s2" "loaded ?l ?s2" using assms(1) by (simp_all add: lg_load)
  obtain s3 where 3: "copy_block (unat ?h) (unat ?l) ?s2 = Ret () s3" "lg st n blk (c(?h := c ?l)) m s3" "loaded ?h s3"
    using copy_block_lg [OF 2] 2(2) by blast
  have 4: "lg st n blk (c(?h := c ?l)) (m(?h := c ?l)) (plain_store (unat ?h) s3)"
    using lg_store [OF 3(2,3)] by simp
  show ?thesis
    using assms 3(1) 4 by (simp add: lg_def install_trans_round_def plain_bio_def logb_def homeb_def kwhen_def algebra_simps)
qed

lemma write_round_lg:
  assumes "lg st n blk c m s" "int k < n"
    and "G (m(logb st k := c (homeb blk k)))"
  shows "crun (\<lambda>s. G (media (disk s)))
    (\<lambda>r s'. r = Inl (int (Suc k)) \<and>
       lg st n blk (c(logb st k := c (homeb blk k))) (m(logb st k := c (homeb blk k))) s')
    (write_log_round plain_bio (int k) s)"
proof -
  let ?l = "logb st k" and ?h = "homeb blk k"
  let ?s2 = "plain_load (word_of_int (log_dev s)) ?h (plain_load (word_of_int (log_dev s)) ?l s)"
  have 2: "lg st n blk c m ?s2" "loaded ?l ?s2" "loaded ?h ?s2" using assms(1) by (simp_all add: lg_load)
  obtain s3 where 3: "copy_block (unat ?l) (unat ?h) ?s2 = Ret () s3" "lg st n blk (c(?l := c ?h)) m s3" "loaded ?l s3"
    using copy_block_lg [OF 2] 2(2) by blast
  have 4: "lg st n blk (c(?l := c ?h)) (m(?l := c ?h)) (plain_store (unat ?l) s3)"
    using lg_store [OF 3(2,3)] by simp
  show ?thesis
    using assms 3(1) 4 by (simp add: lg_def write_log_round_def plain_bio_def logb_def homeb_def algebra_simps)
qed

subsection \<open>The loops\<close>

text \<open>The blocks of the log, header included; and a header whose home blocks are different blocks outside the log.\<close>

definition log_area :: "int \<Rightarrow> u32 set" where
  "log_area st = set (word_of_int st # map (logb st) [0..<nat LOGSIZE])"

definition homes_ok :: "int \<Rightarrow> nat \<Rightarrow> (nat \<Rightarrow> int) \<Rightarrow> bool" where
  "homes_ok st N blk \<longleftrightarrow> inj_on (homeb blk) {..<N} \<and> int N \<le> LOGSIZE \<and>
     (\<forall>i<N. homeb blk i \<notin> log_area st \<and> - (2 ^ 31) \<le> blk i \<and> blk i < 2 ^ 31)"

lemma logb_eq: "i \<le> 30 \<Longrightarrow> j \<le> 30 \<Longrightarrow> logb st i = logb st j \<longleftrightarrow> i = j"
proof -
  assume ij: "i \<le> 30" "j \<le> 30"
  have "logb st i = logb st j \<longleftrightarrow> (word_of_nat i :: u32) = word_of_nat j" by (simp add: logb_def)
  also have "\<dots> \<longleftrightarrow> i = j" using ij by (simp add: word_of_nat_eq_iff take_bit_nat_eq_self)
  finally show ?thesis .
qed

lemma logb_start: "i \<le> 30 \<Longrightarrow> logb st i \<noteq> word_of_int st"
proof
  assume i: "i \<le> 30" and e: "logb st i = word_of_int st"
  have "(word_of_nat (Suc i) :: u32) = word_of_nat 0" using e by (simp add: logb_def add.commute)
  then have "take_bit 32 (Suc i) = 0" by (simp only: word_of_nat_eq_iff) simp
  moreover have "take_bit 32 (Suc i) = Suc i" using i by (intro take_bit_nat_eq_self) simp
  ultimately show False by simp
qed

lemma homes_okD:
  assumes "homes_ok st N blk"
  shows "inj_on (homeb blk) {..<N}" "inj_on (logb st) {..<N}" "N \<le> 30"
    "\<And>i. i < N \<Longrightarrow> homeb blk i \<noteq> word_of_int st" "\<And>i. i < N \<Longrightarrow> logb st i \<noteq> word_of_int st"
    "\<And>i j. i < N \<Longrightarrow> j < N \<Longrightarrow> homeb blk i \<noteq> logb st j"
    "\<forall>i<N. - (2 ^ 31) \<le> blk i \<and> blk i < 2 ^ 31"
proof -
  show N: "N \<le> 30" using assms by (simp add: homes_ok_def LOGSIZE_def MAXOPBLOCKS_def)
  show "inj_on (logb st) {..<N}" using N by (intro inj_onI) (simp add: logb_eq)
  show "\<And>i. i < N \<Longrightarrow> logb st i \<noteq> word_of_int st" using N by (simp add: logb_start)
  show "\<And>i j. i < N \<Longrightarrow> j < N \<Longrightarrow> homeb blk i \<noteq> logb st j"
    using N assms by (force simp: homes_ok_def log_area_def LOGSIZE_def MAXOPBLOCKS_def)
qed (use assms in \<open>auto simp: homes_ok_def log_area_def\<close>)

lemma install_lg:
  assumes "lg st (int N) blk c m s" "homes_ok st N blk"
    and "\<And>k. k \<le> N \<Longrightarrow> G (put (homeb blk) (\<lambda>i. c (logb st i)) m k)"
  shows "crun (\<lambda>s. G (media (disk s)))
    (\<lambda>_. lg st (int N) blk (put (homeb blk) (\<lambda>i. c (logb st i)) c N) (put (homeb blk) (\<lambda>i. c (logb st i)) m N))
    (install_trans plain_bio rc s)"
  unfolding install_trans_def
proof (rule crun_kwhile [where m = "\<lambda>t. N - nat t" and I = "\<lambda>t s. \<exists>k\<le>N. t = int k \<and>
    lg st (int N) blk (put (homeb blk) (\<lambda>i. c (logb st i)) c k) (put (homeb blk) (\<lambda>i. c (logb st i)) m k) s"], goal_cases)
  case (1 t s)
  let ?c = "put (homeb blk) (\<lambda>i. c (logb st i)) c" and ?m = "put (homeb blk) (\<lambda>i. c (logb st i)) m"
  obtain k where k: "k \<le> N" "t = int k" "lg st (int N) blk (?c k) (?m k) s" using 1 by blast
  show ?case
  proof (cases "k < N")
    case True
    have same: "?c k (logb st k) = c (logb st k)" using homes_okD(6) [OF assms(2)] True by (intro put_outside) simp
    show ?thesis unfolding k(2)
      by (rule crun_mono [OF install_round_lg [OF k(3)]])
        (use assms(3) [of "Suc k"] True same in \<open>auto simp: fun_upd_def intro!: exI [of _ "Suc k"]\<close>)
  next
    case False
    then have "k = N" "lh_n s = int N" using k by (auto simp: lg_def)
    then show ?thesis using k by (simp add: install_trans_round_def)
  qed
qed (use assms(1) in auto)

lemma write_log_lg:
  assumes "lg st (int N) blk c m s" "homes_ok st N blk"
    and "\<And>k. k \<le> N \<Longrightarrow> G (put (logb st) (\<lambda>i. c (homeb blk i)) m k)"
  shows "crun (\<lambda>s. G (media (disk s)))
    (\<lambda>_. lg st (int N) blk (put (logb st) (\<lambda>i. c (homeb blk i)) c N) (put (logb st) (\<lambda>i. c (homeb blk i)) m N))
    (write_log plain_bio s)"
  unfolding write_log_def
proof (rule crun_kwhile [where m = "\<lambda>t. N - nat t" and I = "\<lambda>t s. \<exists>k\<le>N. t = int k \<and>
    lg st (int N) blk (put (logb st) (\<lambda>i. c (homeb blk i)) c k) (put (logb st) (\<lambda>i. c (homeb blk i)) m k) s"], goal_cases)
  case (1 t s)
  let ?c = "put (logb st) (\<lambda>i. c (homeb blk i)) c" and ?m = "put (logb st) (\<lambda>i. c (homeb blk i)) m"
  obtain k where k: "k \<le> N" "t = int k" "lg st (int N) blk (?c k) (?m k) s" using 1 by blast
  show ?case
  proof (cases "k < N")
    case True
    have same: "?c k (homeb blk k) = c (homeb blk k)" using homes_okD(6) [OF assms(2)] True by (intro put_outside) (metis order_less_trans)
    show ?thesis unfolding k(2)
      by (rule crun_mono [OF write_round_lg [OF k(3)]])
        (use assms(3) [of "Suc k"] True same in \<open>auto simp: fun_upd_def intro!: exI [of _ "Suc k"]\<close>)
  next
    case False
    then have "k = N" "lh_n s = int N" using k by (auto simp: lg_def)
    then show ?thesis using k by (simp add: write_log_round_def)
  qed
qed (use assms(1) in auto)

lemma enc_for_each:
  assumes "lg st n blk c m s" "loaded b s" "4 + 4 * k \<le> BSIZE"
  shows "\<exists>s'. for_each [0..<k] (\<lambda>i. upd_data (unat b) (\<lambda>m. store_int m (4 + 4 * i) (blk' i))) s = Ret () s' \<and>
    lg st n blk (c(b := enc_blocks blk' (c b) k)) m s' \<and> loaded b s'"
  using assms(3)
proof (induction k)
  case (Suc k)
  have "4 + 4 * k \<le> BSIZE" using Suc.prems by simp
  then obtain s1 where 1: "for_each [0..<k] (\<lambda>i. upd_data (unat b) (\<lambda>m. store_int m (4 + 4 * i) (blk' i))) s = Ret () s1"
    "lg st n blk (c(b := enc_blocks blk' (c b) k)) m s1" "loaded b s1" using Suc.IH by blast
  have "sized (enc_blocks blk' (c b) k)"
    using assms(1) Suc.prems by (intro sized_enc_blocks) (auto simp: lg_def plain_ok_def)
  then have "sized (store_int (enc_blocks blk' (c b) k) (4 + 4 * k) (blk' k))"
    using Suc.prems by (intro sized_store_int) auto
  then show ?case
    using upd_data_lg [OF 1(2,3), of "\<lambda>m. store_int m (4 + 4 * k) (blk' k)"] 1 by (auto simp: for_each_append fun_upd_def cong: if_cong)
qed (use assms in simp)

lemma write_head_lg:
  assumes "lg st n blk c m s" "0 \<le> n" "n \<le> LOGSIZE"
    and "G (m(word_of_int st := enc_head n blk (c (word_of_int st))))"
  shows "crun (\<lambda>s. G (media (disk s)))
    (\<lambda>_. lg st n blk (c(word_of_int st := enc_head n blk (c (word_of_int st)))) (m(word_of_int st := enc_head n blk (c (word_of_int st)))))
    (write_head plain_bio s)"
proof -
  let ?b = "word_of_int st :: u32"
  let ?s1 = "plain_load (word_of_int (log_dev s)) ?b s"
  have 1: "lg st n blk c m ?s1" "loaded ?b ?s1" using assms(1) by (simp_all add: lg_load)
  have "sized (store_int (c ?b) 0 n)"
    using assms(1) by (intro sized_store_int) (auto simp: lg_def plain_ok_def BSIZE_def)
  then obtain s2 where 2: "upd_data (unat ?b) (\<lambda>m. store_int m 0 n) ?s1 = Ret () s2"
    "lg st n blk (c(?b := store_int (c ?b) 0 n)) m s2" "loaded ?b s2" using upd_data_lg [OF 1, of "\<lambda>m. store_int m 0 n"] 1(2) by blast
  have "4 + 4 * nat n \<le> BSIZE" using assms by (simp add: LOGSIZE_def MAXOPBLOCKS_def BSIZE_def)
  then obtain s3 where 3: "for_each [0..<nat n] (\<lambda>i. upd_data (unat ?b) (\<lambda>m. store_int m (4 + 4 * i) (blk i))) s2 = Ret () s3"
    "lg st n blk (c(?b := enc_head n blk (c ?b))) m s3" "loaded ?b s3"
    using enc_for_each [OF 2(2,3), of "nat n" blk] by (auto simp: enc_head_def)
  have 4: "lg st n blk (c(?b := enc_head n blk (c ?b))) (m(?b := enc_head n blk (c ?b))) (plain_store (unat ?b) s3)"
    using lg_store [OF 3(2,3)] by simp
  show ?thesis
    using assms 2(1) 3(1) 4 by (simp add: lg_def write_head_def plain_bio_def)
qed

subsection \<open>What the disk means\<close>

definition head_n :: "int \<Rightarrow> (u32 \<Rightarrow> memory) \<Rightarrow> int" where
  "head_n st m = load_int (m (word_of_int st)) 0"

definition head_block :: "int \<Rightarrow> (u32 \<Rightarrow> memory) \<Rightarrow> nat \<Rightarrow> int" where
  "head_block st m i = load_int (m (word_of_int st)) (4 + 4 * i)"

definition replay :: "int \<Rightarrow> (u32 \<Rightarrow> memory) \<Rightarrow> u32 \<Rightarrow> memory" where
  "replay st m = put (homeb (head_block st m)) (\<lambda>i. m (logb st i)) m (nat (head_n st m))"

definition same_files :: "int \<Rightarrow> (u32 \<Rightarrow> memory) \<Rightarrow> (u32 \<Rightarrow> memory) \<Rightarrow> bool" where
  "same_files st m m' \<longleftrightarrow> (\<forall>x. x \<notin> log_area st \<longrightarrow> m x = m' x)"

text \<open>A disk whose log can be replayed.\<close>

definition head_ok :: "int \<Rightarrow> (u32 \<Rightarrow> memory) \<Rightarrow> bool" where
  "head_ok st m \<longleftrightarrow> 0 \<le> head_n st m \<and> homes_ok st (nat (head_n st m)) (head_block st m) \<and> (\<forall>x. sized (m x))"

lemma replay_empty: "head_n st m = 0 \<Longrightarrow> replay st m = m"
  by (simp add: replay_def)

lemma homes_ok_cong: "\<forall>i<N. blk i = blk' i \<Longrightarrow> homes_ok st N blk = homes_ok st N blk'"
  by (auto simp: homes_ok_def homeb_def inj_on_def)

lemma put_cong_home: "\<forall>i<k. blk i = blk' i \<Longrightarrow> put (homeb blk) f m k = put (homeb blk') f m k"
  by (induction k) (auto simp: homeb_def)

lemma same_files_refl [simp]: "same_files st m m"
  by (simp add: same_files_def)

lemma same_files_trans: "same_files st m1 m2 \<Longrightarrow> same_files st m2 m3 \<Longrightarrow> same_files st m1 m3"
  by (simp add: same_files_def)

lemma same_files_put:
  "same_files st m m' \<Longrightarrow> same_files st (put h f m k) (put h f m' k)"
  by (simp add: same_files_def put_cong_base)

lemma same_files_head: "same_files st (m(word_of_int st := v)) m' = same_files st m m'"
  by (auto simp: same_files_def log_area_def)

lemma same_files_log: "N \<le> 30 \<Longrightarrow> same_files st (put (logb st) f m N) m"
  unfolding same_files_def by (auto intro!: put_outside simp: log_area_def LOGSIZE_def MAXOPBLOCKS_def)

text \<open>A disk with the header \<open>n, blk\<close>, whose log blocks hold \<open>f\<close>.\<close>

lemma head_enc:
  assumes "homes_ok st N blk" "m (word_of_int st) = enc_head (int N) blk m0"
  shows "head_n st m = int N" "\<forall>i<N. head_block st m i = blk i"
proof -
  show "head_n st m = int N" using assms by (simp add: head_n_def load_enc_head homes_ok_def)
  show "\<forall>i<N. head_block st m i = blk i"
    using assms(2) homes_okD(7) [OF assms(1)] by (auto simp: head_block_def load_enc_head_block)
qed

lemma head_ok_empty: "head_n st m = 0 \<Longrightarrow> (\<And>x. sized (m x)) \<Longrightarrow> head_ok st m"
  by (simp add: head_ok_def homes_ok_def LOGSIZE_def MAXOPBLOCKS_def)

lemma head_n_enc_0: "m (word_of_int st) = enc_head 0 blk m0 \<Longrightarrow> head_n st m = 0"
  by (simp add: head_n_def load_enc_head LOGSIZE_def MAXOPBLOCKS_def)

lemma sized_put: "(\<And>i. sized (f i)) \<Longrightarrow> (\<And>x. sized (m x)) \<Longrightarrow> sized (put h f m k x)"
  by (induction k arbitrary: x) auto

text \<open>Installing the blocks of a log one by one does not change what the disk means.\<close>

lemma put_keeps_head:
  assumes "homes_ok st N blk" "head_n st m = int N" "\<forall>i<N. head_block st m i = blk i"
    and "\<And>i. i < N \<Longrightarrow> m (logb st i) = f i" and "\<And>x. sized (m x)" "\<And>i. sized (f i)" and "k \<le> N"
  shows "head_ok st (put (homeb blk) f m k)" "replay st (put (homeb blk) f m k) = put (homeb blk) f m N"
proof -
  let ?m = "put (homeb blk) f m k" and ?st = "word_of_int st :: u32"
  note ok = homes_okD [OF assms(1)]
  have same: "?m ?st = m ?st" using ok(4) assms(7) by (intro put_outside) auto
  have h: "head_n st ?m = int N" "\<forall>i<N. head_block st ?m i = blk i"
    using assms(2,3) by (simp_all add: head_n_def head_block_def same)
  have l: "\<forall>i<N. ?m (logb st i) = f i"
    using ok(6) assms(4,7) by (auto simp: put_outside)
  show "head_ok st ?m" using assms(1,5,6) h homes_ok_cong [OF h(2)] by (simp add: head_ok_def sized_put)
  have "replay st ?m = put (homeb blk) f ?m N"
    using h(1) put_cong_home [OF h(2)] put_cong_val [OF l] by (simp add: replay_def)
  then show "replay st ?m = put (homeb blk) f m N" using put_put [OF ok(1) assms(7)] by simp
qed

subsection \<open>Recovery\<close>

lemma log_fields [simp]:
  "cdata (s\<lparr>lh_n := n\<rparr>) = cdata s" "plain_ok (s\<lparr>lh_n := n\<rparr>) = plain_ok s"
  "cdata (s\<lparr>lh_block := blk\<rparr>) = cdata s" "plain_ok (s\<lparr>lh_block := blk\<rparr>) = plain_ok s"
  by (simp_all add: plain_ok_def cdata_def fun_eq_iff)

lemma kseq_eta: "kseq p q = (\<lambda>s. tbind (p s) (\<lambda>_. q))"
  by (simp add: fun_eq_iff)

lemma modify_n_lg: "lg st n blk c m s \<Longrightarrow> lg st 0 blk c m (s\<lparr>lh_n := 0\<rparr>)"
  by (simp add: lg_def)

lemma read_head_lg:
  assumes "lg st n blk c m s"
  shows "\<exists>s' blk'. read_head plain_bio s = Ret () s' \<and> lg st (head_n st c) blk' c m s' \<and>
    (\<forall>i<nat (head_n st c). blk' i = head_block st c i)"
proof -
  let ?b = "word_of_int st :: u32"
  let ?s1 = "plain_load (word_of_int (log_dev s)) ?b s"
  have 1: "lg st n blk c m ?s1" "loaded ?b ?s1" using assms by (simp_all add: lg_load)
  then have d: "b_data (bufs ?s1 (unat ?b)) = c ?b" using cdata_loaded [OF 1(2)] by (auto simp: lg_def)
  have 2: "lg st (head_n st c) blk c m (?s1\<lparr>lh_n := head_n st c\<rparr>)"
    using 1(1) by (simp add: lg_def)
  have "\<exists>s' blk'. for_each [0..<k] (\<lambda>i. modify (\<lambda>s. s\<lparr>lh_block := (lh_block s)(i := head_block st c i)\<rparr>)) (?s1\<lparr>lh_n := head_n st c\<rparr>)
      = Ret () s' \<and> lg st (head_n st c) blk' c m s' \<and> (\<forall>i<k. blk' i = head_block st c i)" for k
  proof (induction k)
    case (Suc k)
    then show ?case
      by (auto simp: for_each_append lg_def less_Suc_eq)
  qed (use 2 in auto)
  from this [of "nat (head_n st c)"] show ?thesis
    using assms d by (auto simp: lg_def read_head_def plain_bio_def buf_data_def head_n_def head_block_def)
qed

lemma recover_lg:
  assumes "lg st n blk m m s" "head_ok st m"
  shows "crun (\<lambda>s'. head_ok st (media (disk s')) \<and> same_files st (replay st (media (disk s'))) (replay st m))
    (\<lambda>_ s'. same_files st (media (disk s')) (replay st m) \<and> head_n st (media (disk s')) = 0 \<and> lh_n s' = 0 \<and> cdata s' = media (disk s'))
    (recover_from_log plain_bio s)"
proof -
  define N where "N = nat (head_n st m)"
  let ?G = "\<lambda>m'. head_ok st m' \<and> same_files st (replay st m') (replay st m)"
  obtain s1 blk' where 1: "read_head plain_bio s = Ret () s1" "lg st (int N) blk' m m s1" "\<forall>i<N. blk' i = head_block st m i"
    using read_head_lg [OF assms(1)] assms(2) by (auto simp: N_def head_ok_def)
  have ok: "homes_ok st N blk'" using assms(2) homes_ok_cong [OF 1(3)] by (simp add: head_ok_def N_def)
  let ?f = "\<lambda>i. m (logb st i)" and ?st = "word_of_int st :: u32"
  have r: "replay st m = put (homeb blk') ?f m N"
    using put_cong_home [OF 1(3)] by (simp add: replay_def N_def)
  have sz: "sized (m x)" for x using assms(2) by (simp add: head_ok_def)
  have n: "head_n st m = int N" "\<forall>i<N. head_block st m i = blk' i" using 1(3) assms(2) by (simp_all add: N_def head_ok_def)
  have G1: "?G (put (homeb blk') ?f m k)" if "k \<le> N" for k
    using put_keeps_head [OF ok n, of ?f k] sz that by (simp add: r)
  let ?m2 = "put (homeb blk') ?f m N" and ?e = "enc_head 0 blk' (put (homeb blk') ?f m N ?st)"
  have sz2: "sized (?m2 x)" for x using sz by (simp add: sized_put)
  have e: "sized ?e" by (rule sized_enc_head [OF sz2]) (simp add: LOGSIZE_def MAXOPBLOCKS_def)
  have h0: "head_n st (?m2(?st := ?e)) = 0" by (rule head_n_enc_0) simp
  have G2: "?G (?m2(?st := ?e))"
    using h0 e sz2 by (auto simp: head_ok_empty replay_empty r same_files_head)
  have "crun (\<lambda>s. ?G (media (disk s))) (\<lambda>_. lg st 0 blk' (?m2(?st := ?e)) (?m2(?st := ?e)))
      (tbind (install_trans plain_bio True s1) (\<lambda>_ s. write_head plain_bio (s\<lparr>lh_n := 0\<rparr>)))"
    by (rule crun_tbind [OF install_lg [OF 1(2) ok]], erule G1, rule write_head_lg, erule modify_n_lg)
      (use G2 in \<open>simp_all add: LOGSIZE_def MAXOPBLOCKS_def fun_upd_def\<close>)
  moreover have "recover_from_log plain_bio s =
      tbind (install_trans plain_bio True s1) (\<lambda>_ s. write_head plain_bio (s\<lparr>lh_n := 0\<rparr>))"
    by (simp add: recover_from_log_def 1(1) kseq_eta)
  ultimately show ?thesis
    using h0 r by (auto simp: lg_def same_files_head elim!: crun_mono)
qed

subsection \<open>Commit\<close>

lemma put_id: "put h (\<lambda>i. c (h i)) m k x = (if \<exists>i<k. h i = x then c x else m x)"
  by (induction k) (auto simp: less_Suc_eq)

text \<open>The disk after the transaction in memory: its home blocks have the contents programs see.\<close>

definition committed :: "'x klog_scheme \<Rightarrow> u32 \<Rightarrow> memory" where
  "committed s x = (if \<exists>i<nat (lh_n s). homeb (lh_block s) i = x then cdata s x else media (disk s) x)"

text \<open>The disk when the header has been written: the log blocks hold the contents of the home blocks.\<close>

definition logged :: "int \<Rightarrow> nat \<Rightarrow> (nat \<Rightarrow> int) \<Rightarrow> (u32 \<Rightarrow> memory) \<Rightarrow> (u32 \<Rightarrow> memory) \<Rightarrow> u32 \<Rightarrow> memory" where
  "logged st N blk c m = (put (logb st) (\<lambda>i. c (homeb blk i)) m N)
     (word_of_int st := enc_head (int N) blk (put (logb st) (\<lambda>i. c (homeb blk i)) c N (word_of_int st)))"

lemma logged_facts:
  assumes "homes_ok st N blk"
  shows "head_n st (logged st N blk c m) = int N" "\<forall>i<N. head_block st (logged st N blk c m) i = blk i"
    "\<And>i. i < N \<Longrightarrow> logged st N blk c m (logb st i) = c (homeb blk i)" "same_files st (logged st N blk c m) m"
proof -
  note ok = homes_okD [OF assms]
  show "head_n st (logged st N blk c m) = int N" "\<forall>i<N. head_block st (logged st N blk c m) i = blk i"
    by (rule head_enc [OF assms], simp add: logged_def)+
  show "logged st N blk c m (logb st i) = c (homeb blk i)" if "i < N" for i
    using that ok(5) put_inside [OF that ok(2)] by (simp add: logged_def)
  show "same_files st (logged st N blk c m) m"
    using ok(3) by (simp add: logged_def same_files_head same_files_log)
qed

lemma sized_logged:
  "homes_ok st N blk \<Longrightarrow> (\<And>x. sized (c x)) \<Longrightarrow> (\<And>x. sized (m x)) \<Longrightarrow> sized (logged st N blk c m x)"
  by (auto simp: logged_def homes_ok_def intro!: sized_put sized_enc_head)

text \<open>The run of \<open>commit\<close>: the log blocks, the header, the home blocks, the empty header.\<close>

lemma commit_run:
  fixes c m :: "u32 \<Rightarrow> memory"
  defines "f \<equiv> \<lambda>blk i. c (homeb blk i)"
  assumes lg: "lg st (int N) blk c m s" and N: "0 < N" and ok: "homes_ok st N blk"
    and G1: "\<And>k. k \<le> N \<Longrightarrow> G (put (logb st) (f blk) m k)"
    and G2: "\<And>k. k \<le> N \<Longrightarrow> G (put (homeb blk) (f blk) (logged st N blk c m) k)"
    and G3: "\<And>e. sized e \<Longrightarrow> load_int e 0 = 0 \<Longrightarrow> G ((put (homeb blk) (f blk) (logged st N blk c m) N)(word_of_int st := e))"
  shows "\<exists>e. sized e \<and> load_int e 0 = 0 \<and> crun (\<lambda>s. G (media (disk s)))
    (\<lambda>_. lg st 0 blk ((put (homeb blk) (f blk) (logged st N blk c c) N)(word_of_int st := e))
       ((put (homeb blk) (f blk) (logged st N blk c m) N)(word_of_int st := e))) (commit plain_bio s)"
proof -
  let ?run = "\<lambda>n c m. crun (\<lambda>s. G (media (disk s))) (\<lambda>_. lg st n blk c m)"
  let ?c = "put (homeb blk) (f blk) (logged st N blk c c) N" and ?m = "put (homeb blk) (f blk) (logged st N blk c m)"
  let ?st = "word_of_int st :: u32"
  let ?e = "enc_head 0 blk (?c ?st)"
  have sz: "sized (c x)" for x using lg by (auto simp: lg_def plain_ok_def)
  have e: "sized ?e" "load_int ?e 0 = 0"
    using sz ok by (auto simp: load_enc_head LOGSIZE_def MAXOPBLOCKS_def f_def intro!: sized_enc_head sized_put sized_logged)
  have i: "put (homeb blk) (\<lambda>i. logged st N blk c c (logb st i)) x k = put (homeb blk) (f blk) x k" if "k \<le> N" for x k
    using logged_facts(3) [OF ok] that by (intro put_cong_val) (simp add: f_def)
  have A: "?run (int N) (put (logb st) (f blk) c N) (put (logb st) (f blk) m N) (write_log plain_bio s)"
    using write_log_lg [where G = G, OF lg ok] G1 by (simp add: f_def)
  have B: "?run (int N) (logged st N blk c c) (logged st N blk c m) (write_head plain_bio s)"
    if "lg st (int N) blk (put (logb st) (f blk) c N) (put (logb st) (f blk) m N) s" for s
    using write_head_lg [where G = G, OF that] G2 [of 0] ok by (simp add: logged_def f_def homes_ok_def)
  have C: "?run (int N) ?c (?m N) (install_trans plain_bio False s)" if "lg st (int N) blk (logged st N blk c c) (logged st N blk c m) s" for s
    using install_lg [where G = G, OF that ok] G2 by (simp add: i)
  have D: "?run 0 (?c(?st := ?e)) ((?m N)(?st := ?e)) (write_head plain_bio (s\<lparr>lh_n := 0\<rparr>))" if "lg st (int N) blk ?c (?m N) s" for s
    by (rule write_head_lg [where G = G, OF modify_n_lg [OF that]])
      (use G3 [OF e] in \<open>simp_all add: LOGSIZE_def MAXOPBLOCKS_def\<close>)
  have "commit plain_bio s = tbind (write_log plain_bio s) (\<lambda>_ s. tbind (write_head plain_bio s) (\<lambda>_ s.
         tbind (install_trans plain_bio False s) (\<lambda>_ s. write_head plain_bio (s\<lparr>lh_n := 0\<rparr>))))"
    using lg N by (simp add: commit_def kwhen_def kseq_eta lg_def)
  then have "?run 0 (?c(?st := ?e)) ((?m N)(?st := ?e)) (commit plain_bio s)"
    by (simp only:, intro crun_tbind [OF A] crun_tbind [OF B] crun_tbind [OF C] D)
  then show ?thesis using e by blast
qed

lemma commit_lg:
  assumes "lg st (int N) blk c m s" "0 < N" "homes_ok st N blk" "head_n st m = 0"
  defines "new \<equiv> put (homeb blk) (\<lambda>i. c (homeb blk i)) m N"
  shows "crun (\<lambda>s'. head_ok st (media (disk s')) \<and> (same_files st (replay st (media (disk s'))) m \<or> same_files st (replay st (media (disk s'))) new))
    (\<lambda>_ s'. same_files st (media (disk s')) new \<and> head_n st (media (disk s')) = 0 \<and> lh_n s' = 0 \<and> same_files st (cdata s') c)
    (commit plain_bio s)"
proof -
  define G where "G m' \<longleftrightarrow> head_ok st m' \<and> (same_files st (replay st m') m \<or> same_files st (replay st m') new)" for m'
  note ok = homes_okD [OF assms(3)] and lf = logged_facts [OF assms(3)]
  let ?st = "word_of_int st :: u32" and ?f = "\<lambda>i. c (homeb blk i)"
  let ?m2 = "logged st N blk c m" and ?c2 = "logged st N blk c c"
  have sz: "sized (m x)" "sized (c x)" for x using assms(1) by (auto simp: lg_def plain_ok_def)
  have sz2: "sized (?m2 x)" for x using sz assms(3) by (intro sized_logged)
  have new2: "same_files st (put (homeb blk) ?f ?m2 N) new" unfolding new_def by (rule same_files_put [OF lf(4)])
  have G1: "G (put (logb st) ?f m k)" if "k \<le> N" for k
  proof -
    let ?m = "put (logb st) ?f m k"
    have "?m ?st = m ?st" using ok(5) that by (intro put_outside) auto
    then have h: "head_n st ?m = 0" using assms(4) by (simp add: head_n_def)
    have "same_files st ?m m" using ok(3) that by (intro same_files_log) simp
    then show ?thesis using sz by (simp add: G_def replay_empty [OF h] head_ok_empty [OF h] sized_put)
  qed
  have G2: "G (put (homeb blk) ?f ?m2 k)" if "k \<le> N" for k
    using put_keeps_head [where f = ?f and k = k, OF assms(3) lf(1,2,3) sz2 sz(2) that] new2 by (simp add: G_def)
  have h3: "head_n st ((put (homeb blk) ?f ?m2 N)(?st := e)) = load_int e 0" for e by (simp add: head_n_def)
  have G3: "G ((put (homeb blk) ?f ?m2 N)(?st := e))" if "sized e" "load_int e 0 = 0" for e
    using h3 [of e] that new2 sz sz2 by (auto simp: G_def replay_empty head_ok_empty same_files_head sized_put)
  obtain e where e: "load_int e 0 = 0" and run: "crun (\<lambda>s. G (media (disk s)))
      (\<lambda>_. lg st 0 blk ((put (homeb blk) ?f ?c2 N)(?st := e)) ((put (homeb blk) ?f ?m2 N)(?st := e))) (commit plain_bio s)"
    using commit_run [where G = G, OF assms(1,2,3) G1 G2 G3] by blast
  have "same_files st (put (homeb blk) ?f ?c2 N) c"
    using same_files_put [OF lf(4), of "homeb blk" ?f c c N] by (simp add: same_files_def put_id)
  then show ?thesis
    by (intro crun_mono [OF run]) (use h3 [of e] e new2 in \<open>auto simp: G_def lg_def same_files_head\<close>)
qed

subsection \<open>Crashes\<close>

text \<open>A machine that has just come up: the disk is \<open>m\<close> and the buffer cache is empty. Everything else is arbitrary.\<close>

definition rebooted :: "(u32 \<Rightarrow> memory) \<Rightarrow> 'x klog_scheme \<Rightarrow> bool" where
  "rebooted m r \<longleftrightarrow> media (disk r) = m \<and> (\<forall>b. b_valid (bufs r b) = 0)"

lemma initlog_lg:
  assumes "rebooted m r" "head_ok st m" "sint (sb_logstart sb) = st"
  shows "crun (\<lambda>s'. head_ok st (media (disk s')) \<and> same_files st (replay st (media (disk s'))) (replay st m))
    (\<lambda>_ s'. same_files st (media (disk s')) (replay st m) \<and> head_n st (media (disk s')) = 0 \<and> lh_n s' = 0 \<and> cdata s' = media (disk s'))
    (initlog plain_bio dev sb r)"
proof -
  define s where "s = r\<lparr>hw := set_lock LogLock (\<lambda>l. l\<lparr>lk_name := ''log'', locked := 0, lk_cpu := None\<rparr>) (hw r),
    log_start := st, log_size := sint (sb_nlog sb), log_dev := dev\<rparr>"
  have "initlog plain_bio dev sb r = recover_from_log plain_bio s"
    using assms(3) by (simp add: initlog_def sizeof_logheader_def LOGSIZE_def MAXOPBLOCKS_def BSIZE_def initlock_eq s_def)
  moreover have "cdata s = m" "media (disk s) = m" using assms(1) by (auto simp: s_def rebooted_def cdata_def)
  moreover from this have "lg st (lh_n r) (lh_block r) m m s"
    using assms(1,2) by (simp add: lg_def plain_ok_def head_ok_def) (simp add: s_def rebooted_def)
  ultimately show ?thesis using recover_lg [of st "lh_n r" "lh_block r" m s] assms(2) by simp
qed

text \<open>A log with one block, 50, changed in memory: the state used by the examples below.\<close>

definition one_block_log :: klog where
  "one_block_log = idle_log\<lparr>lh_n := 1, lh_block := \<lambda>_. 50, bufs := (bufs idle_log)(50 := (bufs idle_log 50)
     \<lparr>b_valid := 1, b_dev := 1, b_blockno := 50, b_data := (\<lambda>_. 0)(0 := 7)\<rparr>)\<rparr>"

lemma one_block_log_ok:
  "plain_ok one_block_log" "homes_ok 2 1 (\<lambda>_. 50)" "head_n 2 (\<lambda>_ _. 0) = 0" "cdata one_block_log 50 = (\<lambda>_. 0)(0 := 7)"
  "log_start one_block_log = 2" "lh_n one_block_log = 1" "lh_block one_block_log = (\<lambda>_. 50)" "media (disk one_block_log) = (\<lambda>_ _. 0)"
proof -
  show "homes_ok 2 1 (\<lambda>_. 50)"
    by (simp add: homes_ok_def log_area_def logb_def homeb_def LOGSIZE_def MAXOPBLOCKS_def inj_on_def upt_rec)
  show "head_n 2 (\<lambda>_ _. 0) = 0" by (simp add: head_n_def load_int_def load32_def mem_read_def map_replicate_const)
qed (auto simp: one_block_log_def plain_ok_def cdata_def sized_def BSIZE_def word_unat_eq_iff)

text \<open>C2: a crash at any moment of a commit loses no consistency. Let the log on disk be empty and the transaction in memory name
  different blocks outside the log. At every point of \<open>commit\<close> at which the machine may stop, \<open>initlog\<close> on the machine
  that comes up with that disk ends, and leaves every block outside the log as it was before the transaction or every
  one as the transaction has it. If nothing stops it, \<open>commit\<close> ends with the transaction on the disk, an empty log, and the
  contents that programs see unchanged.\<close>

theorem commit_crash_safe:
  fixes s :: "'x klog_scheme"
  defines "st \<equiv> log_start s"
  assumes "plain_ok s" "0 < lh_n s" "homes_ok st (nat (lh_n s)) (lh_block s)" "head_n st (media (disk s)) = 0"
    and "sint (sb_logstart sb) = st"
  shows "crun (\<lambda>s1. \<forall>r :: 'x klog_scheme. rebooted (media (disk s1)) r \<longrightarrow>
      crun (\<lambda>_. True) (\<lambda>_ s2. same_files st (media (disk s2)) (media (disk s)) \<or> same_files st (media (disk s2)) (committed s))
        (initlog plain_bio dev sb r))
    (\<lambda>_ s'. same_files st (media (disk s')) (committed s) \<and> head_n st (media (disk s')) = 0 \<and> lh_n s' = 0 \<and> same_files st (cdata s') (cdata s))
    (commit plain_bio s)"
proof -
  have new: "put (homeb (lh_block s)) (\<lambda>i. cdata s (homeb (lh_block s) i)) (media (disk s)) (nat (lh_n s)) = committed s"
    by (simp add: fun_eq_iff committed_def put_id)
  have "lg st (int (nat (lh_n s))) (lh_block s) (cdata s) (media (disk s)) s" using assms by (simp add: lg_def)
  note run = commit_lg [OF this _ assms(4,5), unfolded new]
  have "crun (\<lambda>_. True) (\<lambda>_ s2. same_files st (media (disk s2)) (media (disk s)) \<or> same_files st (media (disk s2)) (committed s))
      (initlog plain_bio dev sb r)"
    if "head_ok st m" "same_files st (replay st m) (media (disk s)) \<or> same_files st (replay st m) (committed s)" "rebooted m r"
    for m and r :: "'x klog_scheme"
    by (rule crun_mono [OF initlog_lg [OF that(3,1) assms(6)]]) (use that(2) in \<open>auto intro: same_files_trans\<close>)
  with run show ?thesis using assms(3) by (auto elim!: crun_mono)
qed

theorem commit_crash_safe_witness:
  "crun (\<lambda>s1. \<forall>r :: klog. rebooted (media (disk s1)) r \<longrightarrow>
      crun (\<lambda>_. True) (\<lambda>_ s2. media (disk s2) 50 = (\<lambda>_. 0) \<or> media (disk s2) 50 = (\<lambda>_. 0)(0 := 7))
        (initlog plain_bio 1 \<lparr>sb_magic = 0x10203040, sb_size = 2000, sb_nblocks = 1954, sb_ninodes = 200, sb_nlog = 31,
          sb_logstart = 2, sb_inodestart = 33, sb_bmapstart = 46\<rparr> r))
     (\<lambda>_ s'. media (disk s') 50 = (\<lambda>_. 0)(0 := 7)) (commit plain_bio one_block_log)"
proof -
  have 50: "50 \<notin> log_area 2" using one_block_log_ok(2) by (simp add: homes_ok_def homeb_def)
  have c: "committed one_block_log 50 = (\<lambda>_. 0)(0 := 7)" by (simp add: committed_def one_block_log_ok homeb_def)
  show ?thesis
    by (rule crun_mono [OF commit_crash_safe [of one_block_log "\<lparr>sb_magic = 0x10203040, sb_size = 2000, sb_nblocks = 1954,
          sb_ninodes = 200, sb_nlog = 31, sb_logstart = 2, sb_inodestart = 33, sb_bmapstart = 46\<rparr>" 1]])
      (use 50 c one_block_log_ok(2) in \<open>auto simp: one_block_log_ok same_files_def elim!: crun_mono\<close>)
qed

text \<open>C3: recovery. On a machine that comes up with a well-formed log on its disk, \<open>initlog\<close> ends, leaving on the disk what the
  disk meant: the blocks of the committed transaction, if there is one, copied home, and the log empty. A crash at any
  point of it leaves a disk with a well-formed log that still means the same, so recovery can be run again.\<close>

theorem initlog_recovers:
  fixes r :: "'x klog_scheme"
  assumes "rebooted m r" "head_ok st m" "sint (sb_logstart sb) = st"
  shows "crun (\<lambda>s'. head_ok st (media (disk s')) \<and> same_files st (replay st (media (disk s'))) (replay st m))
    (\<lambda>_ s'. same_files st (media (disk s')) (replay st m) \<and> head_n st (media (disk s')) = 0 \<and> lh_n s' = 0 \<and> cdata s' = media (disk s'))
    (initlog plain_bio dev sb r)"
  by (rule initlog_lg [OF assms])

definition committed_media :: "u32 \<Rightarrow> memory" where
  "committed_media = (\<lambda>_ _. 0)(2 := store_int (store_int (\<lambda>_. 0) 0 1) 4 50, 3 := (\<lambda>_. 0)(0 := 7))"

theorem initlog_recovers_witness:
  "crun (\<lambda>_. True) (\<lambda>_ s'. media (disk s') 50 = (\<lambda>_. 0)(0 := 7) \<and> media (disk s') 51 = (\<lambda>_. 0))
     (initlog plain_bio 1 \<lparr>sb_magic = 0x10203040, sb_size = 2000, sb_nblocks = 1954, sb_ninodes = 200, sb_nlog = 31,
        sb_logstart = 2, sb_inodestart = 33, sb_bmapstart = 46\<rparr> (idle_log\<lparr>disk := (disk idle_log)\<lparr>media := committed_media\<rparr>\<rparr>))"
proof -
  have n: "head_n 2 committed_media = 1" "head_block 2 committed_media 0 = 50"
    by (simp_all add: head_n_def head_block_def committed_media_def load_store_int)
  have z: "sized (\<lambda>_. 0)" "sized ((\<lambda>_. 0)(0 := 7))" by (simp_all add: sized_def BSIZE_def)
  have sz: "sized (committed_media x)" for x
    using z by (simp add: committed_media_def sized_store_int BSIZE_def)
  have ok: "head_ok 2 committed_media"
    using one_block_log_ok(2) homes_ok_cong [of 1 "head_block 2 committed_media" "\<lambda>_. 50" 2] n
    by (simp add: head_ok_def sz)
  have a: "50 \<notin> log_area 2" "51 \<notin> log_area 2"
    by (simp_all add: log_area_def logb_def LOGSIZE_def MAXOPBLOCKS_def upt_rec)
  have "replay 2 committed_media = committed_media(50 := (\<lambda>_. 0)(0 := 7))"
    using n by (simp add: replay_def homeb_def logb_def) (simp add: committed_media_def)
  then have r: "replay 2 committed_media 50 = (\<lambda>_. 0)(0 := 7)" "replay 2 committed_media 51 = (\<lambda>_. 0)"
    by (simp_all add: committed_media_def)
  have b: "rebooted committed_media (idle_log\<lparr>disk := (disk idle_log)\<lparr>media := committed_media\<rparr>\<rparr>)" by (simp add: rebooted_def)
  show ?thesis
    by (rule crun_mono [OF initlog_recovers [OF b ok]]) (use a r in \<open>auto simp: same_files_def\<close>)
qed

end
