(* ===== verification/Ulib.thy ===== *)
theory Ulib
  imports Cstring Abi "HOL-Library.Char_ord"
begin

text \<open>
  The user side of the system-call interface and the C library of the user programs (\<^verbatim>\<open>user/user.h\<close>, \<^verbatim>\<open>user/usys.pl\<close>,
  \<^verbatim>\<open>user/ulib.c\<close>).

  A user program is a program tree as the kernel's functions are, over the state of one process as its own code
  sees it: the system call it has asked for and the reply. Each \<^verbatim>\<open>ecall\<close> is a waiting point; the kernel is the other side. A
  conversation (\<open>conv\<close>) is the list of calls with the kernel's replies, and how it ends. Nothing is assumed of the replies unless a
  theorem says so.

  A C string is the list of its characters before the NUL. The routines on memory take the memory and addresses, as those of
  \<^verbatim>\<open>kernel/string.c\<close> do, and are shown equal to them.
\<close>

subsection \<open>System calls\<close>

record ustat =
  st_dev :: int
  st_ino :: u32
  st_type :: int
  st_nlink :: int
  st_size :: u64

datatype ucall =
    Fork | Exit int | Wait0 | Pipe | Read int int | Write int string | Close int | Kill int
  | Exec string "string list" | Open string int | Mknod string int int | Unlink string | Fstat int
  | Link string string | Mkdir string | Chdir string | Dup int | Getpid | Sbrk int | Sleep int | Uptime
  | Trace int | Sysinfo

text \<open>A reply is the value in \<open>a0\<close>, and what the kernel has stored behind a pointer argument: the bytes of a \<^verbatim>\<open>read\<close>, the two
  descriptors of a \<^verbatim>\<open>pipe\<close>, the structure of an \<^verbatim>\<open>fstat\<close>.\<close>

record ureply =
  rv :: u64
  rbytes :: string
  rfds :: "int \<times> int"
  rstat :: ustat

record uproc =
  u_req :: ucall
  u_rep :: ureply

type_synonym ('x, 'a) ufun = "('x uproc_scheme, 'a) kfun"

definition usys :: "ucall \<Rightarrow> ('x, ureply) ufun" where
  "usys c = (\<lambda>s. Wait Switched (s\<lparr>u_req := c\<rparr>) (\<lambda>s'. Ret (u_rep s') s'))"

definition rv_int :: "ureply \<Rightarrow> int" where
  "rv_int r = sint (ucast (rv r) :: u32)"

definition ucall_int :: "ucall \<Rightarrow> ('x, int) ufun" where
  "ucall_int c = kbind (usys c) (\<lambda>r. kret (rv_int r))"

definition uexit :: "int \<Rightarrow> ('x, 'a) ufun" where
  "uexit n = kseq (usys (Exit n)) (\<lambda>s. Diverge)"

definition uwrite :: "int \<Rightarrow> string \<Rightarrow> ('x, unit) ufun" where
  "uwrite fd bs = kseq (usys (Write fd bs)) kskip"

definition uread :: "int \<Rightarrow> int \<Rightarrow> ('x, int \<times> string) ufun" where
  "uread fd n = kbind (usys (Read fd n)) (\<lambda>r. kret (rv_int r, rbytes r))"

definition ufstat :: "int \<Rightarrow> ('x, int \<times> ustat) ufun" where
  "ufstat fd = kbind (usys (Fstat fd)) (\<lambda>r. kret (rv_int r, rstat r))"

definition upipe :: "('x, int \<times> int \<times> int) ufun" where
  "upipe = kbind (usys Pipe) (\<lambda>r. kret (rv_int r, rfds r))"

definition call_name :: "ucall \<Rightarrow> string" where
  "call_name c = (case c of
      Fork \<Rightarrow> ''fork'' | Exit _ \<Rightarrow> ''exit'' | Wait0 \<Rightarrow> ''wait'' | Pipe \<Rightarrow> ''pipe'' | Read _ _ \<Rightarrow> ''read'' | Write _ _ \<Rightarrow> ''write''
    | Close _ \<Rightarrow> ''close'' | Kill _ \<Rightarrow> ''kill'' | Exec _ _ \<Rightarrow> ''exec'' | Open _ _ \<Rightarrow> ''open'' | Mknod _ _ _ \<Rightarrow> ''mknod''
    | Unlink _ \<Rightarrow> ''unlink'' | Fstat _ \<Rightarrow> ''fstat'' | Link _ _ \<Rightarrow> ''link'' | Mkdir _ \<Rightarrow> ''mkdir'' | Chdir _ \<Rightarrow> ''chdir''
    | Dup _ \<Rightarrow> ''dup'' | Getpid \<Rightarrow> ''getpid'' | Sbrk _ \<Rightarrow> ''sbrk'' | Sleep _ \<Rightarrow> ''sleep'' | Uptime \<Rightarrow> ''uptime''
    | Trace _ \<Rightarrow> ''trace'' | Sysinfo \<Rightarrow> ''sysinfo'')"

text \<open>A reply with a value and bytes only, for examples.\<close>

definition reply :: "u64 \<Rightarrow> string \<Rightarrow> ureply" where
  "reply n bs = \<lparr>rv = n, rbytes = bs, rfds = (0, 0), rstat = \<lparr>st_dev = 0, st_ino = 0, st_type = 0, st_nlink = 0, st_size = 0\<rparr>\<rparr>"

lemma reply_simps [simp]: "rv (reply n bs) = n" "rbytes (reply n bs) = bs"
  by (simp_all add: reply_def)

text \<open>Laws of sequences, for proofs that keep them folded.\<close>

lemma kseq_kskip:
  fixes m :: "('s, unit) kfun"
  shows "kseq m kskip = m"
proof -
  have "(\<lambda>_ :: unit. kskip :: ('s, unit) kfun) = (\<lambda>a s. Ret a s)" by (simp add: fun_eq_iff)
  then show ?thesis using tbind_Ret_right [of "m _"] by (intro ext) (simp add: kseq_def)
qed

lemma for_each_append_eq: "for_each (xs @ ys) body = kseq (for_each xs body) (for_each ys body)"
  by (simp add: fun_eq_iff for_each_append)

lemma kseq_kskip_left: "kseq kskip m = m"
  by (simp add: fun_eq_iff)

lemma kseq_assoc: "kseq (kseq a b) c = kseq a (kseq b c)"
proof
  fix s
  have "kseq b c = (\<lambda>s. tbind (b s) (\<lambda>_. c))" by (rule ext) (rule kseq_def)
  then show "kseq (kseq a b) c s = kseq a (kseq b c) s" by (simp only: kseq_def [of _ _ s] tbind_assoc)
qed

subsection \<open>Conversations\<close>

text \<open>The end of a conversation: the program has returned, has called \<^verbatim>\<open>exit\<close>, or waits for the reply to its last call.\<close>

datatype ('s, 'a) uend = Returned 'a 's | Exited int | Pending ucall

inductive conv :: "('x uproc_scheme, 'a) kprog \<Rightarrow> (ucall \<times> ureply) list \<Rightarrow> ('x uproc_scheme, 'a) uend \<Rightarrow> bool" where
  conv_Ret: "conv (Ret a s) [] (Returned a s)"
| conv_Exit: "u_req s = Exit n \<Longrightarrow> conv (Wait w s k) [] (Exited n)"
| conv_Pending: "(\<And>n. u_req s \<noteq> Exit n) \<Longrightarrow> conv (Wait w s k) [] (Pending (u_req s))"
| conv_Call: "(\<And>n. u_req s \<noteq> Exit n) \<Longrightarrow> conv (k (s\<lparr>u_rep := r\<rparr>)) tr e \<Longrightarrow> conv (Wait w s k) ((u_req s, r) # tr) e"

inductive_simps conv_Ret_iff [simp]: "conv (Ret a s) tr e"
inductive_simps conv_Panic_iff [simp]: "conv (Panic m s) tr e"
inductive_simps conv_Diverge_iff [simp]: "conv Diverge tr e"
inductive_simps conv_Wait_iff: "conv (Wait w s k) tr e"

lemma conv_tbind:
  "conv (tbind t f) tr e \<longleftrightarrow>
     (\<exists>a s tr1 tr2. tr = tr1 @ tr2 \<and> conv t tr1 (Returned a s) \<and> conv (f a s) tr2 e) \<or>
     (\<exists>n. conv t tr (Exited n) \<and> e = Exited n) \<or> (\<exists>c. conv t tr (Pending c) \<and> e = Pending c)"
  (is "_ \<longleftrightarrow> ?R t tr")
proof
  assume "conv (tbind t f) tr e"
  then show "?R t tr"
  proof (induction tr arbitrary: t)
    case Nil
    then show ?case by (cases t) (auto simp: conv_Wait_iff)
  next
    case (Cons p tr)
    then show ?case
    proof (cases t)
      case (Wait w s k)
      with Cons.prems obtain r where r: "p = (u_req s, r)" "\<forall>n. u_req s \<noteq> Exit n" "conv (tbind (k (s\<lparr>u_rep := r\<rparr>)) f) tr e"
        by (auto simp: conv_Wait_iff)
      from Cons.IH [OF r(3)] show ?thesis
      proof (elim disjE exE conjE)
        fix a s' tr1 tr2
        assume "tr = tr1 @ tr2" "conv (k (s\<lparr>u_rep := r\<rparr>)) tr1 (Returned a s')" "conv (f a s') tr2 e"
        then have "p # tr = (p # tr1) @ tr2 \<and> conv t (p # tr1) (Returned a s') \<and> conv (f a s') tr2 e"
          using r(1,2) Wait by (auto simp: conv_Wait_iff)
        then show ?thesis by blast
      qed (use r(1,2) Wait in \<open>auto simp: conv_Wait_iff\<close>)
    qed auto
  qed
next
  assume "?R t tr"
  moreover have "conv (tbind t f) (tr1 @ tr2) e" if "conv t tr1 e1" "e1 = Returned a s" "conv (f a s) tr2 e" for tr1 tr2 e1 a s
    using that by (induction rule: conv.induct) (auto intro: conv.intros)
  moreover have "conv (tbind t f) tr (Exited n)" if "conv t tr e1" "e1 = Exited n" for e1 n
    using that by (induction rule: conv.induct) (auto intro: conv.intros)
  moreover have "conv (tbind t f) tr (Pending c)" if "conv t tr e1" "e1 = Pending c" for e1 c
    using that by (induction rule: conv.induct) (auto intro: conv.intros)
  ultimately show "conv (tbind t f) tr e" by blast
qed

text \<open>The rule for loops each of whose rounds makes a call: \<open>J\<close> is an invariant of the loop variables and the conversation so far.\<close>

lemma conv_kwhile:
  assumes "conv (kwhile body v s) tr e" "J v tr0"
    and step: "\<And>v s tr0 tr1 e1. J v tr0 \<Longrightarrow> conv (body v s) tr1 e1 \<Longrightarrow>
      (case e1 of Returned r s' \<Rightarrow> (case r of Inl v' \<Rightarrow> tr1 \<noteq> [] \<and> J v' (tr0 @ tr1) | Inr a \<Rightarrow> Q (tr0 @ tr1) (Returned a s'))
       | Exited n \<Rightarrow> Q (tr0 @ tr1) (Exited n) | Pending c \<Rightarrow> Q (tr0 @ tr1) (Pending c))"
  shows "Q (tr0 @ tr) e"
  using assms(1,2)
proof (induction "length tr" arbitrary: v s tr tr0 rule: less_induct)
  case less
  from less.prems(1) have "conv (tbind (body v s) (\<lambda>r. case r of Inl v' \<Rightarrow> kwhile body v' | Inr a \<Rightarrow> kret a)) tr e"
    by (subst (asm) kwhile_step)
  then consider (round) r s' tr1 tr2 where "tr = tr1 @ tr2" "conv (body v s) tr1 (Returned r s')"
      "conv ((case r of Inl v' \<Rightarrow> kwhile body v' | Inr a \<Rightarrow> kret a) s') tr2 e"
    | (exit) n where "conv (body v s) tr (Exited n)" "e = Exited n"
    | (pending) c where "conv (body v s) tr (Pending c)" "e = Pending c"
    unfolding conv_tbind by blast
  then show ?case
  proof cases
    case round
    show ?thesis
    proof (cases r)
      case (Inl v')
      with step [OF less.prems(2) round(2)] have j: "tr1 \<noteq> []" "J v' (tr0 @ tr1)" by simp_all
      have "length tr2 < length tr" using round(1) j(1) by simp
      from less.hyps [OF this _ j(2)] round(1,3) Inl show ?thesis by simp
    next
      case (Inr a)
      with step [OF less.prems(2) round(2)] round(1,3) show ?thesis by simp
    qed
  next
    case exit
    with step [OF less.prems(2) exit(1)] show ?thesis by simp
  next
    case pending
    with step [OF less.prems(2) pending(1)] show ?thesis by simp
  qed
qed

text \<open>The bytes that a conversation has read from a descriptor and written to one.\<close>

definition received :: "int \<Rightarrow> (ucall \<times> ureply) list \<Rightarrow> string" where
  "received fd tr = concat (map (\<lambda>(c, r). case c of Read d n \<Rightarrow> if d = fd \<and> rv_int r > 0 then rbytes r else [] | _ \<Rightarrow> []) tr)"

definition sent :: "int \<Rightarrow> (ucall \<times> ureply) list \<Rightarrow> string" where
  "sent fd tr = concat (map (\<lambda>(c, r). case c of Write d bs \<Rightarrow> if d = fd then bs else [] | _ \<Rightarrow> []) tr)"

text \<open>What the kernel promises of a \<^verbatim>\<open>read\<close>: it delivers as many bytes as it says, and at most as many as were asked for.\<close>

definition honest_reply :: "ucall \<Rightarrow> ureply \<Rightarrow> bool" where
  "honest_reply c r = (case c of Read fd n \<Rightarrow> rv_int r \<le> n \<and> (rv_int r > 0 \<longrightarrow> int (length (rbytes r)) = rv_int r) | _ \<Rightarrow> True)"

definition honest :: "(ucall \<times> ureply) list \<Rightarrow> bool" where
  "honest tr = list_all (\<lambda>(c, r). honest_reply c r) tr"

lemma sent_simps [simp]: "sent fd [] = []" "sent fd (tr @ tr') = sent fd tr @ sent fd tr'"
  "sent fd ((c, r) # tr) = (case c of Write d bs \<Rightarrow> if d = fd then bs else [] | _ \<Rightarrow> []) @ sent fd tr"
  by (simp_all add: sent_def)

lemma received_simps [simp]: "received fd [] = []" "received fd (tr @ tr') = received fd tr @ received fd tr'"
  "received fd ((c, r) # tr) = (case c of Read d n \<Rightarrow> if d = fd \<and> rv_int r > 0 then rbytes r else [] | _ \<Rightarrow> []) @ received fd tr"
  by (simp_all add: received_def)

lemma honest_simps [simp]: "honest []" "honest (tr @ tr') \<longleftrightarrow> honest tr \<and> honest tr'"
  "honest ((c, r) # tr) \<longleftrightarrow> honest_reply c r \<and> honest tr"
  by (simp_all add: honest_def)

text \<open>A conversation of a program that only writes: the pieces go out in order, and the program returns exactly after the last.\<close>

lemma uwrite_apply: "uwrite fd bs s = Wait Switched (s\<lparr>u_req := Write fd bs\<rparr>) (\<lambda>s'. Ret () s')"
  by (simp add: uwrite_def usys_def)

lemma uwrites_Cons:
  "for_each (x # xs) (\<lambda>x. uwrite fd (f x)) s =
     Wait Switched (s\<lparr>u_req := Write fd (f x)\<rparr>) (for_each xs (\<lambda>x. uwrite fd (f x)))"
  by (simp only: for_each.simps kseq_def uwrite_apply tbind_simps)

lemma conv_uwrites:
  "conv (for_each xs (\<lambda>x. uwrite fd (f x)) s) tr e \<Longrightarrow>
     (\<exists>k. map fst tr = map (\<lambda>x. Write fd (f x)) (take k xs) \<and> k \<le> length xs \<and>
       (if k = length xs then \<exists>s'. e = Returned () s' else e = Pending (Write fd (f (xs ! k)))))"
proof (induction xs arbitrary: s tr)
  case (Cons x xs)
  from Cons.prems consider "tr = []" "e = Pending (Write fd (f x))"
    | r tr' where "tr = (Write fd (f x), r) # tr'"
        "conv (for_each xs (\<lambda>x. uwrite fd (f x)) (s\<lparr>u_req := Write fd (f x), u_rep := r\<rparr>)) tr' e"
    unfolding uwrites_Cons by (auto simp: conv_Wait_iff)
  then show ?case
  proof cases
    case 2
    from Cons.IH [OF 2(2)] obtain k where k: "map fst tr' = map (\<lambda>x. Write fd (f x)) (take k xs)" "k \<le> length xs"
      "if k = length xs then \<exists>s'. e = Returned () s' else e = Pending (Write fd (f (xs ! k)))" by blast
    then show ?thesis using 2(1) by (intro exI [of _ "Suc k"]) auto
  qed auto
qed auto

lemma sent_uwrites: "map fst tr = map (\<lambda>x. Write fd (f x)) ys \<Longrightarrow> sent fd tr = concat (map f ys) \<and> received d tr = []"
proof (induction tr arbitrary: ys)
  case (Cons p tr)
  then obtain y ys' where y: "ys = y # ys'" "fst p = Write fd (f y)" "map fst tr = map (\<lambda>x. Write fd (f x)) ys'" by auto
  with Cons.IH [OF y(3)] show ?case by (cases p) simp
qed simp

lemma sent_other: "map fst tr = map (\<lambda>x. Write fd (f x)) ys \<Longrightarrow> d \<noteq> fd \<Longrightarrow> sent d tr = []"
proof (induction tr arbitrary: ys)
  case (Cons p tr)
  then obtain y ys' where y: "ys = y # ys'" "fst p = Write fd (f y)" "map fst tr = map (\<lambda>x. Write fd (f x)) ys'" by auto
  with Cons.IH [OF y(3) Cons.prems(2)] Cons.prems(2) show ?case by (cases p) simp
qed simp

lemma uexit_apply: "uexit n s = Wait Switched (s\<lparr>u_req := Exit n\<rparr>) (\<lambda>s'. Diverge)"
  by (simp add: uexit_def usys_def)

lemma conv_uexit [simp]: "conv (uexit n s) tr e \<longleftrightarrow> tr = [] \<and> e = Exited n"
  by (auto simp: uexit_apply conv_Wait_iff)

text \<open>A \<^verbatim>\<open>read\<close> and a \<^verbatim>\<open>write\<close> as waiting points.\<close>

lemma uread_tbind: "tbind (uread fd n s) f = Wait Switched (s\<lparr>u_req := Read fd n\<rparr>) (\<lambda>s'. f (rv_int (u_rep s'), rbytes (u_rep s')) s')"
  by (simp add: uread_def usys_def)

lemma ucall_int_tbind: "tbind (ucall_int c s) f = Wait Switched (s\<lparr>u_req := c\<rparr>) (\<lambda>s'. f (rv_int (u_rep s')) s')"
  by (simp add: ucall_int_def usys_def)

lemma honest_take: "honest_reply (Read fd n) r \<Longrightarrow> rv_int r > 0 \<Longrightarrow> take (nat (rv_int r)) (rbytes r) = rbytes r"
proof -
  assume "honest_reply (Read fd n) r" "rv_int r > 0"
  then have "int (length (rbytes r)) = rv_int r" by (simp add: honest_reply_def)
  then show ?thesis by (metis nat_int take_all order_refl)
qed

subsection \<open>Strings and memory (ulib.c)\<close>

partial_function (option) strcpy_loop :: "memory \<Rightarrow> nat \<Rightarrow> nat \<Rightarrow> memory option" where
  "strcpy_loop m s t = (if m t \<noteq> 0 then strcpy_loop (m(s := m t)) (Suc s) (Suc t) else Some (m(s := m t)))"

definition strcpy :: "memory \<Rightarrow> nat \<Rightarrow> nat \<Rightarrow> memory option" where
  "strcpy m s t = strcpy_loop m s t"

fun strcmp :: "string \<Rightarrow> string \<Rightarrow> int" where
  "strcmp (a # p) (b # q) = (if a = b then strcmp p q else of_char a - of_char b)"
| "strcmp (a # p) [] = of_char a"
| "strcmp [] (b # q) = - of_char b"
| "strcmp [] [] = 0"

definition ustrlen :: "string \<Rightarrow> u32" where
  "ustrlen s = of_nat (length s)"

function umemset_loop :: "memory \<Rightarrow> nat \<Rightarrow> u8 \<Rightarrow> nat \<Rightarrow> nat \<Rightarrow> memory" where
  "umemset_loop m dst c n i = (if i < n then umemset_loop (m(dst + i := c)) dst c n (Suc i) else m)"
  by pat_completeness auto
termination by (relation "measure (\<lambda>(m, dst, c, n, i). n - i)") auto

declare umemset_loop.simps [simp del]

definition umemset :: "memory \<Rightarrow> nat \<Rightarrow> int \<Rightarrow> nat \<Rightarrow> memory" where
  "umemset m dst c n = umemset_loop m dst (word_of_int c) n 0"

text \<open>A pointer into a string is the rest of the string from there; no pointer is 0.\<close>

fun strchr :: "string \<Rightarrow> char \<Rightarrow> string option" where
  "strchr [] c = None"
| "strchr (d # s) c = (if d = c then Some (d # s) else strchr s c)"

lemma strchr_None: "strchr s c = None \<longleftrightarrow> c \<notin> set s"
  by (induction s) auto

definition ugets_round :: "int \<Rightarrow> string \<Rightarrow> ('x, string + string) ufun" where
  "ugets_round sz buf =
     (if int (length buf) + 1 < sz then
        kbind (uread 0 1) (\<lambda>(cc, bs).
        if cc < 1 then leave buf
        else let c = hd bs in
          if c = CHR ''\<newline>'' \<or> c = CHR 0x0D then leave (buf @ [c]) else again (buf @ [c]))
      else leave buf)"

definition ugets :: "int \<Rightarrow> ('x, string) ufun" where
  "ugets sz = kwhile (ugets_round sz) []"

definition ustat_path :: "string \<Rightarrow> ('x, int \<times> ustat option) ufun" where
  "ustat_path n =
     kbind (ucall_int (Open n O_RDONLY)) (\<lambda>fd.
     if fd < 0 then kret (- 1, None)
     else kbind (ufstat fd) (\<lambda>(r, st).
       kseq (ucall_int (Close fd))
       (kret (r, Some st))))"

fun atoi_loop :: "u32 \<Rightarrow> string \<Rightarrow> u32" where
  "atoi_loop n [] = n"
| "atoi_loop n (c # s) =
     (if CHR ''0'' \<le> c \<and> c \<le> CHR ''9'' then atoi_loop (n * 10 + of_char c - of_char CHR ''0'') s else n)"

definition atoi :: "string \<Rightarrow> int" where
  "atoi s = sint (atoi_loop 0 s)"

definition umemmove :: "memory \<Rightarrow> nat \<Rightarrow> nat \<Rightarrow> nat \<Rightarrow> memory" where
  "umemmove m dst src n =
     (if src > dst then copy_forward m dst src n else copy_backward m (dst + n) (src + n) n)"

fun umemcmp :: "memory \<Rightarrow> nat \<Rightarrow> nat \<Rightarrow> nat \<Rightarrow> int" where
  "umemcmp m s1 s2 0 = 0"
| "umemcmp m s1 s2 (Suc n) =
     (if m s1 \<noteq> m s2 then uint (m s1) - uint (m s2) else umemcmp m (Suc s1) (Suc s2) n)"

definition umemcpy :: "memory \<Rightarrow> nat \<Rightarrow> nat \<Rightarrow> nat \<Rightarrow> memory" where
  "umemcpy m dst src n = umemmove m dst src n"

subsection \<open>The two C libraries agree\<close>

lemma umemset_loop_eq: "umemset_loop m dst c n i = memset_loop m dst c n i"
  by (induction m dst c n i rule: umemset_loop.induct) (subst umemset_loop.simps, subst memset_loop.simps, simp add: fun_upd_def cong: if_cong)

lemma umemcmp_eq: "umemcmp m a b n = memcmp m a b n"
  by (induction m a b n rule: umemcmp.induct) simp_all

lemma umemmove_eq: "umemmove m dst src n = mem_write m dst (mem_read m src n)"
  by (auto simp: umemmove_def copy_backward_apply copy_forward_apply mem_write_def fun_eq_iff)

lemma of_char_0_iff: "(of_char c :: int) = 0 \<longleftrightarrow> c = CHR 0x00"
proof -
  have "(of_char c :: int) = 0 \<longleftrightarrow> (of_char c :: int) = of_char CHR 0x00" by (simp add: of_char_Char)
  then show ?thesis unfolding of_char_eq_iff .
qed

lemma strcmp_0_iff: "strcmp p q = 0 \<longleftrightarrow> p = q" if "CHR 0x00 \<notin> set p" "CHR 0x00 \<notin> set q"
  using that by (induction p q rule: strcmp.induct) (auto simp: of_char_0_iff)

end
