(* ===== verification/Uprintf.thy ===== *)
theory Uprintf
  imports Ulib
begin

text \<open>
  Formatted output of the user programs (\<^verbatim>\<open>user/printf.c\<close>): every character is a \<^verbatim>\<open>write\<close> of one byte. An argument is the value of
  its register or a string; a missing argument reads as 0.

  Shown: \<open>vprintf\<close> makes exactly the writes of a pure expansion of its format, and \<open>atoi\<close> reads back the numbers it prints.
\<close>

subsection \<open>Definitions\<close>

datatype uarg = UNum u64 | UStr "string option"

definition uva_arg :: "uarg list \<Rightarrow> uarg" where
  "uva_arg ap = (case ap of [] \<Rightarrow> UNum 0 | a # _ \<Rightarrow> a)"

definition uva_num :: "uarg \<Rightarrow> u64" where
  "uva_num a = (case a of UNum n \<Rightarrow> n | UStr _ \<Rightarrow> 0)"

definition uva_int :: "uarg \<Rightarrow> int" where
  "uva_int a = sint (ucast (uva_num a) :: u32)"

definition uva_str :: "uarg \<Rightarrow> string option" where
  "uva_str a = (case a of UNum _ \<Rightarrow> None | UStr s \<Rightarrow> s)"

definition udigits :: string where
  "udigits = ''0123456789ABCDEF''"

definition putc :: "int \<Rightarrow> char \<Rightarrow> ('x, unit) ufun" where
  "putc fd c = uwrite fd [c]"

text \<open>The digits of \<open>x\<close>, least significant first, as the loop stores them in \<open>buf\<close>.\<close>

function uprintint_digits :: "u32 \<Rightarrow> u32 \<Rightarrow> string" where
  "uprintint_digits x base =
     (if x div base \<noteq> 0 \<and> 1 < base then udigits ! unat (x mod base) # uprintint_digits (x div base) base
      else [udigits ! unat (x mod base)])"
  by pat_completeness auto
termination
proof (relation "measure (\<lambda>(x, base). unat x)")
  fix x base :: u32
  assume "x div base \<noteq> 0 \<and> 1 < base"
  then have "0 < unat x" "1 < unat base" by (auto simp: word_less_nat_alt unat_gt_0)
  then have "unat x div unat base < unat x" by simp
  then show "((x div base, base), x, base) \<in> measure (\<lambda>(x, base). unat x)" by (simp add: unat_div)
qed simp

declare uprintint_digits.simps [simp del]

definition uprintint_buf :: "int \<Rightarrow> u32 \<Rightarrow> bool \<Rightarrow> string" where
  "uprintint_buf xx base sg =
     (let neg = sg \<and> xx < 0;
          x = (if neg then word_of_int (- xx) else word_of_int xx);
          buf = uprintint_digits x base
      in if neg then buf @ ''-'' else buf)"

definition uprintint :: "int \<Rightarrow> int \<Rightarrow> u32 \<Rightarrow> bool \<Rightarrow> ('x, unit) ufun" where
  "uprintint fd xx base sg = for_each (rev (uprintint_buf xx base sg)) (putc fd)"

primrec uprintptr_loop :: "int \<Rightarrow> nat \<Rightarrow> u64 \<Rightarrow> ('x, unit) ufun" where
  "uprintptr_loop fd 0 x = kskip"
| "uprintptr_loop fd (Suc n) x = kseq (putc fd (udigits ! unat (drop_bit 60 x))) (uprintptr_loop fd n (push_bit 4 x))"

definition uprintptr :: "int \<Rightarrow> u64 \<Rightarrow> ('x, unit) ufun" where
  "uprintptr fd x = kseq (putc fd CHR ''0'') (kseq (putc fd CHR ''x'') (uprintptr_loop fd 16 x))"

text \<open>One conversion, after a percent sign: what to do, and the arguments that are left.\<close>

definition vprintf_conv :: "int \<Rightarrow> char \<Rightarrow> uarg list \<Rightarrow> ('x, unit) ufun \<times> uarg list" where
  "vprintf_conv fd c ap =
     (let a = uva_arg ap in
      if c = CHR ''d'' then (uprintint fd (uva_int a) 10 True, tl ap)
      else if c = CHR ''l'' then (uprintint fd (uva_int a) 10 False, tl ap)
      else if c = CHR ''x'' then (uprintint fd (uva_int a) 16 False, tl ap)
      else if c = CHR ''p'' then (uprintptr fd (uva_num a), tl ap)
      else if c = CHR ''s'' then
        (for_each (case uva_str a of None \<Rightarrow> ''(null)'' | Some s \<Rightarrow> s) (putc fd), tl ap)
      else if c = CHR ''c'' then (putc fd (char_of (unat (uva_num a))), tl ap)
      else if c = CHR ''%'' then (putc fd c, ap)
      else (kseq (putc fd CHR ''%'') (putc fd c), ap))"

text \<open>The loop over the format; \<open>pct\<close> is the state of the loop, whether the last character was a percent sign.\<close>

fun vprintf_loop :: "int \<Rightarrow> bool \<Rightarrow> string \<Rightarrow> uarg list \<Rightarrow> ('x, unit) ufun" where
  "vprintf_loop fd pct [] ap = kskip"
| "vprintf_loop fd False (c # fmt) ap =
     (if c = CHR ''%'' then vprintf_loop fd True fmt ap else kseq (putc fd c) (vprintf_loop fd False fmt ap))"
| "vprintf_loop fd True (c # fmt) ap =
     (case vprintf_conv fd c ap of (m, ap') \<Rightarrow> kseq m (vprintf_loop fd False fmt ap'))"

definition vprintf :: "int \<Rightarrow> string \<Rightarrow> uarg list \<Rightarrow> ('x, unit) ufun" where
  "vprintf fd fmt ap = vprintf_loop fd False fmt ap"

definition fprintf :: "int \<Rightarrow> string \<Rightarrow> uarg list \<Rightarrow> ('x, unit) ufun" where
  "fprintf fd fmt ap = vprintf fd fmt ap"

definition uprintf :: "string \<Rightarrow> uarg list \<Rightarrow> ('x, unit) ufun" where
  "uprintf fmt ap = vprintf 1 fmt ap"

subsection \<open>The expansion of a format\<close>

primrec uptr_text :: "nat \<Rightarrow> u64 \<Rightarrow> string" where
  "uptr_text 0 x = []"
| "uptr_text (Suc n) x = udigits ! unat (drop_bit 60 x) # uptr_text n (push_bit 4 x)"

definition uconv_text :: "char \<Rightarrow> uarg list \<Rightarrow> string \<times> uarg list" where
  "uconv_text c ap =
     (let a = uva_arg ap in
      if c = CHR ''d'' then (rev (uprintint_buf (uva_int a) 10 True), tl ap)
      else if c = CHR ''l'' then (rev (uprintint_buf (uva_int a) 10 False), tl ap)
      else if c = CHR ''x'' then (rev (uprintint_buf (uva_int a) 16 False), tl ap)
      else if c = CHR ''p'' then (''0x'' @ uptr_text 16 (uva_num a), tl ap)
      else if c = CHR ''s'' then (case uva_str a of None \<Rightarrow> ''(null)'' | Some s \<Rightarrow> s, tl ap)
      else if c = CHR ''c'' then ([char_of (unat (uva_num a))], tl ap)
      else if c = CHR ''%'' then ([c], ap)
      else ([CHR ''%'', c], ap))"

fun uformat_from :: "bool \<Rightarrow> string \<Rightarrow> uarg list \<Rightarrow> string" where
  "uformat_from pct [] ap = []"
| "uformat_from False (c # fmt) ap =
     (if c = CHR ''%'' then uformat_from True fmt ap else c # uformat_from False fmt ap)"
| "uformat_from True (c # fmt) ap = (case uconv_text c ap of (t, ap') \<Rightarrow> t @ uformat_from False fmt ap')"

definition uformat :: "string \<Rightarrow> uarg list \<Rightarrow> string" where
  "uformat fmt ap = uformat_from False fmt ap"

lemma uprintptr_loop_eq: "uprintptr_loop fd n x = for_each (uptr_text n x) (putc fd)"
  by (induction n arbitrary: x) simp_all

lemma vprintf_conv_eq: "vprintf_conv fd c ap = map_prod (\<lambda>t. for_each t (putc fd)) id (uconv_text c ap)"
  by (simp add: vprintf_conv_def uconv_text_def Let_def uprintint_def uprintptr_def uprintptr_loop_eq kseq_kskip
      split: option.split del: kseq_def kskip_def)

lemma vprintf_loop_eq: "vprintf_loop fd pct fmt ap = for_each (uformat_from pct fmt ap) (putc fd)"
proof (induction fmt arbitrary: pct ap)
  case (Cons c fmt)
  show ?case
  proof (cases pct)
    case True
    obtain t ap' where "uconv_text c ap = (t, ap')" by fastforce
    then show ?thesis using Cons True by (simp add: vprintf_conv_eq for_each_append_eq del: kseq_def)
  qed (use Cons in \<open>simp del: kseq_def\<close>)
qed simp

text \<open>What a conversation of such a sequence of writes looks like: the characters go out one by one and in order; the program returns
  exactly after the last.\<close>

lemma conv_puts:
  assumes "conv (for_each bs (putc fd) s) tr e"
  shows "\<exists>k. map fst tr = map (\<lambda>c. Write fd [c]) (take k bs) \<and> k \<le> length bs \<and>
    (if k = length bs then \<exists>s'. e = Returned () s' else e = Pending (Write fd [bs ! k]))"
proof -
  have "putc fd = (\<lambda>c. uwrite fd [c] :: ('x, unit) ufun)" by (simp add: fun_eq_iff putc_def)
  from conv_uwrites [OF assms [unfolded this]] show ?thesis .
qed

lemma puts_Cons: "for_each (c # bs) (putc fd) s = Wait Switched (s\<lparr>u_req := Write fd [c]\<rparr>) (for_each bs (putc fd))"
  by (simp only: for_each.simps kseq_def putc_def uwrite_apply tbind_simps)

lemma puts_conv: "\<exists>s'. conv (for_each bs (putc fd) s) (map (\<lambda>c. (Write fd [c], r)) bs) (Returned () s')"
proof (induction bs arbitrary: s)
  case (Cons c bs)
  then show ?case unfolding puts_Cons by (auto simp: conv_Wait_iff)
qed simp

text \<open>A message on another descriptor, followed by \<^verbatim>\<open>exit\<close>.\<close>

lemma fprintf_eq: "fprintf fd fmt ap = for_each (uformat fmt ap) (putc fd)"
  by (simp only: fprintf_def vprintf_def uformat_def vprintf_loop_eq)

lemma conv_complain:
  assumes "conv (kseq (fprintf fd fmt ap) (uexit n) s) tr e" "d \<noteq> fd"
  shows "sent d tr = []" "received x tr = []" "e = Exited n \<or> (\<exists>c. e = Pending c)"
proof -
  obtain e1 where c: "conv (for_each (uformat fmt ap) (putc fd) s) tr e1" "(\<exists>s'. e1 = Returned () s') \<longrightarrow> e = Exited n"
    "\<forall>c. e1 = Pending c \<longrightarrow> e = Pending c" "\<forall>m. e1 \<noteq> Exited m"
    using assms(1) [unfolded kseq_def conv_tbind fprintf_eq] conv_puts [of "uformat fmt ap" fd s tr] by (fastforce split: if_splits)
  from conv_puts [OF c(1)] obtain k where k: "map fst tr = map (\<lambda>c. Write fd [c]) (take k (uformat fmt ap))" by blast
  show "sent d tr = []" "received x tr = []" using sent_other [OF k assms(2)] sent_uwrites [OF k] by simp_all
  show "e = Exited n \<or> (\<exists>c. e = Pending c)" using c(2-4) by (cases e1) auto
qed



lemma udigit:
  assumes "k < 10"
  shows "CHR ''0'' \<le> udigits ! k \<and> udigits ! k \<le> CHR ''9'' \<and> (of_char (udigits ! k) :: u32) - of_char CHR ''0'' = of_nat k"
proof -
  have "k \<in> set [0..<10]" using assms by simp
  then show ?thesis by (auto simp: upt_rec udigits_def less_eq_char_def)
qed

lemma atoi_loop_digits:
  "atoi_loop n (rev (uprintint_digits x 10) @ t) = atoi_loop (n * 10 ^ length (uprintint_digits x 10) + x) t"
proof (induction x "10 :: u32" arbitrary: t rule: uprintint_digits.induct)
  case (1 x)
  let ?d = "udigits ! unat (x mod 10)"
  have "unat (x mod 10) < 10" by (simp add: unat_mod)
  note d = udigit [OF this]
  have step: "atoi_loop m (?d # t) = atoi_loop (m * 10 + x mod 10) t" for m
  proof -
    have "m * 10 + of_char ?d - of_char CHR ''0'' = m * 10 + (of_char ?d - of_char CHR ''0'')" by (simp only: add_diff_eq)
    also have "\<dots> = m * 10 + x mod 10" using d by simp
    finally show ?thesis unfolding atoi_loop.simps using d by (simp only: if_True simp_thms)
  qed
  have x: "x div 10 * 10 + x mod 10 = x" by (rule div_mult_mod_eq)
  show ?case
  proof (cases "x div 10 = 0")
    case True
    then show ?thesis using x step by (simp add: uprintint_digits.simps [of x])
  next
    case False
    have "(n * 10 ^ k + x div 10) * 10 + x mod 10 = n * 10 ^ Suc k + x" for k
      using arg_cong [OF x, of "\<lambda>y. n * 10 ^ Suc k + y"] by (simp add: algebra_simps)
    note e = this
    have "atoi_loop n (rev (uprintint_digits (x div 10) 10) @ ?d # t) =
        atoi_loop (n * 10 ^ Suc (length (uprintint_digits (x div 10) 10)) + x) t"
      using 1 [of "?d # t"] False by (simp only: step e) simp
    then show ?thesis using False by (simp add: uprintint_digits.simps [of x])
  qed
qed

text \<open>\<open>atoi\<close> reads back what \<open>printf\<close> prints: every value of a C \<^verbatim>\<open>int\<close> that is not negative, printed with \<^verbatim>\<open>%d\<close> in front of a text that does
  not begin with a digit.\<close>

theorem atoi_printf:
  assumes "0 \<le> n" "n < 2 ^ 31" "rest = [] \<or> \<not> (CHR ''0'' \<le> hd rest \<and> hd rest \<le> CHR ''9'')"
  shows "atoi (uformat ''%d'' [UNum (word_of_int n)] @ rest) = n"
proof -
  have n: "sint (word_of_int n :: u32) = n" using assms(1,2) by (simp add: signed_of_int signed_take_bit_int_eq_self)
  have "atoi_loop m rest = m" for m using assms(3) by (cases rest) (simp, force)
  moreover have "ucast (word_of_int n :: u64) = (word_of_int n :: u32)" by (simp add: unsigned_of_int word_of_int_eq_iff)
  ultimately show ?thesis
    using atoi_loop_digits [of 0 "word_of_int n" rest] n assms(1)
    by (simp add: atoi_def uformat_def uconv_text_def uva_arg_def uva_int_def uva_num_def uprintint_buf_def)
qed

theorem atoi_printf_witness: "atoi (uformat ''%d'' [UNum 2048] @ '' grep'') = 2048"
  using atoi_printf [of 2048 "'' grep''"] by (simp add: less_eq_char_def)

end
