(* ===== verification/Grep.thy ===== *)
theory Grep
  imports Uprintf
begin

text \<open>
  The program \<^verbatim>\<open>grep\<close> (\<^verbatim>\<open>user/grep.c\<close>): the matcher of Kernighan and Pike and the loop that prints the matching lines of its input. A
  pointer into a string is the rest of the string.

  Shown: the matcher decides a regular language given by the pattern's items, and \<open>grep\<close> prints exactly the complete lines
  that match, however the kernel cuts the input into pieces.
\<close>

subsection \<open>Definitions\<close>

function matchhere :: "string \<Rightarrow> string \<Rightarrow> bool" and matchstar :: "char \<Rightarrow> string \<Rightarrow> string \<Rightarrow> bool" where
  "matchhere re tx = (case re of
      [] \<Rightarrow> True
    | c # re1 \<Rightarrow>
        if re1 \<noteq> [] \<and> hd re1 = CHR ''*'' then matchstar c (tl re1) tx
        else if c = CHR ''$'' \<and> re1 = [] then tx = []
        else (case tx of [] \<Rightarrow> False | t # tx1 \<Rightarrow> if c = CHR ''.'' \<or> c = t then matchhere re1 tx1 else False))"
| "matchstar c re tx =
     (if matchhere re tx then True
      else case tx of [] \<Rightarrow> False | t # tx1 \<Rightarrow> if t = c \<or> c = CHR ''.'' then matchstar c re tx1 else False)"
  by pat_completeness auto
termination
  by (relation "measures [case_sum (\<lambda>(re, tx). length re) (\<lambda>(c, re, tx). length re),
      case_sum (\<lambda>(re, tx). length tx) (\<lambda>(c, re, tx). length tx), case_sum (\<lambda>_. 0) (\<lambda>_. 1)]") (auto simp: neq_Nil_conv)

declare matchhere.simps [simp del] matchstar.simps [simp del]

fun match_from :: "string \<Rightarrow> string \<Rightarrow> bool" where
  "match_from re [] = matchhere re []"
| "match_from re (t # tx) = (if matchhere re (t # tx) then True else match_from re tx)"

definition match :: "string \<Rightarrow> string \<Rightarrow> bool" where
  "match re tx = (if re \<noteq> [] \<and> hd re = CHR ''^'' then matchhere (tl re) tx else match_from re tx)"

text \<open>The lines in the buffer from \<open>p\<close> on, up to the last newline before a NUL; the result is what is left.\<close>

definition before_nul :: "string \<Rightarrow> string" where
  "before_nul p = takeWhile (\<lambda>c. c \<noteq> CHR 0x00) p"

function grep_lines :: "string \<Rightarrow> string \<Rightarrow> ('x, string) ufun" where
  "grep_lines pattern p =
     (if strchr (before_nul p) CHR ''\<newline>'' = None then kret p
      else let line = takeWhile (\<lambda>c. c \<noteq> CHR ''\<newline>'') p in
        kseq (kwhen (match pattern line) (uwrite 1 (line @ ''\<newline>'')))
          (grep_lines pattern (drop (length line + 1) p)))"
  by pat_completeness auto
termination
  by (relation "measure (\<lambda>(pattern, p). length p)") (auto simp: before_nul_def neq_Nil_conv intro!: diff_less split: if_splits)

declare grep_lines.simps [simp del]

text \<open>A round of the loop: \<open>buf\<close> is what the buffer holds, \<open>m\<close> bytes.\<close>

definition grep_round :: "string \<Rightarrow> int \<Rightarrow> string \<Rightarrow> ('x, string + unit) ufun" where
  "grep_round pattern fd buf =
     kbind (uread fd (1024 - int (length buf) - 1)) (\<lambda>(n, bs).
     if n > 0 then kbind (grep_lines pattern (buf @ take (nat n) bs)) again
     else leave ())"

definition grep :: "string \<Rightarrow> int \<Rightarrow> ('x, unit) ufun" where
  "grep pattern fd = kwhile (grep_round pattern fd) []"

definition grep_main :: "string list \<Rightarrow> ('x, unit) ufun" where
  "grep_main argv =
     kseq (kwhen (length argv \<le> 1) (kseq (fprintf 2 ''usage: grep pattern [file ...]\<newline>'' []) (uexit 1)))
     (let pattern = argv ! 1 in
      if length argv \<le> 2 then kseq (grep pattern 0) (uexit 0)
      else kseq (for_each (drop 2 argv) (\<lambda>a.
          kbind (ucall_int (Open a O_RDONLY)) (\<lambda>fd.
          if fd < 0 then kseq (uprintf ''grep: cannot open %s\<newline>'' [UStr (Some a)]) (uexit 1)
          else kseq (grep pattern fd) (kseq (usys (Close fd)) kskip))))
        (uexit 0))"

subsection \<open>The language of a pattern\<close>

datatype atom = Lit char | Any

primrec fits :: "atom \<Rightarrow> char \<Rightarrow> bool" where
  "fits (Lit a) c = (a = c)"
| "fits Any c = True"

datatype item = One atom | Star atom

definition atom_of :: "char \<Rightarrow> atom" where
  "atom_of c = (if c = CHR ''.'' then Any else Lit c)"

text \<open>The items of a pattern, and whether it ends with the anchor of the end of the line.\<close>

fun items :: "string \<Rightarrow> item list \<times> bool" where
  "items [] = ([], False)"
| "items [c] = (if c = CHR ''$'' then ([], True) else ([One (atom_of c)], False))"
| "items (c # d # re) =
     (if d = CHR ''*'' then apfst ((#) (Star (atom_of c))) (items re)
      else apfst ((#) (One (atom_of c))) (items (d # re)))"

inductive in_lang :: "item list \<Rightarrow> string \<Rightarrow> bool" where
  in_lang_Nil: "in_lang [] []"
| in_lang_One: "fits a c \<Longrightarrow> in_lang its w \<Longrightarrow> in_lang (One a # its) (c # w)"
| in_lang_Star: "list_all (fits a) u \<Longrightarrow> in_lang its w \<Longrightarrow> in_lang (Star a # its) (u @ w)"

inductive_simps in_lang_Nil_iff [simp]: "in_lang [] w"
inductive_simps in_lang_One_iff: "in_lang (One a # its) w"
inductive_simps in_lang_Star_iff: "in_lang (Star a # its) w"

definition prefix_in :: "item list \<times> bool \<Rightarrow> string \<Rightarrow> bool" where
  "prefix_in p tx \<longleftrightarrow> (\<exists>w post. tx = w @ post \<and> in_lang (fst p) w \<and> (snd p \<longrightarrow> post = []))"

lemma fits_atom_of: "fits (atom_of c) t \<longleftrightarrow> c = CHR ''.'' \<or> c = t"
  by (simp add: atom_of_def)

lemma prefix_in_Nil: "prefix_in ([], b) tx \<longleftrightarrow> (b \<longrightarrow> tx = [])"
  by (auto simp: prefix_in_def)

lemma prefix_in_One:
  "prefix_in (One a # its, b) tx \<longleftrightarrow> (case tx of [] \<Rightarrow> False | t # tx1 \<Rightarrow> fits a t \<and> prefix_in (its, b) tx1)"
  by (cases tx) (auto simp: prefix_in_def in_lang_One_iff Cons_eq_append_conv)

lemma prefix_in_Star:
  "prefix_in (Star a # its, b) tx \<longleftrightarrow>
     prefix_in (its, b) tx \<or> (case tx of [] \<Rightarrow> False | t # tx1 \<Rightarrow> fits a t \<and> prefix_in (Star a # its, b) tx1)"
  (is "?L \<longleftrightarrow> ?R")
proof
  assume ?L
  then obtain u w post where u: "tx = u @ w @ post" "list_all (fits a) u" "in_lang its w" "b \<longrightarrow> post = []"
    unfolding prefix_in_def in_lang_Star_iff fst_conv snd_conv by (metis append.assoc)
  show ?R
  proof (cases u)
    case Nil
    then show ?thesis using u by (auto simp: prefix_in_def)
  next
    case (Cons t u')
    then have "u' @ w @ post = (u' @ w) @ post" "list_all (fits a) u'" using u by simp_all
    then have "prefix_in (Star a # its, b) (u' @ w @ post)"
      unfolding prefix_in_def in_lang_Star_iff fst_conv snd_conv using u(3,4) by blast
    then show ?thesis using Cons u by simp
  qed
next
  assume ?R
  then show ?L
  proof
    assume "prefix_in (its, b) tx"
    then obtain w post where "tx = ([] @ w) @ post" "list_all (fits a) []" "in_lang its w" "b \<longrightarrow> post = []"
      by (auto simp: prefix_in_def)
    then show ?L unfolding prefix_in_def in_lang_Star_iff fst_conv snd_conv by blast
  next
    assume "case tx of [] \<Rightarrow> False | t # tx1 \<Rightarrow> fits a t \<and> prefix_in (Star a # its, b) tx1"
    then obtain t tx1 where t: "tx = t # tx1" "fits a t" "prefix_in (Star a # its, b) tx1" by (cases tx) auto
    from t(3) obtain u w post where "tx1 = (u @ w) @ post" "list_all (fits a) u" "in_lang its w" "b \<longrightarrow> post = []"
      unfolding prefix_in_def in_lang_Star_iff fst_conv snd_conv by blast
    with t(1,2) have "tx = ((t # u) @ w) @ post" "list_all (fits a) (t # u)" "in_lang its w" "b \<longrightarrow> post = []" by simp_all
    then show ?L unfolding prefix_in_def in_lang_Star_iff fst_conv snd_conv by blast
  qed
qed

lemma items_eq:
  "items (c # re1) =
     (if re1 \<noteq> [] \<and> hd re1 = CHR ''*'' then apfst ((#) (Star (atom_of c))) (items (tl re1))
      else if c = CHR ''$'' \<and> re1 = [] then ([], True)
      else apfst ((#) (One (atom_of c))) (items re1))"
  by (cases re1) auto

lemma prefix_in_apfst: "prefix_in (apfst f p) tx = prefix_in (f (fst p), snd p) tx"
  by (cases p) simp

lemma matcher_prefix:
  "matchhere re tx \<longleftrightarrow> prefix_in (items re) tx"
  "matchstar c re tx \<longleftrightarrow> prefix_in (apfst ((#) (Star (atom_of c))) (items re)) tx"
proof (induction re tx and c re tx rule: matchhere_matchstar.induct)
  case (1 re tx)
  show ?case
  proof (cases re)
    case Nil
    then show ?thesis by (simp add: matchhere.simps [of "[]"] prefix_in_Nil)
  next
    case (Cons c re1)
    show ?thesis
    proof (cases "re1 \<noteq> [] \<and> hd re1 = CHR ''*''")
      case True
      then show ?thesis using 1(1) [OF Cons] unfolding Cons items_eq matchhere.simps [of "c # re1"] by simp
    next
      case False
      note star = this
      show ?thesis
      proof (cases "c = CHR ''$'' \<and> re1 = []")
        case True
        then show ?thesis unfolding Cons items_eq matchhere.simps [of "c # re1"] by (simp add: prefix_in_Nil)
      next
        case False
        have e: "items (c # re1) = (One (atom_of c) # fst (items re1), snd (items re1))"
          unfolding items_eq if_not_P [OF star] if_not_P [OF False] by (simp add: prod_eq_iff)
        show ?thesis
          unfolding Cons e prefix_in_One fits_atom_of matchhere.simps [of "c # re1"] list.case if_not_P [OF star] if_not_P [OF False]
          using 1(2) [OF Cons star False] by (cases tx) auto
      qed
    qed
  qed
next
  case (2 c re tx)
  then show ?case
    unfolding matchstar.simps [of c re tx] prefix_in_apfst prefix_in_Star [of _ _ _ tx] fits_atom_of
    by (cases tx) auto
qed

lemma match_from_iff: "match_from re tx \<longleftrightarrow> (\<exists>pre rest. tx = pre @ rest \<and> matchhere re rest)"
proof (induction tx)
  case (Cons t tx)
  then show ?case by (auto simp: Cons_eq_append_conv)
qed simp

text \<open>C15: the matcher decides the language of its pattern. A line matches exactly if some part of it is in the language of the
  pattern's items, where \<^verbatim>\<open>c*\<close> stands for any number of \<open>c\<close> and a dot for any character; the part begins the line if the pattern
  begins with a caret, and ends it if the pattern ends with a dollar.\<close>

theorem match_correct:
  "match re tx \<longleftrightarrow>
     (let anchored = (re \<noteq> [] \<and> hd re = CHR ''^''); (its, at_end) = items (if anchored then tl re else re) in
      \<exists>pre w post. tx = pre @ w @ post \<and> in_lang its w \<and> (anchored \<longrightarrow> pre = []) \<and> (at_end \<longrightarrow> post = []))"
  by (auto simp: match_def match_from_iff matcher_prefix prefix_in_def Let_def split_beta)

theorem match_correct_witness: "match ''^ab*$'' ''abb'' \<and> \<not> match ''^ab*$'' ''abc''"
proof -
  have its: "items ''ab*$'' = ([One (Lit CHR ''a''), Star (Lit CHR ''b'')], True)" by (simp add: atom_of_def)
  have "in_lang [One (Lit CHR ''a''), Star (Lit CHR ''b'')] ''abb''" by (auto simp: in_lang_One_iff in_lang_Star_iff)
  moreover have "\<not> in_lang [One (Lit CHR ''a''), Star (Lit CHR ''b'')] ''abc''"
    by (auto simp: in_lang_One_iff in_lang_Star_iff)
  ultimately show ?thesis
    using match_correct [of "''^ab*$''" "''abb''"] match_correct [of "''^ab*$''" "''abc''"] its by auto
qed

subsection \<open>The lines that grep prints\<close>

text \<open>The complete lines of a text, without their newlines, and what follows the last newline.\<close>

primrec split_lines :: "string \<Rightarrow> string list \<times> string" where
  "split_lines [] = ([], [])"
| "split_lines (c # s) = (case split_lines s of (ls, r) \<Rightarrow>
     if c = CHR ''\<newline>'' then ([] # ls, r)
     else (case ls of [] \<Rightarrow> ([], c # r) | l # ls' \<Rightarrow> ((c # l) # ls', r)))"

lemma split_lines_none: "CHR ''\<newline>'' \<notin> set s \<Longrightarrow> split_lines s = ([], s)"
  by (induction s) auto

lemma split_lines_line:
  "CHR ''\<newline>'' \<notin> set l \<Longrightarrow> split_lines (l @ CHR ''\<newline>'' # s) = (l # fst (split_lines s), snd (split_lines s))"
  by (induction l) (auto split: prod.split)

lemma split_lines_rest: "CHR ''\<newline>'' \<notin> set (snd (split_lines s))"
  by (induction s) (auto split: prod.splits list.splits)

lemma split_lines_append:
  "split_lines (s @ t) = (fst (split_lines s) @ fst (split_lines (snd (split_lines s) @ t)), snd (split_lines (snd (split_lines s) @ t)))"
  by (induction s) (auto split: prod.splits list.splits)

lemma split_lines_subset: "set (snd (split_lines s)) \<subseteq> set s"
  by (induction s) (auto split: prod.splits list.splits)

definition grep_output :: "string \<Rightarrow> string \<Rightarrow> string" where
  "grep_output pattern s = concat (map (\<lambda>l. l @ ''\<newline>'') (filter (match pattern) (fst (split_lines s))))"

lemma grep_lines_eq:
  "CHR 0x00 \<notin> set p \<Longrightarrow> (grep_lines pattern p :: ('x, string) ufun) =
     kseq (for_each (filter (match pattern) (fst (split_lines p))) (\<lambda>l. uwrite 1 (l @ ''\<newline>''))) (kret (snd (split_lines p)))"
proof (induction pattern p rule: grep_lines.induct)
  case (1 pattern p)
  have b: "before_nul p = p" using 1(2) by (simp add: before_nul_def takeWhile_eq_all_conv) metis
  show ?case
  proof (cases "CHR ''\<newline>'' \<in> set p")
    case False
    then show ?thesis by (simp add: grep_lines.simps [of pattern p] b strchr_None split_lines_none)
  next
    case True
    then obtain l zs where p: "p = l @ CHR ''\<newline>'' # zs" "CHR ''\<newline>'' \<notin> set l" by (metis split_list_first)
    have tk: "takeWhile (\<lambda>c. c \<noteq> CHR ''\<newline>'') p = l" using p by (simp add: takeWhile_append)
    have dr: "drop (length l + 1) p = zs" using p by simp
    have n: "strchr (before_nul p) CHR ''\<newline>'' \<noteq> None" using True by (simp add: b strchr_None)
    have zs: "CHR 0x00 \<notin> set zs" using 1(2) p by simp
    note ih = 1(1) [OF n refl, unfolded tk dr, OF zs]
    have "(grep_lines pattern p :: ('x, string) ufun) = kseq (kwhen (match pattern l) (uwrite 1 (l @ ''\<newline>'')))
        (kseq (for_each (filter (match pattern) (fst (split_lines zs))) (\<lambda>l. uwrite 1 (l @ ''\<newline>''))) (kret (snd (split_lines zs))))"
      unfolding grep_lines.simps [of pattern p] if_not_P [OF n] Let_def tk dr ih by (rule refl)
    then show ?thesis
      unfolding p(1) split_lines_line [OF p(2)]
      by (cases "match pattern l") (simp_all add: kseq_assoc kseq_kskip_left del: kseq_def kskip_def kret_def)
  qed
qed

lemma grep_output_append:
  "grep_output pattern (s @ t) = grep_output pattern s @ grep_output pattern (snd (split_lines s) @ t)"
  by (simp add: grep_output_def split_lines_append [of s t])

lemma grep_output_none: "CHR ''\<newline>'' \<notin> set s \<Longrightarrow> grep_output pattern s = []"
  by (simp add: grep_output_def split_lines_none)

lemma grep_loop_step:
  "kwhile (grep_round pattern fd) buf s =
     Wait Switched (s\<lparr>u_req := Read fd (1024 - int (length buf) - 1)\<rparr>) (\<lambda>s'.
       if rv_int (u_rep s') > 0
       then tbind (grep_lines pattern (buf @ take (nat (rv_int (u_rep s'))) (rbytes (u_rep s'))) s') (kwhile (grep_round pattern fd))
       else Ret () s')"
  by (subst kwhile_step) (simp add: grep_round_def uread_def usys_def tbind_assoc fun_eq_iff)

lemma conv_grep_lines:
  fixes s :: "'x uproc_scheme"
  assumes "conv (tbind (grep_lines pattern p s) f) tr e" "CHR 0x00 \<notin> set p"
  shows "(\<exists>tr1 tr2 s'. tr = tr1 @ tr2 \<and> sent 1 tr1 = grep_output pattern p \<and> received fd tr1 = [] \<and> conv (f (snd (split_lines p)) s') tr2 e) \<or>
    (\<exists>z c. grep_output pattern p = sent 1 tr @ z \<and> received fd tr = [] \<and> e = Pending c)"
proof -
  let ?ls = "filter (match pattern) (fst (split_lines p))"
  have out: "grep_output pattern p = concat (map (\<lambda>l. l @ ''\<newline>'') ?ls)" by (simp add: grep_output_def)
  have "tbind (grep_lines pattern p s) f = tbind (for_each ?ls (\<lambda>l. uwrite 1 (l @ ''\<newline>'')) s) (\<lambda>_. f (snd (split_lines p)))"
    unfolding grep_lines_eq [OF assms(2)] by (simp add: tbind_assoc)
  from assms(1) [unfolded this conv_tbind]
  consider (all) s' tr1 tr2 where "tr = tr1 @ tr2" "conv (for_each ?ls (\<lambda>l. uwrite 1 (l @ ''\<newline>'')) s) tr1 (Returned () s')"
      "conv (f (snd (split_lines p)) s') tr2 e"
    | (exit) n where "conv (for_each ?ls (\<lambda>l. uwrite 1 (l @ ''\<newline>'')) s) tr (Exited n)"
    | (part) c where "conv (for_each ?ls (\<lambda>l. uwrite 1 (l @ ''\<newline>'')) s) tr (Pending c)" "e = Pending c"
    by auto
  then show ?thesis
  proof cases
    case all
    from conv_uwrites [OF all(2)] have "map fst tr1 = map (\<lambda>l. Write 1 (l @ ''\<newline>'')) ?ls" by (auto split: if_splits)
    from sent_uwrites [OF this, of fd] show ?thesis using all(1,3) out by auto
  next
    case exit
    from conv_uwrites [OF this] show ?thesis by (auto split: if_splits)
  next
    case part
    from conv_uwrites [OF part(1)] obtain k where "map fst tr = map (\<lambda>l. Write 1 (l @ ''\<newline>'')) (take k ?ls)" by blast
    from sent_uwrites [OF this, of fd] have "sent 1 tr = concat (map (\<lambda>l. l @ ''\<newline>'') (take k ?ls))" "received fd tr = []" by simp_all
    moreover have "grep_output pattern p = concat (map (\<lambda>l. l @ ''\<newline>'') (take k ?ls)) @ concat (map (\<lambda>l. l @ ''\<newline>'') (drop k ?ls))"
      unfolding out by (simp only: concat_append [symmetric] map_append [symmetric] append_take_drop_id)
    ultimately show ?thesis using part(2) by auto
  qed
qed

lemma conv_grep_step:
  assumes "conv (kwhile (grep_round pattern fd) buf s) tr e"
  obtains "tr = []" "e = Pending (Read fd (1024 - int (length buf) - 1))"
  | r tr' s1 where "tr = (Read fd (1024 - int (length buf) - 1), r) # tr'" "rv_int r > 0"
      "conv (tbind (grep_lines pattern (buf @ take (nat (rv_int r)) (rbytes r)) s1) (kwhile (grep_round pattern fd))) tr' e"
  | r s1 where "tr = [(Read fd (1024 - int (length buf) - 1), r)]" "rv_int r \<le> 0" "e = Returned () s1"
proof -
  let ?c = "Read fd (1024 - int (length buf) - 1)"
  have "conv (Wait Switched (s\<lparr>u_req := ?c\<rparr>) (\<lambda>s'. if rv_int (u_rep s') > 0
       then tbind (grep_lines pattern (buf @ take (nat (rv_int (u_rep s'))) (rbytes (u_rep s'))) s') (kwhile (grep_round pattern fd))
       else Ret () s')) tr e"
    using assms by (subst (asm) grep_loop_step)
  then show thesis
  proof cases
    case (conv_Call r tr')
    show thesis
    proof (cases "rv_int r > 0")
      case True
      then show thesis using conv_Call that(2) [of r tr'] by simp
    next
      case False
      then show thesis using conv_Call that(3) [of r] by auto
    qed
  qed (use that(1) in auto)
qed

lemma conv_grep_loop:
  fixes s :: "'x uproc_scheme"
  assumes "conv (kwhile (grep_round pattern fd) buf s) tr e" "honest tr" "CHR 0x00 \<notin> set (buf @ received fd tr)"
    and "CHR ''\<newline>'' \<notin> set buf"
  shows "\<exists>z. grep_output pattern (buf @ received fd tr) = sent 1 tr @ z \<and> ((\<exists>s'. e = Returned () s') \<and> z = [] \<or> (\<exists>c. e = Pending c))"
  using assms
proof (induction "length tr" arbitrary: tr buf s rule: less_induct)
  case less
  from less.prems(1) show ?case
  proof (cases rule: conv_grep_step)
    case 1
    then show ?thesis using less.prems(4) by (simp add: grep_output_none)
  next
    case (3 r)
    then show ?thesis using less.prems(4) by (simp add: grep_output_none)
  next
    case (2 r tr' s1)
    then have "int (length (rbytes r)) = rv_int r" using less.prems(2) by (simp add: honest_reply_def)
    then have tk: "take (nat (rv_int r)) (rbytes r) = rbytes r" by (metis nat_int take_all order_refl)
    have rec: "received fd tr = rbytes r @ received fd tr'" using 2 by simp
    have "CHR 0x00 \<notin> set (buf @ rbytes r)" using less.prems(3) rec by simp
    from conv_grep_lines [OF 2(3) [unfolded tk] this, of fd] show ?thesis
    proof (elim disjE exE conjE)
      fix tr1 tr2 s' assume t: "tr' = tr1 @ tr2" "sent 1 tr1 = grep_output pattern (buf @ rbytes r)" "received fd tr1 = []"
        "conv (kwhile (grep_round pattern fd) (snd (split_lines (buf @ rbytes r))) s') tr2 e"
      have "\<exists>z. grep_output pattern (snd (split_lines (buf @ rbytes r)) @ received fd tr2) = sent 1 tr2 @ z \<and>
          ((\<exists>s'. e = Returned () s') \<and> z = [] \<or> (\<exists>c. e = Pending c))"
        by (rule less.hyps [OF _ t(4)])
          (use t less.prems(2,3) 2(1) rec split_lines_rest [of "buf @ rbytes r"] split_lines_subset [of "buf @ rbytes r"] in auto)
      then show ?thesis
        using t(1-3) 2(1) rec grep_output_append [of pattern "buf @ rbytes r" "received fd tr2"] by auto
    next
      fix z c assume "grep_output pattern (buf @ rbytes r) = sent 1 tr' @ z" "received fd tr' = []" "e = Pending c"
      then show ?thesis using 2(1) rec by auto
    qed
  qed
qed

text \<open>C16: \<open>grep\<close> prints exactly the complete lines of its input that match, each once and in order, however the kernel cuts the
  input into replies: when it returns, what it has written is the matching lines of what it has read, and before that it has
  written a beginning of them. Text after the last newline is not looked at. The input contains no NUL.\<close>

theorem grep_prints:
  assumes "conv (grep pattern fd s) tr e" "honest tr" "CHR 0x00 \<notin> set (received fd tr)"
  shows "\<exists>z. grep_output pattern (received fd tr) = sent 1 tr @ z \<and> ((\<exists>s'. e = Returned () s') \<and> z = [] \<or> (\<exists>c. e = Pending c))"
  using conv_grep_loop [OF assms(1) [unfolded grep_def] assms(2)] assms(3) by simp

theorem grep_prints_witness:
  "\<exists>tr. received 0 tr = ''ab\<newline>ba\<newline>a'' \<and> sent 1 tr = grep_output ''^a'' (received 0 tr) \<and> sent 1 tr = ''ab\<newline>''"
proof -
  obtain s :: uproc where True by simp
  let ?r = "reply 7 ''ab\<newline>ba\<newline>a''"
  let ?tr = "[(Read 0 1023, ?r), (Write 1 ''ab\<newline>'', reply 3 []), (Read 0 1022, reply 0 [])]"
  have m: "match ''^a'' ''ab''" "\<not> match ''^a'' ''ba''"
    by (simp_all add: match_def matchhere.simps)
  have c: "conv (kwhile (grep_round ''^a'' 0) ''a'' s1) [(Read 0 1022, reply 0 [])]
      (Returned () (s1\<lparr>u_req := Read 0 1022, u_rep := reply 0 []\<rparr>))" for s1 :: uproc
    by (subst grep_loop_step) (simp add: conv_Wait_iff rv_int_def)
  have "conv (tbind (grep_lines ''^a'' ''ab\<newline>ba\<newline>a'' s1) (kwhile (grep_round ''^a'' 0)))
      [(Write 1 ''ab\<newline>'', reply 3 []), (Read 0 1022, reply 0 [])]
      (Returned () (s1\<lparr>u_req := Read 0 1022, u_rep := reply 0 []\<rparr>))" for s1 :: uproc
    using m c [of "s1\<lparr>u_req := Write 1 ''ab\<newline>'', u_rep := reply 3 []\<rparr>"] by (subst grep_lines_eq) (simp_all add: uwrite_apply conv_Wait_iff)
  then have "\<exists>s'. conv (grep ''^a'' 0 s) ?tr (Returned () s')"
    unfolding grep_def by (subst grep_loop_step) (auto simp: conv_Wait_iff rv_int_def)
  then obtain s' where "conv (grep ''^a'' 0 s) ?tr (Returned () s')" ..
  from grep_prints [OF this] have "grep_output ''^a'' (received 0 ?tr) = sent 1 ?tr" by (simp add: honest_reply_def rv_int_def)
  then show ?thesis by (intro exI [of _ ?tr]) (simp add: rv_int_def)
qed

end
