(* ===== verification/Sh.thy ===== *)
theory Sh
  imports Uprintf
begin

text \<open>
  The shell (\<^verbatim>\<open>user/sh.c\<close>): the parser of command lines, the execution of a parsed command by system calls, and the main loop.

  A line is the list of its characters before the NUL, and a pointer into it is a position; reading at the end gives the NUL. A node
  that \<^verbatim>\<open>malloc\<close> gives is a value of the datatype \<open>cmd\<close>, whose strings are spans of positions as the parser stores them; the
  allocation does not fail. \<^verbatim>\<open>panic\<close> prints a message and exits, and the parser returns the message instead.

  The parser functions call each other without a bound on the depth; the model gives the recursion fuel. Shown: the fuel given is
  enough on every line, so the parser always ends with a tree or an error; the strings of a tree are words of the line and stay
  intact when \<open>nulterminate\<close> ends them with a NUL; printing a command and parsing it gives the command back.
\<close>

subsection \<open>Commands\<close>

definition MAXARGS :: nat where "MAXARGS = 10"

type_synonym span = "nat \<times> nat"

datatype cmd =
    EXEC "span list"
  | REDIR cmd span int int
  | PIPE cmd cmd
  | LIST cmd cmd
  | BACK cmd

definition execcmd :: cmd where
  "execcmd = EXEC []"

definition redircmd :: "cmd \<Rightarrow> nat \<Rightarrow> nat \<Rightarrow> int \<Rightarrow> int \<Rightarrow> cmd" where
  "redircmd subcmd f ef mode fd = REDIR subcmd (f, ef) mode fd"

definition pipecmd :: "cmd \<Rightarrow> cmd \<Rightarrow> cmd" where
  "pipecmd left right = PIPE left right"

definition listcmd :: "cmd \<Rightarrow> cmd \<Rightarrow> cmd" where
  "listcmd left right = LIST left right"

definition backcmd :: "cmd \<Rightarrow> cmd" where
  "backcmd subcmd = BACK subcmd"

text \<open>The store of an argument in the \<^verbatim>\<open>execcmd\<close> node that the redirections have been wrapped around.\<close>

primrec add_arg :: "span \<Rightarrow> cmd \<Rightarrow> cmd" where
  "add_arg sp (EXEC args) = EXEC (args @ [sp])"
| "add_arg sp (REDIR c f mode fd) = REDIR (add_arg sp c) f mode fd"
| "add_arg sp (PIPE l r) = PIPE l r"
| "add_arg sp (LIST l r) = LIST l r"
| "add_arg sp (BACK c) = BACK c"

subsection \<open>Tokens\<close>

definition whitespace :: string where
  "whitespace = [CHR '' '', CHR 0x09, CHR 0x0D, CHR 0x0A, CHR 0x0B]"

definition symbols :: string where
  "symbols = ''<|>&;()''"

definition char_at :: "string \<Rightarrow> nat \<Rightarrow> char" where
  "char_at b s = (if s < length b then b ! s else CHR 0x00)"

function skip_ws :: "string \<Rightarrow> nat \<Rightarrow> nat" where
  "skip_ws b s = (if s < length b \<and> strchr whitespace (b ! s) \<noteq> None then skip_ws b (Suc s) else s)"
  by pat_completeness auto
termination by (relation "measure (\<lambda>(b, s). length b - s)") auto

function skip_word :: "string \<Rightarrow> nat \<Rightarrow> nat" where
  "skip_word b s =
     (if s < length b \<and> strchr whitespace (b ! s) = None \<and> strchr symbols (b ! s) = None then skip_word b (Suc s) else s)"
  by pat_completeness auto
termination by (relation "measure (\<lambda>(b, s). length b - s)") auto

declare skip_ws.simps [simp del] skip_word.simps [simp del]

text \<open>The switch on the character at \<open>s\<close>: the kind of the token and its end.\<close>

definition token_at :: "string \<Rightarrow> nat \<Rightarrow> char \<times> nat" where
  "token_at b s =
     (let c = char_at b s in
      if c = CHR 0x00 then (c, s)
      else if c \<in> set ''|();&<'' then (c, Suc s)
      else if c = CHR ''>'' then (if char_at b (Suc s) = CHR ''>'' then (CHR ''+'', Suc (Suc s)) else (c, Suc s))
      else (CHR ''a'', skip_word b s))"

text \<open>The next token: its kind, its begin and end, and the position after the whitespace that follows it.\<close>

definition gettoken :: "string \<Rightarrow> nat \<Rightarrow> char \<times> nat \<times> nat \<times> nat" where
  "gettoken b s0 =
     (let s = skip_ws b s0; (ret, e) = token_at b s
      in (ret, s, e, skip_ws b e))"

definition peek :: "string \<Rightarrow> nat \<Rightarrow> string \<Rightarrow> bool \<times> nat" where
  "peek b s0 toks = (let s = skip_ws b s0; c = char_at b s in (c \<noteq> CHR 0x00 \<and> strchr toks c \<noteq> None, s))"

abbreviation next_pos :: "string \<Rightarrow> nat \<Rightarrow> nat" where
  "next_pos b s \<equiv> snd (snd (snd (gettoken b s)))"

lemma skip_ws_ge: "s \<le> skip_ws b s"
  by (induction b s rule: skip_ws.induct) (subst skip_ws.simps, auto)

lemma skip_ws_le: "s \<le> length b \<Longrightarrow> skip_ws b s \<le> length b"
  by (induction b s rule: skip_ws.induct) (subst skip_ws.simps, auto)

lemma skip_word_ge: "s \<le> skip_word b s"
  by (induction b s rule: skip_word.induct) (subst skip_word.simps, auto)

lemma skip_word_le: "s \<le> length b \<Longrightarrow> skip_word b s \<le> length b"
  by (induction b s rule: skip_word.induct) (subst skip_word.simps, auto)

lemma skip_ws_stop: "skip_ws b s < length b \<Longrightarrow> b ! skip_ws b s \<notin> set whitespace"
proof (induction b s rule: skip_ws.induct)
  case (1 b s)
  show ?case
  proof (cases "s < length b \<and> strchr whitespace (b ! s) \<noteq> None")
    case True
    then have "skip_ws b s = skip_ws b (Suc s)" by (subst skip_ws.simps) simp
    then show ?thesis using 1 True by simp
  next
    case False
    then have "skip_ws b s = s" by (subst skip_ws.simps) auto
    then show ?thesis using 1(2) False by (simp add: strchr_None)
  qed
qed

lemma skip_ws_id: "s < length b \<Longrightarrow> b ! s \<notin> set whitespace \<Longrightarrow> skip_ws b s = s"
  by (subst skip_ws.simps) (simp add: strchr_None)

lemma skip_ws_end: "length b \<le> s \<Longrightarrow> skip_ws b s = s"
  by (subst skip_ws.simps) simp

lemma skip_ws_idem: "skip_ws b (skip_ws b s) = skip_ws b s"
  using skip_ws_stop [of b s] skip_ws_id [of "skip_ws b s" b] skip_ws_end [of b "skip_ws b s"] by (cases "skip_ws b s < length b") auto

lemma char_at_nonzero: "char_at b s \<noteq> CHR 0x00 \<Longrightarrow> s < length b"
  by (simp add: char_at_def split: if_splits)

text \<open>A token ends after it begins, and inside the line.\<close>

lemma token_at_kind: "fst (token_at b s) = CHR 0x00 \<longleftrightarrow> char_at b s = CHR 0x00"
  by (simp add: token_at_def Let_def)

lemma token_at_advances:
  assumes "char_at b s \<noteq> CHR 0x00" "skip_ws b s = s"
  shows "s < snd (token_at b s)" "snd (token_at b s) \<le> length b"
proof -
  have lt: "s < length b" using assms(1) by (rule char_at_nonzero)
  have w: "s < skip_word b s" if "char_at b s \<notin> set ''|();&<''" "char_at b s \<noteq> CHR ''>''"
  proof -
    have "b ! s \<notin> set symbols" using that lt by (auto simp: symbols_def char_at_def)
    moreover have "b ! s \<notin> set whitespace" using skip_ws_stop [of b s] assms(2) lt by simp
    ultimately show ?thesis using lt skip_word_ge [of "Suc s" b] by (subst skip_word.simps) (simp add: strchr_None)
  qed
  show "s < snd (token_at b s)" "snd (token_at b s) \<le> length b"
    using assms(1) lt w skip_word_le [of s b] char_at_nonzero [of b "Suc s"] by (auto simp: token_at_def Let_def)
qed

lemma gettoken_advances:
  assumes "gettoken b s = (t, q, e, s')" "t \<noteq> CHR 0x00"
  shows "s \<le> q" "q < e" "e \<le> length b" "e \<le> s'" "s' \<le> length b"
proof -
  have g: "q = skip_ws b s" "t = fst (token_at b q)" "e = snd (token_at b q)" "s' = skip_ws b e"
    using assms(1) by (auto simp: gettoken_def Let_def split: prod.splits)
  have "char_at b q \<noteq> CHR 0x00" using assms(2) unfolding g(2) token_at_kind .
  then show "q < e" "e \<le> length b" using token_at_advances [of b q] g by (simp_all add: skip_ws_idem)
  then show "s \<le> q" "e \<le> s'" "s' \<le> length b" using g skip_ws_ge skip_ws_le by auto
qed

lemma peek_true:
  assumes "peek b s toks = (True, s1)"
  shows "s \<le> s1" "s1 < length b" "char_at b s1 \<noteq> CHR 0x00" "char_at b s1 \<in> set toks" "skip_ws b s1 = s1"
  using assms skip_ws_ge [of s b] char_at_nonzero [of b "skip_ws b s"]
  by (auto simp: peek_def Let_def strchr_None skip_ws_idem)

lemma next_pos_advances:
  assumes "char_at b s \<noteq> CHR 0x00" "skip_ws b s = s"
  shows "s < next_pos b s" "next_pos b s \<le> length b"
  using token_at_advances [OF assms] assms skip_ws_ge [of "snd (token_at b s)" b] skip_ws_le [of "snd (token_at b s)" b]
  by (auto simp: gettoken_def Let_def split_beta)

subsection \<open>The parser\<close>

datatype parsed = Parsed cmd nat | Bad string | Fuel

primrec then_parse :: "parsed \<Rightarrow> (cmd \<Rightarrow> nat \<Rightarrow> parsed) \<Rightarrow> parsed" where
  "then_parse (Parsed c s) f = f c s"
| "then_parse (Bad e) f = Bad e"
| "then_parse Fuel f = Fuel"

lemma peek_advances: "(True, s1) = peek b s toks \<Longrightarrow> length b - next_pos b s1 < length b - s"
  using peek_true [of b s toks s1] next_pos_advances [of b s1] by auto

lemma redirection_advances:
  assumes "(True, s1) = peek b s toks" "(tok, q0, e0, s2) = gettoken b s1" "(CHR ''a'', q, eq, s3) = gettoken b s2"
  shows "length b - s3 < length b - s"
proof -
  have "s2 = next_pos b s1" using assms(2) [symmetric] by simp
  then have "length b - s2 < length b - s" using peek_advances [OF assms(1)] by simp
  moreover have "s2 \<le> s3" using gettoken_advances [OF assms(3) [symmetric]] by simp
  ultimately show ?thesis by simp
qed

definition parseredirs_switch :: "char \<Rightarrow> cmd \<Rightarrow> nat \<Rightarrow> nat \<Rightarrow> cmd" where
  "parseredirs_switch tok c q eq =
     (if tok = CHR ''<'' then redircmd c q eq O_RDONLY 0
      else if tok = CHR ''>'' then redircmd c q eq (uint (O_WRONLY OR O_CREATE OR O_TRUNC)) 1
      else if tok = CHR ''+'' then redircmd c q eq (uint (O_WRONLY OR O_CREATE)) 1
      else c)"

function parseredirs :: "string \<Rightarrow> cmd \<Rightarrow> nat \<Rightarrow> parsed" where
  "parseredirs b c s =
     (case peek b s ''<>'' of (p, s1) \<Rightarrow>
      if \<not> p then Parsed c s1
      else case gettoken b s1 of (tok, _, _, s2) \<Rightarrow>
        case gettoken b s2 of (tok2, q, eq, s3) \<Rightarrow>
        if tok2 \<noteq> CHR ''a'' then Bad ''missing file for redirection''
        else parseredirs b (parseredirs_switch tok c q eq) s3)"
  by pat_completeness auto
termination
  by (relation "measure (\<lambda>(b, c, s). length b - s)") (auto dest: redirection_advances simp del: One_nat_def)

text \<open>The loop over the ampersands after a pipeline.\<close>

function parseline_amps :: "string \<Rightarrow> cmd \<Rightarrow> nat \<Rightarrow> cmd \<times> nat" where
  "parseline_amps b c s =
     (case peek b s ''&'' of (p, s1) \<Rightarrow>
      if p then parseline_amps b (backcmd c) (next_pos b s1) else (c, s1))"
  by pat_completeness auto
termination
  by (relation "measure (\<lambda>(b, c, s). length b - s)") (auto dest!: peek_advances)

text \<open>The loop over the arguments and redirections of a command.\<close>

function parseexec_args :: "string \<Rightarrow> cmd \<Rightarrow> nat \<Rightarrow> nat \<Rightarrow> parsed" where
  "parseexec_args b ret argc s =
     (case peek b s ''|)&;'' of (p, s1) \<Rightarrow>
      if p then Parsed ret s1
      else case gettoken b s1 of (tok, q, eq, s2) \<Rightarrow>
        if tok = CHR 0x00 then Parsed ret s2
        else if tok \<noteq> CHR ''a'' then Bad ''syntax''
        else if argc + 1 \<ge> MAXARGS then Bad ''too many args''
        else case parseredirs b (add_arg (q, eq) ret) s2 of
            Parsed ret1 s3 \<Rightarrow> parseexec_args b ret1 (argc + 1) s3
          | Bad e \<Rightarrow> Bad e
          | Fuel \<Rightarrow> Fuel)"
  by pat_completeness auto
termination
  by (relation "measure (\<lambda>(b, ret, argc, s). MAXARGS - argc)") auto

declare parseredirs.simps [simp del] parseline_amps.simps [simp del] parseexec_args.simps [simp del]

fun parseline :: "nat \<Rightarrow> string \<Rightarrow> nat \<Rightarrow> parsed"
  and parsepipe :: "nat \<Rightarrow> string \<Rightarrow> nat \<Rightarrow> parsed"
  and parseexec :: "nat \<Rightarrow> string \<Rightarrow> nat \<Rightarrow> parsed"
  and parseblock :: "nat \<Rightarrow> string \<Rightarrow> nat \<Rightarrow> parsed" where
  "parseline 0 b s = Fuel"
| "parseline (Suc n) b s =
     then_parse (parsepipe n b s) (\<lambda>c s1.
       case parseline_amps b c s1 of (c1, s2) \<Rightarrow>
       case peek b s2 '';'' of (p, s3) \<Rightarrow>
       if p then then_parse (parseline n b (next_pos b s3)) (\<lambda>r s4. Parsed (listcmd c1 r) s4)
       else Parsed c1 s3)"
| "parsepipe 0 b s = Fuel"
| "parsepipe (Suc n) b s =
     then_parse (parseexec n b s) (\<lambda>c s1.
       case peek b s1 ''|'' of (p, s2) \<Rightarrow>
       if p then then_parse (parsepipe n b (next_pos b s2)) (\<lambda>r s3. Parsed (pipecmd c r) s3)
       else Parsed c s2)"
| "parseexec 0 b s = Fuel"
| "parseexec (Suc n) b s =
     (case peek b s ''('' of (p, s1) \<Rightarrow>
      if p then parseblock n b s1
      else then_parse (parseredirs b execcmd s1) (\<lambda>ret s2. parseexec_args b ret 0 s2))"
| "parseblock 0 b s = Fuel"
| "parseblock (Suc n) b s =
     (case peek b s ''('' of (p, s1) \<Rightarrow>
      if \<not> p then Bad ''parseblock''
      else then_parse (parseline n b (next_pos b s1)) (\<lambda>c s2.
        case peek b s2 '')'' of (p, s3) \<Rightarrow>
        if \<not> p then Bad ''syntax - missing )''
        else parseredirs b c (next_pos b s3)))"

definition parsecmd :: "string \<Rightarrow> parsed" where
  "parsecmd b =
     then_parse (parseline (4 * length b + 4) b 0) (\<lambda>c s.
       case peek b s [] of (_, s1) \<Rightarrow>
       if s1 \<noteq> length b then Bad (''leftovers: '' @ drop s1 b @ ''\<newline>syntax'')
       else Parsed c s1)"

text \<open>The buffer here is the line with its NUL.\<close>

primrec nulterminate :: "cmd \<Rightarrow> string \<Rightarrow> string" where
  "nulterminate (EXEC args) buf = foldl (\<lambda>bf (q, eq). bf[eq := CHR 0x00]) buf args"
| "nulterminate (REDIR c f mode fd) buf = (nulterminate c buf)[snd f := CHR 0x00]"
| "nulterminate (PIPE l r) buf = nulterminate r (nulterminate l buf)"
| "nulterminate (LIST l r) buf = nulterminate r (nulterminate l buf)"
| "nulterminate (BACK c) buf = nulterminate c buf"

subsection \<open>Execution\<close>

text \<open>The C string at a position of the buffer.\<close>

definition buf_string :: "string \<Rightarrow> nat \<Rightarrow> string" where
  "buf_string buf q = takeWhile (\<lambda>c. c \<noteq> CHR 0x00) (drop q buf)"

definition sh_panic :: "string \<Rightarrow> ('x, 'a) ufun" where
  "sh_panic m = kseq (fprintf 2 ''%s\<newline>'' [UStr (Some m)]) (uexit 1)"

definition fork1 :: "('x, int) ufun" where
  "fork1 =
     kbind (ucall_int Fork) (\<lambda>pid.
     kseq (kwhen (pid = - 1) (sh_panic ''fork''))
     (kret pid))"

primrec runcmd :: "string \<Rightarrow> cmd \<Rightarrow> ('x, unit) ufun" where
  "runcmd buf (EXEC args) =
     (if args = [] then uexit 1
      else let argv = map (\<lambda>(q, eq). buf_string buf q) args in
        kseq (usys (Exec (hd argv) argv))
        (kseq (fprintf 2 ''exec %s failed\<newline>'' [UStr (Some (hd argv))])
        (uexit 0)))"
| "runcmd buf (REDIR c f mode fd) =
     kseq (usys (Close fd))
     (kbind (ucall_int (Open (buf_string buf (fst f)) mode)) (\<lambda>r.
      if r < 0 then kseq (fprintf 2 ''open %s failed\<newline>'' [UStr (Some (buf_string buf (fst f)))]) (uexit 1)
      else kseq (runcmd buf c) (uexit 0)))"
| "runcmd buf (LIST l r) =
     kbind fork1 (\<lambda>pid.
     kseq (kwhen (pid = 0) (runcmd buf l))
     (kseq (usys Wait0)
     (kseq (runcmd buf r)
     (uexit 0))))"
| "runcmd buf (PIPE l r) =
     kbind upipe (\<lambda>(e, p0, p1).
     kseq (kwhen (e < 0) (sh_panic ''pipe''))
     (kbind fork1 (\<lambda>pid.
      kseq (kwhen (pid = 0)
        (kseq (usys (Close 1)) (kseq (usys (Dup p1)) (kseq (usys (Close p0)) (kseq (usys (Close p1)) (runcmd buf l))))))
      (kbind fork1 (\<lambda>pid.
       kseq (kwhen (pid = 0)
         (kseq (usys (Close 0)) (kseq (usys (Dup p0)) (kseq (usys (Close p0)) (kseq (usys (Close p1)) (runcmd buf r))))))
       (kseq (usys (Close p0))
       (kseq (usys (Close p1))
       (kseq (usys Wait0)
       (kseq (usys Wait0)
       (uexit 0))))))))))"
| "runcmd buf (BACK c) =
     kbind fork1 (\<lambda>pid.
     kseq (kwhen (pid = 0) (runcmd buf c))
     (uexit 0))"

definition sh_getcmd :: "int \<Rightarrow> ('x, int \<times> string) ufun" where
  "sh_getcmd nbuf =
     kseq (uwrite 2 ''$ '')
     (kbind (ugets nbuf) (\<lambda>buf.
      kret (if buf = [] \<or> hd buf = CHR 0x00 then - 1 else 0, buf)))"

text \<open>A round of the loop that opens the console until three descriptors are open.\<close>

definition sh_open_round :: "('x, unit option) ufun" where
  "sh_open_round =
     kbind (ucall_int (Open ''console'' (uint O_RDWR))) (\<lambda>fd.
     if fd < 0 then kret (Some ())
     else if fd \<ge> 3 then kseq (usys (Close fd)) (kret (Some ()))
     else kret None)"

definition sh_child :: "string \<Rightarrow> ('x, unit) ufun" where
  "sh_child line = (case parsecmd line of
      Parsed c s \<Rightarrow> runcmd (nulterminate c (line @ [CHR 0x00])) c
    | Bad e \<Rightarrow> sh_panic e
    | Fuel \<Rightarrow> (\<lambda>s. Diverge))"

text \<open>A round of the main loop; the line is what \<^verbatim>\<open>gets\<close> has left before the first NUL.\<close>

definition sh_round :: "('x, unit option) ufun" where
  "sh_round =
     kbind (sh_getcmd 100) (\<lambda>(r, buf).
     let line = takeWhile (\<lambda>c. c \<noteq> CHR 0x00) buf in
     if r < 0 then kret (Some ())
     else if take 3 line = ''cd '' then
       let dir = drop 3 (butlast line) in
       kbind (ucall_int (Chdir dir)) (\<lambda>r.
       kseq (kwhen (r < 0) (fprintf 2 ''cannot cd %s\<newline>'' [UStr (Some dir)]))
       (kret None))
     else
       kbind fork1 (\<lambda>pid.
       kseq (kwhen (pid = 0) (sh_child line))
       (kseq (usys Wait0)
       (kret None))))"

definition sh_main :: "('x, unit) ufun" where
  "sh_main = kseq (kloop sh_open_round) (kseq (kloop sh_round) (uexit 0))"

subsection \<open>The parser ends\<close>

lemma next_pos_ge: "s \<le> next_pos b s"
proof -
  have "skip_ws b s \<le> snd (token_at b (skip_ws b s))"
  proof (cases "char_at b (skip_ws b s) = CHR 0x00")
    case True
    then show ?thesis by (simp add: token_at_def)
  next
    case False
    then show ?thesis using token_at_advances(1) [of b "skip_ws b s"] by (simp add: skip_ws_idem)
  qed
  then show ?thesis
    using skip_ws_ge [of s b] skip_ws_ge [of "snd (token_at b (skip_ws b s))" b] by (auto simp: gettoken_def Let_def split_beta)
qed

lemma next_pos_le: "s \<le> length b \<Longrightarrow> next_pos b s \<le> length b"
proof -
  assume s: "s \<le> length b"
  have "snd (token_at b (skip_ws b s)) \<le> length b"
  proof (cases "char_at b (skip_ws b s) = CHR 0x00")
    case True
    then show ?thesis using skip_ws_le [OF s] by (simp add: token_at_def)
  next
    case False
    then show ?thesis using token_at_advances(2) [of b "skip_ws b s"] by (simp add: skip_ws_idem)
  qed
  then show ?thesis using skip_ws_le by (auto simp: gettoken_def Let_def split_beta)
qed

lemma peek_pos: "snd (peek b s toks) = skip_ws b s"
  by (simp add: peek_def Let_def)

text \<open>\<open>good P b s r\<close>: the result of a parser function is an error, or a tree with \<open>P\<close> at a position of the line that is not before \<open>s\<close>; in
  particular it has not run out of fuel.\<close>

definition good :: "(cmd \<Rightarrow> bool) \<Rightarrow> string \<Rightarrow> nat \<Rightarrow> parsed \<Rightarrow> bool" where
  "good P b s r = (case r of Parsed c s1 \<Rightarrow> P c \<and> s \<le> s1 \<and> s1 \<le> length b | Bad e \<Rightarrow> True | Fuel \<Rightarrow> False)"

lemma good_simps [simp]:
  "good P b s (Parsed c s1) \<longleftrightarrow> P c \<and> s \<le> s1 \<and> s1 \<le> length b" "good P b s (Bad e)" "\<not> good P b s Fuel"
  by (simp_all add: good_def)

lemma then_parse_Parsed: "then_parse r f = Parsed c s \<longleftrightarrow> (\<exists>c1 s1. r = Parsed c1 s1 \<and> f c1 s1 = Parsed c s)"
  by (cases r) auto

lemma good_then:
  "good P b s r \<Longrightarrow> (\<And>c s1. P c \<Longrightarrow> s \<le> s1 \<Longrightarrow> s1 \<le> length b \<Longrightarrow> good Q b s (f c s1)) \<Longrightarrow> good Q b s (then_parse r f)"
  by (cases r) auto

lemma good_mono: "good P b s1 r \<Longrightarrow> s \<le> s1 \<Longrightarrow> good P b s r"
  by (cases r) auto

lemma peek_cases:
  assumes "s \<le> length b"
  obtains (no) s1 where "peek b s toks = (False, s1)" "s \<le> s1" "s1 \<le> length b"
  | (yes) s1 where "peek b s toks = (True, s1)" "s \<le> s1" "s1 < next_pos b s1" "next_pos b s1 \<le> length b"
proof -
  obtain p s1 where p: "peek b s toks = (p, s1)" by fastforce
  then have s1: "s \<le> s1" "s1 \<le> length b" using assms peek_pos [of b s toks] skip_ws_ge skip_ws_le by auto
  show thesis
  proof (cases p)
    case True
    then have "peek b s toks = (True, s1)" using p by simp
    then show ?thesis using yes s1 peek_true [of b s toks s1] next_pos_advances [of b s1] by blast
  qed (use p s1 no in auto)
qed

lemma parseredirs_cases:
  obtains (stop) s1 where "peek b s ''<>'' = (False, s1)" "parseredirs b c s = Parsed c s1"
  | (bad) "parseredirs b c s = Bad ''missing file for redirection''"
  | (more) s1 tok q0 e0 s2 q eq s3 where "peek b s ''<>'' = (True, s1)" "gettoken b s1 = (tok, q0, e0, s2)"
      "gettoken b s2 = (CHR ''a'', q, eq, s3)" "parseredirs b c s = parseredirs b (parseredirs_switch tok c q eq) s3"
proof -
  obtain p s1 where p: "peek b s ''<>'' = (p, s1)" by fastforce
  obtain tok q0 e0 s2 where g1: "gettoken b s1 = (tok, q0, e0, s2)" by (metis prod_cases4)
  obtain tok2 q eq s3 where g2: "gettoken b s2 = (tok2, q, eq, s3)" by (metis prod_cases4)
  note step = parseredirs.simps [of b c s, unfolded p g1 g2 prod.case]
  consider "p = False" | "p = True" "tok2 \<noteq> CHR ''a''" | "p = True" "tok2 = CHR ''a''" by blast
  then show thesis
  proof cases
    case 1
    show ?thesis by (rule stop [of s1]) (use p step 1 in simp_all)
  next
    case 2
    show ?thesis by (rule bad) (use step 2 in simp)
  next
    case 3
    have "parseredirs b c s = parseredirs b (parseredirs_switch tok c q eq) s3" using step unfolding 3 by simp
    then show ?thesis by (rule more [OF p [unfolded 3(1)] g1 g2 [unfolded 3(2)]])
  qed
qed

text \<open>The properties of trees that the parser keeps: those that each step of the construction keeps, where the strings come from tokens
  of the line. What the parser functions promise of such a property is proved once.\<close>

locale tree_property =
  fixes b :: string and P :: "cmd \<Rightarrow> bool"
  assumes P_exec: "P (EXEC [])"
    and P_arg: "P c \<Longrightarrow> gettoken b s1 = (CHR ''a'', q, eq, s2) \<Longrightarrow> P (add_arg (q, eq) c)"
    and P_redir: "P c \<Longrightarrow> gettoken b s1 = (CHR ''a'', q, eq, s2) \<Longrightarrow> P (REDIR c (q, eq) mode fd)"
    and P_pipe: "P l \<Longrightarrow> P r \<Longrightarrow> P (PIPE l r)"
    and P_list: "P l \<Longrightarrow> P r \<Longrightarrow> P (LIST l r)"
    and P_back: "P c \<Longrightarrow> P (BACK c)"
begin

lemma switch_keeps: "P c \<Longrightarrow> gettoken b s1 = (CHR ''a'', q, eq, s2) \<Longrightarrow> P (parseredirs_switch tok c q eq)"
  by (simp add: parseredirs_switch_def redircmd_def P_redir)

lemma parseredirs_good: "s \<le> length b \<Longrightarrow> P c \<Longrightarrow> good P b s (parseredirs b c s)"
proof (induction "length b - s" arbitrary: c s rule: less_induct)
  case less
  show ?case
  proof (cases rule: parseredirs_cases [of b s c])
    case (stop s1)
    then show ?thesis using less.prems skip_ws_ge skip_ws_le peek_pos [of b s "''<>''"] by auto
  next
    case (more s1 tok q0 e0 s2 q eq s3)
    have "s \<le> s1" "s1 \<le> s2" using peek_true(1) [OF more(1)] next_pos_ge [of s1 b] more(2) by simp_all
    then have s3: "s \<le> s3" "s3 \<le> length b" using gettoken_advances [OF more(3)] by simp_all
    have "length b - s3 < length b - s" by (rule redirection_advances [OF more(1-3) [symmetric]])
    from less.hyps [OF this s3(2) switch_keeps [OF less.prems(2) more(3), of tok]] show ?thesis
      unfolding more(4) by (rule good_mono) (rule s3(1))
  qed auto
qed

lemma parseline_amps_good:
  "s \<le> length b \<Longrightarrow> P c \<Longrightarrow> \<exists>c1 s1. parseline_amps b c s = (c1, s1) \<and> P c1 \<and> s \<le> s1 \<and> s1 \<le> length b"
proof (induction "length b - s" arbitrary: c s rule: less_induct)
  case less
  from less.prems(1) show ?case
  proof (cases rule: peek_cases [of s b "''&''"])
    case (no s1)
    then show ?thesis using less.prems(2) by (auto simp: parseline_amps.simps [of b c s])
  next
    case (yes s1)
    have "length b - next_pos b s1 < length b - s" using yes by simp
    from less.hyps [OF this yes(4) P_back [OF less.prems(2)]] obtain c1 s2 where
      "parseline_amps b (BACK c) (next_pos b s1) = (c1, s2)" "P c1" "next_pos b s1 \<le> s2" "s2 \<le> length b" by blast
    then show ?thesis using yes by (auto simp: parseline_amps.simps [of b c s] backcmd_def)
  qed
qed

lemma parseexec_args_good: "s \<le> length b \<Longrightarrow> P c \<Longrightarrow> good P b s (parseexec_args b c argc s)"
proof (induction "MAXARGS - argc" arbitrary: argc c s rule: less_induct)
  case less
  obtain p s1 where p: "peek b s ''|)&;'' = (p, s1)" by fastforce
  then have s1: "s \<le> s1" "s1 \<le> length b" using less.prems(1) skip_ws_ge skip_ws_le peek_pos [of b s "''|)&;''"] by auto
  obtain tok q eq s2 where g: "gettoken b s1 = (tok, q, eq, s2)" by (metis prod_cases4)
  have s2: "s1 \<le> s2" "s2 \<le> length b" using next_pos_ge [of s1 b] next_pos_le [OF s1(2)] g by simp_all
  note step = parseexec_args.simps [of b c argc s, unfolded p g prod.case]
  show ?case
  proof (cases "p \<or> tok \<noteq> CHR ''a'' \<or> argc + 1 \<ge> MAXARGS")
    case True
    then show ?thesis using step s1 s2 less.prems(2) by auto
  next
    case False
    then have f: "p = False" "tok = CHR ''a''" "\<not> argc + 1 \<ge> MAXARGS" by simp_all
    then have "good P b s2 (parseredirs b (add_arg (q, eq) c) s2)" using parseredirs_good [OF s2(2)] P_arg less.prems(2) g by simp
    moreover have "good P b s (parseexec_args b c1 (argc + 1) s3)" if "P c1" "s2 \<le> s3" "s3 \<le> length b" for c1 s3
    proof (rule good_mono)
      have "MAXARGS - (argc + 1) < MAXARGS - argc" using f(3) by linarith
      from less.hyps [OF this that(3,1)] show "good P b s3 (parseexec_args b c1 (argc + 1) s3)" .
    qed (use s1 s2 that in simp)
    ultimately show ?thesis by (subst step) (simp add: f good_def [of P b s2] split: parsed.splits)
  qed
qed

text \<open>The four functions that call each other. \<open>line_ok\<close> to \<open>block_ok\<close> say how much fuel is enough: a call that has not consumed a
  character since \<open>parseline\<close> goes to the next function of the list, and one that has leaves fuel for the whole list.\<close>

abbreviation line_ok :: "nat \<Rightarrow> bool" where
  "line_ok n \<equiv> (\<forall>s \<le> length b. 4 * (length b - s) + 4 \<le> n \<longrightarrow> good P b s (parseline n b s))"

abbreviation pipe_ok :: "nat \<Rightarrow> bool" where
  "pipe_ok n \<equiv> (\<forall>s \<le> length b. 4 * (length b - s) + 3 \<le> n \<longrightarrow> good P b s (parsepipe n b s))"

abbreviation exec_ok :: "nat \<Rightarrow> bool" where
  "exec_ok n \<equiv> (\<forall>s \<le> length b. 4 * (length b - s) + 2 \<le> n \<longrightarrow> good P b s (parseexec n b s))"

abbreviation block_ok :: "nat \<Rightarrow> bool" where
  "block_ok n \<equiv> (\<forall>s \<le> length b. 4 * (length b - s) + 1 \<le> n \<longrightarrow> good P b s (parseblock n b s))"

lemma line_ok_Suc:
  assumes "pipe_ok n" "line_ok n"
  shows "line_ok (Suc n)"
proof (intro allI impI)
  fix s assume s: "s \<le> length b" "4 * (length b - s) + 4 \<le> Suc n"
  then have "good P b s (parsepipe n b s)" using assms(1) by simp
  then show "good P b s (parseline (Suc n) b s)"
    unfolding parseline.simps
  proof (rule good_then)
    fix c s1 assume c: "P c" "s \<le> s1" "s1 \<le> length b"
    obtain c1 s2 where a: "parseline_amps b c s1 = (c1, s2)" "P c1" "s1 \<le> s2" "s2 \<le> length b"
      using parseline_amps_good [OF c(3,1)] by blast
    show "good P b s (case parseline_amps b c s1 of (c1, s2) \<Rightarrow> case peek b s2 '';'' of (p, s3) \<Rightarrow>
        if p then then_parse (parseline n b (next_pos b s3)) (\<lambda>r s4. Parsed (listcmd c1 r) s4) else Parsed c1 s3)"
      using a(4)
    proof (cases rule: peek_cases [of s2 b "'';''"])
      case (yes s3)
      have "good P b (next_pos b s3) (parseline n b (next_pos b s3))" using assms(2) yes s a c by auto
      then have "good P b (next_pos b s3) (then_parse (parseline n b (next_pos b s3)) (\<lambda>r s4. Parsed (listcmd c1 r) s4))"
        by (rule good_then) (use a P_list in \<open>auto simp: listcmd_def\<close>)
      then show ?thesis using yes a c by (auto elim: good_mono)
    qed (use a c in auto)
  qed
qed

lemma pipe_ok_Suc:
  assumes "exec_ok n" "pipe_ok n"
  shows "pipe_ok (Suc n)"
proof (intro allI impI)
  fix s assume s: "s \<le> length b" "4 * (length b - s) + 3 \<le> Suc n"
  then have "good P b s (parseexec n b s)" using assms(1) by simp
  then show "good P b s (parsepipe (Suc n) b s)"
    unfolding parsepipe.simps
  proof (rule good_then)
    fix c s1 assume c: "P c" "s \<le> s1" "s1 \<le> length b"
    show "good P b s (case peek b s1 ''|'' of (p, s2) \<Rightarrow>
        if p then then_parse (parsepipe n b (next_pos b s2)) (\<lambda>r s3. Parsed (pipecmd c r) s3) else Parsed c s2)"
      using c(3)
    proof (cases rule: peek_cases [of s1 b "''|''"])
      case (yes s2)
      have "good P b (next_pos b s2) (parsepipe n b (next_pos b s2))" using assms(2) yes s c by auto
      then have "good P b (next_pos b s2) (then_parse (parsepipe n b (next_pos b s2)) (\<lambda>r s3. Parsed (pipecmd c r) s3))"
        by (rule good_then) (use c P_pipe in \<open>auto simp: pipecmd_def\<close>)
      then show ?thesis using yes c by (auto elim: good_mono)
    qed (use c in auto)
  qed
qed

lemma exec_ok_Suc:
  assumes "block_ok n"
  shows "exec_ok (Suc n)"
proof (intro allI impI)
  fix s assume s: "s \<le> length b" "4 * (length b - s) + 2 \<le> Suc n"
  from s(1) show "good P b s (parseexec (Suc n) b s)"
  proof (cases rule: peek_cases [of s b "''(''"])
    case (no s1)
    have "good P b s1 (then_parse (parseredirs b execcmd s1) (\<lambda>ret s2. parseexec_args b ret 0 s2))"
    proof (rule good_then [OF parseredirs_good])
      fix c s2 assume "P c" "s1 \<le> s2" "s2 \<le> length b"
      then show "good P b s1 (parseexec_args b c 0 s2)" by (intro good_mono [OF parseexec_args_good])
    qed (use no P_exec in \<open>auto simp: execcmd_def\<close>)
    then show ?thesis using no by (auto elim: good_mono)
  next
    case (yes s1)
    then have "good P b s1 (parseblock n b s1)" using assms s by simp
    then show ?thesis using yes by (auto elim: good_mono)
  qed
qed

lemma block_ok_Suc:
  assumes "line_ok n"
  shows "block_ok (Suc n)"
proof (intro allI impI)
  fix s assume s: "s \<le> length b" "4 * (length b - s) + 1 \<le> Suc n"
  from s(1) show "good P b s (parseblock (Suc n) b s)"
  proof (cases rule: peek_cases [of s b "''(''"])
    case (yes s1)
    then have "good P b (next_pos b s1) (parseline n b (next_pos b s1))" using assms s by auto
    then have "good P b (next_pos b s1) (then_parse (parseline n b (next_pos b s1)) (\<lambda>c s2.
        case peek b s2 '')'' of (p, s3) \<Rightarrow> if \<not> p then Bad ''syntax - missing )'' else parseredirs b c (next_pos b s3)))"
    proof (rule good_then)
      fix c s2 assume c: "P c" "next_pos b s1 \<le> s2" "s2 \<le> length b"
      show "good P b (next_pos b s1) (case peek b s2 '')'' of (p, s3) \<Rightarrow>
          if \<not> p then Bad ''syntax - missing )'' else parseredirs b c (next_pos b s3))"
        using c(3)
      proof (cases rule: peek_cases [of s2 b "'')''"])
        case (yes s3)
        then show ?thesis using parseredirs_good [OF yes(4) c(1)] c by (auto elim: good_mono)
      qed auto
    qed
    then show ?thesis using yes by (auto elim: good_mono)
  qed auto
qed

lemma all_ok: "line_ok n \<and> pipe_ok n \<and> exec_ok n \<and> block_ok n"
proof (induction n)
  case (Suc n)
  from Suc have "line_ok n" by (rule conjunct1)
  moreover from Suc have "pipe_ok n" by (rule conjunct1 [OF conjunct2])
  moreover from Suc have "exec_ok n" by (rule conjunct1 [OF conjunct2 [OF conjunct2]])
  moreover from Suc have "block_ok n" by (rule conjunct2 [OF conjunct2 [OF conjunct2]])
  ultimately show ?case by (intro conjI line_ok_Suc pipe_ok_Suc exec_ok_Suc block_ok_Suc)
qed simp

lemma parsecmd_good: "good P b 0 (parsecmd b)"
proof -
  have "good P b 0 (parseline (4 * length b + 4) b 0)" using all_ok [of "4 * length b + 4"] by simp
  then show ?thesis
    unfolding parsecmd_def
  proof (rule good_then)
    fix c s1 assume "P c" "s1 \<le> length b"
    then show "good P b 0 (case peek b s1 [] of (_, s2) \<Rightarrow>
        if s2 \<noteq> length b then Bad (''leftovers: '' @ drop s2 b @ ''\<newline>syntax'') else Parsed c s2)"
      by (cases "peek b s1 []") simp
  qed
qed

end

interpretation any_tree: tree_property b "\<lambda>_. True" for b
  by unfold_locales simp_all

text \<open>C17: parsing ends. On every line \<open>parsecmd\<close> gives a tree or one of its error messages; the recursion never runs out of the fuel
  of the model, four calls for each character of the line and four more.\<close>

theorem parsecmd_terminates: "(\<exists>c. parsecmd b = Parsed c (length b)) \<or> (\<exists>e. parsecmd b = Bad e)"
proof -
  have "parsecmd b \<noteq> Fuel" using any_tree.parsecmd_good [of b] by auto
  moreover have "s = length b" if "parsecmd b = Parsed c s" for c s
    using that unfolding parsecmd_def then_parse_Parsed split_beta by (auto split: if_splits)
  ultimately show ?thesis by (cases "parsecmd b") auto
qed

subsection \<open>The strings of a tree\<close>

text \<open>A word of the line: a longest run of characters that are neither whitespace nor symbols.\<close>

definition is_word :: "string \<Rightarrow> span \<Rightarrow> bool" where
  "is_word b sp = (case sp of (q, e) \<Rightarrow>
     q < e \<and> e \<le> length b \<and> (\<forall>i. q \<le> i \<and> i < e \<longrightarrow> b ! i \<notin> set whitespace \<union> set symbols) \<and>
     (e < length b \<longrightarrow> b ! e \<in> set whitespace \<union> set symbols))"

primrec spans :: "cmd \<Rightarrow> span list" where
  "spans (EXEC args) = args"
| "spans (REDIR c f mode fd) = spans c @ [f]"
| "spans (PIPE l r) = spans l @ spans r"
| "spans (LIST l r) = spans l @ spans r"
| "spans (BACK c) = spans c"

lemma skip_word_chars: "s \<le> i \<Longrightarrow> i < skip_word b s \<Longrightarrow> b ! i \<notin> set whitespace \<union> set symbols"
proof (induction b s rule: skip_word.induct)
  case (1 b s)
  show ?case
  proof (cases "s < length b \<and> strchr whitespace (b ! s) = None \<and> strchr symbols (b ! s) = None")
    case True
    then have "skip_word b s = skip_word b (Suc s)" by (subst skip_word.simps) simp
    then show ?thesis using 1 True by (cases "i = s") (auto simp: strchr_None)
  next
    case False
    then have "skip_word b s = s" by (subst skip_word.simps) auto
    then show ?thesis using 1 by simp
  qed
qed

lemma skip_word_stop: "skip_word b s < length b \<Longrightarrow> b ! skip_word b s \<in> set whitespace \<union> set symbols"
proof (induction b s rule: skip_word.induct)
  case (1 b s)
  show ?case
  proof (cases "s < length b \<and> strchr whitespace (b ! s) = None \<and> strchr symbols (b ! s) = None")
    case True
    then have "skip_word b s = skip_word b (Suc s)" by (subst skip_word.simps) simp
    then show ?thesis using 1 True by simp
  next
    case False
    then have "skip_word b s = s" by (subst skip_word.simps) auto
    then show ?thesis using 1(2) False by (auto simp: strchr_None)
  qed
qed

lemma gettoken_word:
  assumes "gettoken b s = (CHR ''a'', q, e, s')"
  shows "is_word b (q, e)"
proof -
  have g: "token_at b q = (CHR ''a'', e)"
    using assms by (auto simp: gettoken_def Let_def split: prod.splits)
  have "e = skip_word b q" using g by (auto simp: token_at_def Let_def split: if_splits)
  then show ?thesis
    using gettoken_advances [OF assms] skip_word_chars [of q _ b] skip_word_stop [of b q] by (auto simp: is_word_def)
qed

lemma spans_add_arg: "set (spans (add_arg sp c)) \<subseteq> insert sp (set (spans c))"
  by (induction c) auto

interpretation word_tree: tree_property b "\<lambda>c. \<forall>sp \<in> set (spans c). is_word b sp" for b
proof
  fix c s1 q eq s2 assume "\<forall>sp \<in> set (spans c). is_word b sp" "gettoken b s1 = (CHR ''a'', q, eq, s2)"
  then show "\<forall>sp \<in> set (spans (add_arg (q, eq) c)). is_word b sp" using spans_add_arg [of "(q, eq)" c] gettoken_word by blast
qed (auto simp: gettoken_word)

lemma nulterminate_length [simp]: "length (nulterminate c buf) = length buf"
proof (induction c arbitrary: buf)
  case (EXEC args)
  then show ?case by (induction args arbitrary: buf) (auto simp: split_beta)
qed auto

lemma foldl_ends:
  "i < length buf \<Longrightarrow> foldl (\<lambda>bf (q, eq). bf[eq := CHR 0x00]) buf args ! i = (if i \<in> snd ` set args then CHR 0x00 else buf ! i)"
  by (induction args arbitrary: buf) (auto simp: split_beta nth_list_update)

lemma nulterminate_nth:
  "i < length buf \<Longrightarrow> nulterminate c buf ! i = (if i \<in> snd ` set (spans c) then CHR 0x00 else buf ! i)"
proof (induction c arbitrary: buf)
  case (REDIR c f mode fd)
  then show ?case by (cases "i = snd f") simp_all
qed (auto simp: foldl_ends)

text \<open>C35: the strings of a parsed command. Every argument and file name of the tree is a word of the line, and after \<open>nulterminate\<close> the C
  string at its begin is exactly that word: the NULs that end the words overwrite no character of another word.\<close>

theorem nulterminate_keeps_words:
  assumes "parsecmd b = Parsed c s" "CHR 0x00 \<notin> set b" "(q, e) \<in> set (spans c)"
  shows "is_word b (q, e) \<and> buf_string (nulterminate c (b @ [CHR 0x00])) q = take (e - q) (drop q b)"
proof -
  have w: "\<forall>sp \<in> set (spans c). is_word b sp" using word_tree.parsecmd_good [of b] assms(1) by simp
  then have qe: "is_word b (q, e)" using assms(3) by blast
  let ?buf = "nulterminate c (b @ [CHR 0x00])"
  have keep: "?buf ! i = b ! i" if "q \<le> i" "i < e" for i
  proof -
    have "i \<notin> snd ` set (spans c)"
    proof
      assume "i \<in> snd ` set (spans c)"
      then obtain q' where "is_word b (q', i)" using w by auto
      then show False using qe that by (auto simp: is_word_def)
    qed
    then show ?thesis using that qe by (simp add: nulterminate_nth nth_append is_word_def)
  qed
  have e: "?buf ! e = CHR 0x00" using assms(3) qe by (auto simp: nulterminate_nth is_word_def image_iff)
  have l: "q < e" "e \<le> length b" using qe by (simp_all add: is_word_def)
  have "buf_string ?buf q = take (e - q) (drop q ?buf)"
    unfolding buf_string_def
  proof (rule takeWhile_eq_take_P_nth)
    show "drop q ?buf ! i \<noteq> CHR 0x00" if "i < e - q" for i
    proof -
      have "q + i < e" "q + i < length b" using that l by auto
      then show ?thesis using l keep [of "q + i"] assms(2) nth_mem [of "q + i" b] by (auto simp del: nth_mem)
    qed
  qed (use l e in auto)
  also have "\<dots> = take (e - q) (drop q b)"
    by (rule nth_equalityI) (use l keep in auto)
  finally show ?thesis using qe by blast
qed

theorem nulterminate_keeps_words_witness:
  "is_word ''wc a >f'' (6, 7) \<and> buf_string (nulterminate (REDIR (EXEC [(0, 2), (3, 4)]) (6, 7) 1537 1) (''wc a >f'' @ [CHR 0x00])) 6 = ''f''"
proof -
  have "parsecmd ''wc a >f'' = Parsed (REDIR (EXEC [(0, 2), (3, 4)]) (6, 7) 1537 1) 7" by code_simp
  from nulterminate_keeps_words [OF this, of 6 7] show ?thesis by simp
qed

subsection \<open>Printing and parsing\<close>

text \<open>Commands with their strings, and the command that a tree of positions stands for.\<close>

datatype direction = Input | Output | Append

datatype command =
    Simple "string list"
  | Redirect command direction string
  | Pipeline command command
  | Sequence command command
  | Background command

definition text_at :: "string \<Rightarrow> span \<Rightarrow> string" where
  "text_at b sp = take (snd sp - fst sp) (drop (fst sp) b)"

primrec open_mode :: "direction \<Rightarrow> int" where
  "open_mode Input = O_RDONLY"
| "open_mode Output = uint (O_WRONLY OR O_CREATE OR O_TRUNC)"
| "open_mode Append = uint (O_WRONLY OR O_CREATE)"

primrec redirected_fd :: "direction \<Rightarrow> int" where
  "redirected_fd Input = 0"
| "redirected_fd Output = 1"
| "redirected_fd Append = 1"

fun denotes :: "string \<Rightarrow> cmd \<Rightarrow> command \<Rightarrow> bool" where
  "denotes b (EXEC args) (Simple ws) \<longleftrightarrow> map (text_at b) args = ws"
| "denotes b (REDIR t f mode fd) (Redirect c d w) \<longleftrightarrow>
     denotes b t c \<and> text_at b f = w \<and> mode = open_mode d \<and> fd = redirected_fd d"
| "denotes b (PIPE t u) (Pipeline c d) \<longleftrightarrow> denotes b t c \<and> denotes b u d"
| "denotes b (LIST t u) (Sequence c d) \<longleftrightarrow> denotes b t c \<and> denotes b u d"
| "denotes b (BACK t) (Background c) \<longleftrightarrow> denotes b t c"
| "denotes b t c \<longleftrightarrow> False"

fun join_words :: "string list \<Rightarrow> string" where
  "join_words [] = []"
| "join_words [w] = w"
| "join_words (w # ws) = w @ CHR '' '' # join_words ws"

primrec show_direction :: "direction \<Rightarrow> string" where
  "show_direction Input = ''<''"
| "show_direction Output = ''>''"
| "show_direction Append = ''>>''"

primrec show_command :: "command \<Rightarrow> string" where
  "show_command (Simple ws) = join_words ws"
| "show_command (Redirect c d w) = ''('' @ show_command c @ '')'' @ show_direction d @ w"
| "show_command (Pipeline c d) = ''('' @ show_command c @ '')|('' @ show_command d @ '')''"
| "show_command (Sequence c d) = ''('' @ show_command c @ '');('' @ show_command d @ '')''"
| "show_command (Background c) = ''('' @ show_command c @ '')&''"

definition word_char :: "char \<Rightarrow> bool" where
  "word_char c \<longleftrightarrow> c \<notin> set whitespace \<and> c \<notin> set symbols \<and> c \<noteq> CHR 0x00"

definition good_word :: "string \<Rightarrow> bool" where
  "good_word w \<longleftrightarrow> w \<noteq> [] \<and> list_all word_char w"

primrec printable :: "command \<Rightarrow> bool" where
  "printable (Simple ws) \<longleftrightarrow> list_all good_word ws \<and> length ws < MAXARGS"
| "printable (Redirect c d w) \<longleftrightarrow> printable c \<and> good_word w"
| "printable (Pipeline c d) \<longleftrightarrow> printable c \<and> printable d"
| "printable (Sequence c d) \<longleftrightarrow> printable c \<and> printable d"
| "printable (Background c) \<longleftrightarrow> printable c"

text \<open>What the functions see at a position, by the rest of the line from there.\<close>

abbreviation not_ws :: "string \<Rightarrow> bool" where
  "not_ws r \<equiv> r = [] \<or> hd r \<notin> set whitespace"

lemma at_rest: "drop s b = c # r \<Longrightarrow> s < length b \<and> b ! s = c \<and> drop (Suc s) b = r"
  by (metis Cons_nth_drop_Suc drop_eq_Nil leI list.distinct(1) list.inject)

lemma skip_ws_here: "drop s b = r \<Longrightarrow> not_ws r \<Longrightarrow> skip_ws b s = s"
  by (cases r) (auto simp: skip_ws_end skip_ws_id dest: at_rest)

lemma char_at_rest: "drop s b = r \<Longrightarrow> char_at b s = (if r = [] then CHR 0x00 else hd r)"
  by (cases r) (auto simp: char_at_def dest: at_rest)

lemma peek_rest:
  assumes "drop s b = r" "not_ws r"
  shows "peek b s toks = (r \<noteq> [] \<and> hd r \<noteq> CHR 0x00 \<and> hd r \<in> set toks, s)"
  using char_at_rest [OF assms(1)] skip_ws_here [OF assms] by (auto simp: peek_def Let_def strchr_None)

lemma gettoken_end: "drop s b = [] \<Longrightarrow> gettoken b s = (CHR 0x00, s, s, s)"
  by (simp add: gettoken_def token_at_def char_at_def skip_ws_end)

lemma next_pos_symbol:
  assumes "drop s b = c # r" "c \<in> set ''|();&<''" "not_ws r"
  shows "next_pos b s = Suc s" "gettoken b s = (c, s, Suc s, Suc s)"
proof -
  have "c \<notin> set whitespace" "c \<noteq> CHR 0x00" using assms(2) by (auto simp: whitespace_def)
  then show "gettoken b s = (c, s, Suc s, Suc s)"
    using assms skip_ws_here [OF assms(1)] char_at_rest [OF assms(1)] at_rest [OF assms(1)] skip_ws_here [of "Suc s" b r]
    by (simp add: gettoken_def token_at_def Let_def)
  then show "next_pos b s = Suc s" by simp
qed

lemma skip_word_here:
  "drop s b = w @ r \<Longrightarrow> list_all word_char w \<Longrightarrow> r = [] \<or> hd r \<in> set whitespace \<union> set symbols \<Longrightarrow> skip_word b s = s + length w"
proof (induction w arbitrary: s)
  case Nil
  then show ?case by (cases r) (auto simp: skip_word.simps [of b s] strchr_None dest: at_rest)
next
  case (Cons c w)
  then have "s < length b" "b ! s = c" "drop (Suc s) b = w @ r" using at_rest [of s b c "w @ r"] by simp_all
  then show ?case using Cons by (subst skip_word.simps) (simp add: strchr_None word_char_def)
qed

lemma gettoken_here:
  assumes "drop s b = w @ r" "good_word w" "r = [] \<or> hd r \<in> set whitespace \<union> set symbols"
  shows "gettoken b s = (CHR ''a'', s, s + length w, skip_ws b (s + length w))"
proof -
  obtain c w' where w: "w = c # w'" "word_char c" using assms(2) by (cases w) (auto simp: good_word_def)
  then have "char_at b s = c" "skip_ws b s = s"
    using char_at_rest [OF assms(1)] skip_ws_here [OF assms(1)] by (auto simp: word_char_def)
  moreover have "skip_word b s = s + length w" using skip_word_here assms by (simp add: good_word_def)
  moreover have "c \<noteq> CHR 0x00" "c \<notin> set ''|();&<''" "c \<noteq> CHR ''>''" using w(2) by (auto simp: word_char_def symbols_def)
  ultimately show ?thesis by (simp add: gettoken_def token_at_def Let_def)
qed

abbreviation stops :: "string \<Rightarrow> bool" where
  "stops r \<equiv> r = [] \<or> hd r = CHR '')''"

lemma stops_facts:
  assumes "stops r"
  shows "not_ws r" "r = [] \<or> hd r \<in> set whitespace \<union> set symbols" "r \<noteq> [] \<Longrightarrow> hd r \<noteq> CHR 0x00"
  using assms by (auto simp: whitespace_def symbols_def)

lemma parseredirs_none:
  assumes "drop s b = r" "not_ws r" "r = [] \<or> hd r \<notin> set ''<>''"
  shows "parseredirs b c s = Parsed c s"
  using peek_rest [OF assms(1,2), of "''<>''"] assms(3) by (subst parseredirs.simps) auto

lemma good_word_first:
  assumes "good_word w"
  shows "w @ r \<noteq> []" "hd (w @ r) \<notin> set whitespace" "hd (w @ r) \<notin> set symbols" "hd (w @ r) \<noteq> CHR 0x00"
  using assms by (auto simp: good_word_def word_char_def neq_Nil_conv)

lemma join_words_Cons: "join_words (w # ws) = w @ (if ws = [] then [] else CHR '' '' # join_words ws)"
  by (cases ws) simp_all

lemma join_words_first:
  assumes "list_all good_word ws" "stops r"
  shows "not_ws (join_words ws @ r)" "join_words ws @ r = [] \<or> hd (join_words ws @ r) \<notin> set ''<>(''"
proof -
  have "not_ws (join_words ws @ r) \<and> (join_words ws @ r = [] \<or> hd (join_words ws @ r) \<notin> set ''<>('')"
  proof (cases ws)
    case Nil
    then show ?thesis using assms(2) stops_facts(1) [OF assms(2)] by auto
  next
    case (Cons w ws')
    then have "good_word w" using assms(1) by simp
    from good_word_first [OF this] show ?thesis using Cons by (auto simp: join_words_Cons symbols_def)
  qed
  then show "not_ws (join_words ws @ r)" "join_words ws @ r = [] \<or> hd (join_words ws @ r) \<notin> set ''<>(''" by blast+
qed

lemma drop_append_rest: "drop s b = w @ r \<Longrightarrow> drop (s + length w) b = r"
  by (metis add.commute append_eq_conv_conj drop_drop)

lemma parseexec_args_words:
  assumes "drop s b = join_words ws @ r" "stops r" "list_all good_word ws" "argc + length ws < MAXARGS"
  shows "\<exists>sps. parseexec_args b (EXEC args) argc s = Parsed (EXEC (args @ sps)) (s + length (join_words ws)) \<and> map (text_at b) sps = ws"
  using assms
proof (induction ws arbitrary: s argc args)
  case Nil
  then have r: "drop s b = r" by simp
  show ?case
    using peek_rest [OF r stops_facts(1) [OF Nil(2)], of "''|)&;''"] gettoken_end [of s b] Nil(2) r
    by (subst parseexec_args.simps) (cases r, auto)
next
  case (Cons w ws)
  let ?rest = "(if ws = [] then [] else CHR '' '' # join_words ws) @ r" and ?e = "s + length w"
  have d: "drop s b = w @ ?rest" using Cons.prems(1) by (simp add: join_words_Cons)
  have w: "good_word w" using Cons.prems(3) by simp
  note first = good_word_first [OF w, of ?rest]
  have p: "peek b s ''|)&;'' = (False, s)" using peek_rest [OF d, of "''|)&;''"] first by (auto simp: symbols_def)
  have "?rest = [] \<or> hd ?rest \<in> set whitespace \<union> set symbols" using stops_facts(2) [OF Cons.prems(2)] by (auto simp: whitespace_def)
  from gettoken_here [OF d w this] have g: "gettoken b s = (CHR ''a'', s, ?e, skip_ws b ?e)" .
  define s2 where "s2 = ?e + (if ws = [] then 0 else 1)"
  have d2: "drop s2 b = join_words ws @ r"
    using drop_append_rest [OF d] by (auto simp: s2_def drop_append_rest dest: at_rest split: if_splits)
  have nw: "not_ws (join_words ws @ r)" "join_words ws @ r = [] \<or> hd (join_words ws @ r) \<notin> set ''<>''"
    using join_words_first [of ws r] Cons.prems(2,3) by auto
  have sk: "skip_ws b ?e = s2"
  proof (cases "ws = []")
    case True
    then show ?thesis using skip_ws_here [OF d2 nw(1)] by (simp add: s2_def)
  next
    case False
    then have "drop ?e b = CHR '' '' # join_words ws @ r" using drop_append_rest [OF d] by simp
    from at_rest [OF this] have "skip_ws b ?e = skip_ws b (Suc ?e)" by (subst skip_ws.simps) (simp add: strchr_None whitespace_def)
    then show ?thesis using skip_ws_here [OF d2 nw(1)] False by (simp add: s2_def)
  qed
  have pr: "parseredirs b c s2 = Parsed c s2" for c using parseredirs_none [OF d2 nw] .
  have "parseexec_args b (EXEC args) argc s = parseexec_args b (EXEC (args @ [(s, ?e)])) (argc + 1) s2"
    using Cons.prems(4) by (subst parseexec_args.simps) (simp add: p g sk pr)
  moreover have "text_at b (s, ?e) = w" using d by (simp add: text_at_def)
  moreover have "s2 + length (join_words ws) = s + length (join_words (w # ws))" by (simp add: s2_def join_words_Cons)
  moreover obtain sps where "parseexec_args b (EXEC (args @ [(s, ?e)])) (argc + 1) s2 =
      Parsed (EXEC ((args @ [(s, ?e)]) @ sps)) (s2 + length (join_words ws))" "map (text_at b) sps = ws"
    using Cons.IH [OF d2 Cons.prems(2), of "argc + 1" "args @ [(s, ?e)]"] Cons.prems(3,4) by auto
  ultimately show ?case by (intro exI [of _ "(s, ?e) # sps"]) simp
qed

text \<open>A printed command at a position: with enough fuel \<open>parseline\<close> gives its tree and stops behind it.\<close>

definition parses :: "command \<Rightarrow> bool" where
  "parses c \<longleftrightarrow> (\<forall>b s r n. drop s b = show_command c @ r \<longrightarrow> s \<le> length b \<longrightarrow> stops r \<longrightarrow> 4 * (length b - s) + 4 \<le> n \<longrightarrow>
     (\<exists>t. parseline n b s = Parsed t (s + length (show_command c)) \<and> denotes b t c))"

lemma show_command_first:
  assumes "printable c" "stops r"
  shows "not_ws (show_command c @ r)"
  using assms join_words_first(1) [of _ r] by (cases c) (auto simp: whitespace_def)

lemma parsesD:
  assumes "parses c" "drop s b = show_command c @ r" "s \<le> length b" "stops r" "4 * (length b - s) + 4 \<le> n"
  obtains t where "parseline n b s = Parsed t (s + length (show_command c))" "denotes b t c"
  using assms unfolding parses_def by blast

lemma parseexec_block:
  assumes "parses c" "printable c" "drop s b = CHR ''('' # show_command c @ CHR '')'' # r" "not_ws r" "4 * (length b - s) + 2 \<le> n"
  obtains t where "parseexec n b s = parseredirs b t (s + length (show_command c) + 2)" "denotes b t c"
    "drop (s + length (show_command c) + 2) b = r"
proof -
  let ?L = "length (show_command c)"
  define n2 where "n2 = n - 2"
  then have n: "n = Suc (Suc n2)" using assms(5) by simp
  have s: "s < length b" and d1: "drop (Suc s) b = show_command c @ CHR '')'' # r" using at_rest [OF assms(3)] by simp_all
  have nw: "not_ws (show_command c @ CHR '')'' # r)" by (rule show_command_first [OF assms(2)]) simp
  have p: "peek b s ''('' = (True, s)" using peek_rest [OF assms(3)] by (simp add: whitespace_def)
  have np: "next_pos b s = Suc s" using next_pos_symbol(1) [OF assms(3) _ nw] by simp
  have "4 * (length b - Suc s) + 4 \<le> n2" using assms(5) s unfolding n by simp
  from parsesD [OF assms(1) d1 _ _ this] s obtain t where t: "parseline n2 b (Suc s) = Parsed t (Suc s + ?L)" "denotes b t c" by auto
  have d2: "drop (Suc s + ?L) b = CHR '')'' # r" using drop_append_rest [OF d1] .
  then have p2: "peek b (Suc s + ?L) '')'' = (True, Suc s + ?L)" using peek_rest [OF d2] by (simp add: whitespace_def)
  have np2: "next_pos b (Suc s + ?L) = Suc (Suc s + ?L)" using next_pos_symbol(1) [OF d2 _ assms(4)] by simp
  show thesis
  proof (rule that [OF _ t(2)])
    show "parseexec n b s = parseredirs b t (s + ?L + 2)"
      unfolding n by (simp add: p np t(1) p2 [simplified] np2 [simplified])
    show "drop (s + ?L + 2) b = r" using at_rest [OF d2] by simp
  qed
qed

text \<open>A command in parentheses as a whole pipeline or as a part of one.\<close>

lemma parsepipe_block:
  assumes "parses c" "printable c" "drop s b = CHR ''('' # show_command c @ CHR '')'' # r" "r = [] \<or> hd r \<in> set '');&''"
    and "4 * (length b - s) + 3 \<le> n"
  obtains t where "parsepipe n b s = Parsed t (s + length (show_command c) + 2)" "denotes b t c"
    "drop (s + length (show_command c) + 2) b = r"
proof -
  let ?e = "s + length (show_command c) + 2"
  obtain n1 where n: "n = Suc n1" "4 * (length b - s) + 2 \<le> n1" using assms(5) by (cases n) auto
  have nw: "not_ws r" using assms(4) by (auto simp: whitespace_def)
  obtain t where t: "parseexec n1 b s = parseredirs b t ?e" "denotes b t c" "drop ?e b = r"
    using parseexec_block [OF assms(1,2,3) nw n(2)] .
  have "parseredirs b t ?e = Parsed t ?e" by (rule parseredirs_none [OF t(3) nw]) (use assms(4) in auto)
  moreover have "peek b ?e ''|'' = (False, ?e)" using peek_rest [OF t(3) nw, of "''|''"] assms(4) by auto
  ultimately have "parsepipe n b s = Parsed t ?e" unfolding n(1) parsepipe.simps by (simp only: t(1) then_parse.simps prod.case if_False)
  then show thesis using that t(2,3) by blast
qed

lemma after_pipe:
  assumes "parsepipe n b s = Parsed t e" "drop e b = r" "stops r"
  shows "parseline (Suc n) b s = Parsed t e"
proof -
  note nw = stops_facts(1) [OF assms(3)]
  have "peek b e ''&'' = (False, e)" "peek b e '';'' = (False, e)"
    using peek_rest [OF assms(2) nw, of "''&''"] peek_rest [OF assms(2) nw, of "'';''"] assms(3) by auto
  moreover from this have "parseline_amps b t e = (t, e)" by (subst parseline_amps.simps) simp
  ultimately show ?thesis using assms(1) by simp
qed

lemma parses_Simple: "printable (Simple ws) \<Longrightarrow> parses (Simple ws)"
  unfolding parses_def
proof (intro allI impI)
  fix b s r n
  assume a: "printable (Simple ws)" "drop s b = show_command (Simple ws) @ r" "s \<le> length b" "stops r" "4 * (length b - s) + 4 \<le> n"
  define n1 where "n1 = n - 3"
  then have n: "n = Suc (Suc (Suc n1))" using a(5) by simp
  have d: "drop s b = join_words ws @ r" using a(2) by simp
  note first = join_words_first [of ws r]
  have ws: "list_all good_word ws" "0 + length ws < MAXARGS" using a(1) by simp_all
  have p: "peek b s ''('' = (False, s)" using peek_rest [OF d, of "''(''"] first [OF ws(1) a(4)] by auto
  have pr: "parseredirs b execcmd s = Parsed (EXEC []) s"
    unfolding execcmd_def by (rule parseredirs_none [OF d]) (use first [OF ws(1) a(4)] in auto)
  obtain sps where e: "parseexec_args b (EXEC []) 0 s = Parsed (EXEC sps) (s + length (join_words ws))" "map (text_at b) sps = ws"
    using parseexec_args_words [OF d a(4) ws, of "[]"] by auto
  let ?e = "s + length (join_words ws)"
  have de: "drop ?e b = r" by (rule drop_append_rest [OF d])
  have "peek b ?e ''|'' = (False, ?e)" using peek_rest [OF de stops_facts(1) [OF a(4)], of "''|''"] a(4) by auto
  then have "parsepipe (Suc (Suc n1)) b s = Parsed (EXEC sps) ?e" using p pr e(1) by simp
  from after_pipe [OF this de a(4)] show "\<exists>t. parseline n b s = Parsed t (s + length (show_command (Simple ws))) \<and> denotes b t (Simple ws)"
    using e(2) unfolding n by (intro exI [of _ "EXEC sps"]) simp
qed

lemma gettoken_direction:
  assumes "drop e b = show_direction d @ w @ r" "good_word w"
  obtains tok where "gettoken b e = (tok, e, e + length (show_direction d), e + length (show_direction d))"
    "\<And>t q f. parseredirs_switch tok t q f = REDIR t (q, f) (open_mode d) (redirected_fd d)"
proof -
  have d2: "drop (e + length (show_direction d)) b = w @ r" using drop_append_rest [OF assms(1)] .
  have sk: "skip_ws b (e + length (show_direction d)) = e + length (show_direction d)"
    by (rule skip_ws_here [OF d2]) (use good_word_first [OF assms(2)] in auto)
  have e: "skip_ws b e = e" by (rule skip_ws_here [OF assms(1)]) (cases d; simp add: whitespace_def)
  have c: "char_at b e = hd (show_direction d)" using char_at_rest [OF assms(1)] by (cases d) simp_all
  have c1: "char_at b (Suc e) = (if d = Append then CHR ''>'' else hd (w @ r))"
  proof -
    have "drop (Suc e) b = tl (show_direction d) @ w @ r" using assms(1) by (cases d) (auto dest: at_rest)
    from char_at_rest [OF this] good_word_first(1) [OF assms(2), of r] show ?thesis by (cases d) auto
  qed
  have "hd (w @ r) \<noteq> CHR ''>''" using good_word_first(3) [OF assms(2), of r] by (auto simp: symbols_def)
  then have "token_at b e = (case d of Input \<Rightarrow> CHR ''<'' | Output \<Rightarrow> CHR ''>'' | Append \<Rightarrow> CHR ''+'', e + length (show_direction d))"
    using c c1 by (cases d) (simp_all add: token_at_def)
  then show thesis
    using that [of "case d of Input \<Rightarrow> CHR ''<'' | Output \<Rightarrow> CHR ''>'' | Append \<Rightarrow> CHR ''+''"] e sk
    by (cases d) (simp_all add: gettoken_def parseredirs_switch_def redircmd_def)
qed

lemma parseredirs_one:
  assumes "drop e b = show_direction d @ w @ r" "good_word w" "stops r"
  obtains f where "parseredirs b t e = Parsed (REDIR t f (open_mode d) (redirected_fd d)) (e + length (show_direction d @ w))"
    "text_at b f = w" "drop (e + length (show_direction d @ w)) b = r"
proof -
  let ?q = "e + length (show_direction d)"
  obtain tok where g: "gettoken b e = (tok, e, ?q, ?q)"
    and sw: "\<And>t q f. parseredirs_switch tok t q f = REDIR t (q, f) (open_mode d) (redirected_fd d)"
    using gettoken_direction [OF assms(1,2)] by blast
  have d2: "drop ?q b = w @ r" using drop_append_rest [OF assms(1)] .
  have d3: "drop (?q + length w) b = r" using drop_append_rest [OF d2] .
  have g2: "gettoken b ?q = (CHR ''a'', ?q, ?q + length w, ?q + length w)"
    using gettoken_here [OF d2 assms(2) stops_facts(2) [OF assms(3)]] skip_ws_here [OF d3 stops_facts(1) [OF assms(3)]] by simp
  have p: "peek b e ''<>'' = (True, e)" using peek_rest [OF assms(1), of "''<>''"] by (cases d) (auto simp: whitespace_def)
  have "parseredirs b t e = parseredirs b (REDIR t (?q, ?q + length w) (open_mode d) (redirected_fd d)) (?q + length w)"
    by (subst parseredirs.simps) (simp add: p g g2 sw)
  also have "\<dots> = Parsed (REDIR t (?q, ?q + length w) (open_mode d) (redirected_fd d)) (?q + length w)"
    by (rule parseredirs_none [OF d3 stops_facts(1) [OF assms(3)]]) (use assms(3) in auto)
  finally show thesis using that [of "(?q, ?q + length w)"] d2 d3 by (simp add: text_at_def add.assoc)
qed

lemma parses_Redirect:
  assumes "parses c" "printable c" "good_word w"
  shows "parses (Redirect c d w)"
  unfolding parses_def
proof (intro allI impI)
  fix b s r n
  assume a: "drop s b = show_command (Redirect c d w) @ r" "s \<le> length b" "stops r" "4 * (length b - s) + 4 \<le> n"
  define n1 where "n1 = n - 2"
  then have n: "n = Suc (Suc n1)" "4 * (length b - s) + 2 \<le> n1" using a(4) by simp_all
  have d: "drop s b = CHR ''('' # show_command c @ CHR '')'' # (show_direction d @ w @ r)" using a(1) by simp
  have nw: "not_ws (show_direction d @ w @ r)" by (cases d) (simp_all add: whitespace_def)
  let ?e = "s + length (show_command c) + 2"
  obtain t where t: "parseexec n1 b s = parseredirs b t ?e" "denotes b t c" "drop ?e b = show_direction d @ w @ r"
    using parseexec_block [OF assms(1,2) d nw n(2)] .
  obtain f where f: "parseredirs b t ?e = Parsed (REDIR t f (open_mode d) (redirected_fd d)) (?e + length (show_direction d @ w))"
    "text_at b f = w" "drop (?e + length (show_direction d @ w)) b = r"
    using parseredirs_one [OF t(3) assms(3) a(3)] .
  let ?z = "?e + length (show_direction d @ w)"
  have "peek b ?z ''|'' = (False, ?z)" using peek_rest [OF f(3) stops_facts(1) [OF a(3)], of "''|''"] a(3) by auto
  then have "parsepipe (Suc n1) b s = Parsed (REDIR t f (open_mode d) (redirected_fd d)) ?z"
    unfolding parsepipe.simps by (simp only: t(1) f(1) then_parse.simps prod.case if_False)
  from after_pipe [OF this f(3) a(3)] have "parseline n b s = Parsed (REDIR t f (open_mode d) (redirected_fd d)) ?z" unfolding n(1) .
  moreover have "?z = s + length (show_command (Redirect c d w))" by simp
  moreover have "denotes b (REDIR t f (open_mode d) (redirected_fd d)) (Redirect c d w)" using t(2) f(2) by simp
  ultimately show "\<exists>t. parseline n b s = Parsed t (s + length (show_command (Redirect c d w))) \<and> denotes b t (Redirect c d w)"
    by metis
qed

lemma parses_Pipeline:
  assumes "parses c" "printable c" "parses d" "printable d"
  shows "parses (Pipeline c d)"
  unfolding parses_def
proof (intro allI impI)
  fix b s r n
  assume a: "drop s b = show_command (Pipeline c d) @ r" "s \<le> length b" "stops r" "4 * (length b - s) + 4 \<le> n"
  define n1 where "n1 = n - 2"
  then have n: "n = Suc (Suc n1)" "4 * (length b - s) + 2 \<le> n1" using a(4) by simp_all
  let ?e = "s + length (show_command c) + 2"
  let ?z = "Suc ?e + length (show_command d) + 2"
  have d: "drop s b = CHR ''('' # show_command c @ CHR '')'' # (CHR ''|'' # CHR ''('' # show_command d @ CHR '')'' # r)" using a(1) by simp
  obtain t where t: "parseexec n1 b s = parseredirs b t ?e" "denotes b t c"
    "drop ?e b = CHR ''|'' # CHR ''('' # show_command d @ CHR '')'' # r"
    using parseexec_block [OF assms(1,2) d _ n(2)] by (auto simp: whitespace_def)
  have pr: "parseredirs b t ?e = Parsed t ?e" by (rule parseredirs_none [OF t(3)]) (simp_all add: whitespace_def)
  have p: "peek b ?e ''|'' = (True, ?e)" using peek_rest [OF t(3), of "''|''"] by (simp add: whitespace_def)
  have np: "next_pos b ?e = Suc ?e" by (rule next_pos_symbol(1) [OF t(3)]) (simp_all add: whitespace_def)
  have d2: "drop (Suc ?e) b = CHR ''('' # show_command d @ CHR '')'' # r" and l: "?e < length b" using at_rest [OF t(3)] by simp_all
  have "4 * (length b - Suc ?e) + 3 \<le> n1" using n(2) l by simp
  then obtain u where u: "parsepipe n1 b (Suc ?e) = Parsed u ?z" "denotes b u d" "drop ?z b = r"
    using parsepipe_block [OF assms(3,4) d2] a(3) by (metis list.set_intros(1))
  have "parsepipe (Suc n1) b s = Parsed (PIPE t u) ?z"
    unfolding parsepipe.simps by (simp only: t(1) pr p np u(1) then_parse.simps prod.case if_True pipecmd_def)
  from after_pipe [OF this u(3) a(3)] have "parseline n b s = Parsed (PIPE t u) ?z" unfolding n(1) .
  moreover have "?z = s + length (show_command (Pipeline c d))" by simp
  moreover have "denotes b (PIPE t u) (Pipeline c d)" using t(2) u(2) by simp
  ultimately show "\<exists>t. parseline n b s = Parsed t (s + length (show_command (Pipeline c d))) \<and> denotes b t (Pipeline c d)" by metis
qed

lemma parses_Sequence:
  assumes "parses c" "printable c" "parses d" "printable d"
  shows "parses (Sequence c d)"
  unfolding parses_def
proof (intro allI impI)
  fix b s r n
  assume a: "drop s b = show_command (Sequence c d) @ r" "s \<le> length b" "stops r" "4 * (length b - s) + 4 \<le> n"
  define n1 where "n1 = n - 1"
  then have n: "n = Suc n1" "4 * (length b - s) + 3 \<le> n1" using a(4) by simp_all
  let ?e = "s + length (show_command c) + 2"
  let ?z = "Suc ?e + length (show_command d) + 2"
  have d: "drop s b = CHR ''('' # show_command c @ CHR '')'' # (CHR '';'' # CHR ''('' # show_command d @ CHR '')'' # r)" using a(1) by simp
  obtain t where t: "parsepipe n1 b s = Parsed t ?e" "denotes b t c"
    "drop ?e b = CHR '';'' # CHR ''('' # show_command d @ CHR '')'' # r"
    using parsepipe_block [OF assms(1,2) d _ n(2)] by auto
  have p: "peek b ?e '';'' = (True, ?e)" "peek b ?e ''&'' = (False, ?e)"
    using peek_rest [OF t(3), of "'';''"] peek_rest [OF t(3), of "''&''"] by (simp_all add: whitespace_def)
  have am: "parseline_amps b t ?e = (t, ?e)" by (subst parseline_amps.simps) (simp only: p(2) prod.case if_False)
  have np: "next_pos b ?e = Suc ?e" by (rule next_pos_symbol(1) [OF t(3)]) (simp_all add: whitespace_def)
  have d2: "drop (Suc ?e) b = CHR ''('' # show_command d @ CHR '')'' # r" and l: "?e < length b" using at_rest [OF t(3)] by simp_all
  define n2 where "n2 = n1 - 1"
  then have n2: "n1 = Suc n2" "4 * (length b - Suc ?e) + 3 \<le> n2" using n(2) l by simp_all
  obtain u where u: "parsepipe n2 b (Suc ?e) = Parsed u ?z" "denotes b u d" "drop ?z b = r"
    using parsepipe_block [OF assms(3,4) d2 _ n2(2)] a(3) by (metis list.set_intros(1))
  from after_pipe [OF this(1,3) a(3)] have "parseline n1 b (Suc ?e) = Parsed u ?z" unfolding n2(1) .
  then have "parseline n b s = Parsed (LIST t u) ?z"
    unfolding n(1) parseline.simps by (simp only: t(1) am p(1) np then_parse.simps prod.case if_True listcmd_def)
  moreover have "?z = s + length (show_command (Sequence c d))" by simp
  moreover have "denotes b (LIST t u) (Sequence c d)" using t(2) u(2) by simp
  ultimately show "\<exists>t. parseline n b s = Parsed t (s + length (show_command (Sequence c d))) \<and> denotes b t (Sequence c d)" by metis
qed

lemma parses_Background:
  assumes "parses c" "printable c"
  shows "parses (Background c)"
  unfolding parses_def
proof (intro allI impI)
  fix b s r n
  assume a: "drop s b = show_command (Background c) @ r" "s \<le> length b" "stops r" "4 * (length b - s) + 4 \<le> n"
  define n1 where "n1 = n - 1"
  then have n: "n = Suc n1" "4 * (length b - s) + 3 \<le> n1" using a(4) by simp_all
  let ?e = "s + length (show_command c) + 2"
  have d: "drop s b = CHR ''('' # show_command c @ CHR '')'' # (CHR ''&'' # r)" using a(1) by simp
  obtain t where t: "parsepipe n1 b s = Parsed t ?e" "denotes b t c" "drop ?e b = CHR ''&'' # r"
    using parsepipe_block [OF assms(1,2) d _ n(2)] by auto
  note nw = stops_facts(1) [OF a(3)]
  have dr: "drop (Suc ?e) b = r" using at_rest [OF t(3)] by simp
  have np: "next_pos b ?e = Suc ?e" by (rule next_pos_symbol(1) [OF t(3) _ nw]) simp
  have p: "peek b ?e ''&'' = (True, ?e)" using peek_rest [OF t(3), of "''&''"] by (simp add: whitespace_def)
  have q: "peek b (Suc ?e) ''&'' = (False, Suc ?e)" "peek b (Suc ?e) '';'' = (False, Suc ?e)"
    using peek_rest [OF dr nw, of "''&''"] peek_rest [OF dr nw, of "'';''"] a(3) by auto
  have "parseline_amps b t ?e = parseline_amps b (BACK t) (Suc ?e)"
    by (subst parseline_amps.simps) (simp only: p np prod.case if_True backcmd_def)
  also have "\<dots> = (BACK t, Suc ?e)" by (subst parseline_amps.simps) (simp only: q(1) prod.case if_False)
  finally have "parseline n b s = Parsed (BACK t) (Suc ?e)"
    unfolding n(1) parseline.simps by (simp only: t(1) q(2) then_parse.simps prod.case if_False)
  moreover have "Suc ?e = s + length (show_command (Background c))" by simp
  moreover have "denotes b (BACK t) (Background c)" using t(2) by simp
  ultimately show "\<exists>t. parseline n b s = Parsed t (s + length (show_command (Background c))) \<and> denotes b t (Background c)" by metis
qed

lemma printable_parses: "printable c \<Longrightarrow> parses c"
  by (induction c) (simp_all add: parses_Simple parses_Redirect parses_Pipeline parses_Sequence parses_Background)

text \<open>C18: parsing inverts printing. A command whose words are not empty and contain neither whitespace nor symbols, with fewer than ten
  words in each simple command, is printed with its parts in parentheses; \<open>parsecmd\<close> accepts the line and the tree it builds stands
  for the command: same structure, same words, same redirections with their open modes and descriptors.\<close>

theorem parsecmd_show:
  assumes "printable c"
  shows "\<exists>t. parsecmd (show_command c) = Parsed t (length (show_command c)) \<and> denotes (show_command c) t c"
proof -
  let ?b = "show_command c"
  obtain t where t: "parseline (4 * length ?b + 4) ?b 0 = Parsed t (length ?b)" "denotes ?b t c"
    using parsesD [OF printable_parses [OF assms], of 0 ?b "[]"] by auto
  have "peek ?b (length ?b) [] = (False, length ?b)" using peek_rest [of "length ?b" ?b "[]" "[]"] by simp
  then show ?thesis using t by (simp add: parsecmd_def)
qed

theorem parsecmd_show_witness:
  "\<exists>t. parsecmd ''((ls -l)|(wc))>out'' = Parsed t 18 \<and>
     denotes ''((ls -l)|(wc))>out'' t (Redirect (Pipeline (Simple [''ls'', ''-l'']) (Simple [''wc''])) Output ''out'')"
  using parsecmd_show [of "Redirect (Pipeline (Simple [''ls'', ''-l'']) (Simple [''wc''])) Output ''out''"]
  by (simp add: good_word_def word_char_def whitespace_def symbols_def MAXARGS_def eval_nat_numeral)

end
