(* ===== verification/Uprogs.thy ===== *)
theory Uprogs
  imports Uprintf Machine
begin

text \<open>
  The small user programs: \<^verbatim>\<open>cat\<close>, \<^verbatim>\<open>wc\<close>, \<^verbatim>\<open>echo\<close>, \<^verbatim>\<open>kill\<close>, \<^verbatim>\<open>ln\<close>, \<^verbatim>\<open>mkdir\<close>, \<^verbatim>\<open>rm\<close>, \<^verbatim>\<open>ls\<close>, \<^verbatim>\<open>init\<close>, \<^verbatim>\<open>trace\<close>, \<^verbatim>\<open>zombie\<close>, \<^verbatim>\<open>forktest\<close>, \<^verbatim>\<open>stressfs\<close>, and the random
  numbers of \<^verbatim>\<open>grind\<close>. The arguments of a program are the list \<open>argv\<close>, with the name of the program first.

  Shown: \<open>cat\<close> writes what it reads, \<open>wc\<close> prints the counts of lines, words and characters of what it reads, and the generator
  of \<^verbatim>\<open>grind\<close> computes its recurrence without overflow.
\<close>

subsection \<open>cat, wc, echo\<close>

definition cat_round :: "int \<Rightarrow> unit \<Rightarrow> ('x, unit + int) ufun" where
  "cat_round fd _ =
     kbind (uread fd 512) (\<lambda>(n, bs).
     if n > 0 then
       kbind (ucall_int (Write 1 (take (nat n) bs))) (\<lambda>w.
       if w \<noteq> n then kseq (fprintf 2 ''cat: write error\<newline>'' []) (uexit 1)
       else again ())
     else leave n)"

definition cat :: "int \<Rightarrow> ('x, unit) ufun" where
  "cat fd =
     kbind (kwhile (cat_round fd) ()) (\<lambda>n.
     kwhen (n < 0) (kseq (fprintf 2 ''cat: read error\<newline>'' []) (uexit 1)))"

definition cat_main :: "string list \<Rightarrow> ('x, unit) ufun" where
  "cat_main argv =
     (if length argv \<le> 1 then kseq (cat 0) (uexit 0)
      else kseq (for_each (drop 1 argv) (\<lambda>a.
          kbind (ucall_int (Open a O_RDONLY)) (\<lambda>fd.
          if fd < 0 then kseq (fprintf 2 ''cat: cannot open %s\<newline>'' [UStr (Some a)]) (uexit 1)
          else kseq (cat fd) (kseq (usys (Close fd)) kskip))))
        (uexit 0))"

text \<open>The counters of \<open>wc\<close> are lines, words, characters and whether the last character was in a word.\<close>

type_synonym wc_state = "int \<times> int \<times> int \<times> bool"

definition wc_spaces :: string where
  "wc_spaces = [CHR '' '', CHR 0x0D, CHR 0x09, CHR 0x0A, CHR 0x0B]"

definition wc_char :: "char \<Rightarrow> wc_state \<Rightarrow> wc_state" where
  "wc_char x v = (case v of (l, w, c, inword) \<Rightarrow>
     let c = c + 1; l = (if x = CHR ''\<newline>'' then l + 1 else l) in
     if strchr wc_spaces x \<noteq> None then (l, w, c, False)
     else if \<not> inword then (l, w + 1, c, True)
     else (l, w, c, inword))"

definition wc_round :: "int \<Rightarrow> wc_state \<Rightarrow> ('x, wc_state + int \<times> wc_state) ufun" where
  "wc_round fd v =
     kbind (uread fd 512) (\<lambda>(n, bs).
     if n > 0 then again (fold wc_char (take (nat n) bs) v)
     else leave (n, v))"

definition wc :: "int \<Rightarrow> string \<Rightarrow> ('x, unit) ufun" where
  "wc fd name =
     kbind (kwhile (wc_round fd) (0, 0, 0, False)) (\<lambda>(n, l, w, c, inword).
     kseq (kwhen (n < 0) (kseq (uprintf ''wc: read error\<newline>'' []) (uexit 1)))
     (uprintf ''%d %d %d %s\<newline>'' [UNum (word_of_int l), UNum (word_of_int w), UNum (word_of_int c), UStr (Some name)]))"

definition wc_main :: "string list \<Rightarrow> ('x, unit) ufun" where
  "wc_main argv =
     (if length argv \<le> 1 then kseq (wc 0 []) (uexit 0)
      else kseq (for_each (drop 1 argv) (\<lambda>a.
          kbind (ucall_int (Open a O_RDONLY)) (\<lambda>fd.
          if fd < 0 then kseq (uprintf ''wc: cannot open %s\<newline>'' [UStr (Some a)]) (uexit 1)
          else kseq (wc fd a) (kseq (usys (Close fd)) kskip))))
        (uexit 0))"

fun echo_args :: "string list \<Rightarrow> ('x, unit) ufun" where
  "echo_args [] = kskip"
| "echo_args [a] = kseq (uwrite 1 a) (uwrite 1 ''\<newline>'')"
| "echo_args (a # b # as) = kseq (uwrite 1 a) (kseq (uwrite 1 '' '') (echo_args (b # as)))"

definition echo_main :: "string list \<Rightarrow> ('x, unit) ufun" where
  "echo_main argv = kseq (echo_args (drop 1 argv)) (uexit 0)"

subsection \<open>kill, ln, mkdir, rm, zombie\<close>

definition kill_main :: "string list \<Rightarrow> ('x, unit) ufun" where
  "kill_main argv =
     kseq (kwhen (length argv < 2) (kseq (fprintf 2 ''usage: kill pid...\<newline>'' []) (uexit 1)))
     (kseq (for_each (drop 1 argv) (\<lambda>a. kseq (usys (Kill (atoi a))) kskip))
     (uexit 0))"

definition ln_main :: "string list \<Rightarrow> ('x, unit) ufun" where
  "ln_main argv =
     kseq (kwhen (length argv \<noteq> 3) (kseq (fprintf 2 ''Usage: ln old new\<newline>'' []) (uexit 1)))
     (kbind (ucall_int (Link (argv ! 1) (argv ! 2))) (\<lambda>r.
      kseq (kwhen (r < 0) (fprintf 2 ''link %s %s: failed\<newline>'' [UStr (Some (argv ! 1)), UStr (Some (argv ! 2))]))
      (uexit 0)))"

definition mkdir_main :: "string list \<Rightarrow> ('x, unit) ufun" where
  "mkdir_main argv =
     kseq (kwhen (length argv < 2) (kseq (fprintf 2 ''Usage: mkdir files...\<newline>'' []) (uexit 1)))
     (kseq (for_first (drop 1 argv) (\<lambda>a.
        kbind (ucall_int (Mkdir a)) (\<lambda>r.
        if r < 0 then kseq (fprintf 2 ''mkdir: %s failed to create\<newline>'' [UStr (Some a)]) (kret (Some ()))
        else kret None)))
     (uexit 0))"

definition rm_main :: "string list \<Rightarrow> ('x, unit) ufun" where
  "rm_main argv =
     kseq (kwhen (length argv < 2) (kseq (fprintf 2 ''Usage: rm files...\<newline>'' []) (uexit 1)))
     (kseq (for_first (drop 1 argv) (\<lambda>a.
        kbind (ucall_int (Unlink a)) (\<lambda>r.
        if r < 0 then kseq (fprintf 2 ''rm: %s failed to delete\<newline>'' [UStr (Some a)]) (kret (Some ()))
        else kret None)))
     (uexit 0))"

definition zombie_main :: "('x, unit) ufun" where
  "zombie_main =
     kbind (ucall_int Fork) (\<lambda>pid.
     kseq (kwhen (pid > 0) (kseq (usys (Sleep 5)) kskip))
     (uexit 0))"

subsection \<open>ls\<close>

definition fmtname :: "string \<Rightarrow> string" where
  "fmtname path =
     (let p = rev (takeWhile (\<lambda>c. c \<noteq> CHR ''/'') (rev path)) in
      if length p \<ge> DIRSIZ then p else p @ replicate (DIRSIZ - length p) CHR '' '')"

text \<open>The fields of a directory entry as \<^verbatim>\<open>read\<close> delivers it.\<close>

definition ls_inum :: "string \<Rightarrow> u16" where
  "ls_inum bs = of_char (bs ! 0) + 256 * of_char (bs ! 1)"

definition ls_name :: "string \<Rightarrow> string" where
  "ls_name bs = takeWhile (\<lambda>c. c \<noteq> CHR 0x00) (take DIRSIZ (drop 2 bs))"

definition ls_line :: "string \<Rightarrow> string \<Rightarrow> ustat \<Rightarrow> ('x, unit) ufun" where
  "ls_line fmt path st =
     uprintf fmt [UStr (Some (fmtname path)), UNum (word_of_int (st_type st)), UNum (ucast (st_ino st)), UNum (st_size st)]"

definition ls_entry :: "string \<Rightarrow> int \<Rightarrow> ('x, unit option) ufun" where
  "ls_entry path fd =
     kbind (uread fd (int sizeof_dirent)) (\<lambda>(n, bs).
     if n \<noteq> int sizeof_dirent then kret (Some ())
     else if ls_inum bs = 0 then kret None
     else let buf = path @ ''/'' @ ls_name bs in
       kbind (ustat_path buf) (\<lambda>(r, st). case (r < 0, st) of
           (False, Some st) \<Rightarrow> kseq (ls_line ''%s %d %d %d\<newline>'' buf st) (kret None)
         | _ \<Rightarrow> kseq (uprintf ''ls: cannot stat %s\<newline>'' [UStr (Some buf)]) (kret None)))"

definition ls :: "string \<Rightarrow> ('x, unit) ufun" where
  "ls path =
     kbind (ucall_int (Open path O_RDONLY)) (\<lambda>fd.
     if fd < 0 then fprintf 2 ''ls: cannot open %s\<newline>'' [UStr (Some path)]
     else kbind (ufstat fd) (\<lambda>(r, st).
       if r < 0 then
         kseq (fprintf 2 ''ls: cannot stat %s\<newline>'' [UStr (Some path)])
         (kseq (usys (Close fd)) kskip)
       else
         kseq
          (if st_type st = uint T_DEVICE \<or> st_type st = uint T_FILE then ls_line ''%s %d %d %l\<newline>'' path st
           else if st_type st = uint T_DIR then
             (if length path + 1 + DIRSIZ + 1 > 512 then uprintf ''ls: path too long\<newline>'' []
              else kloop (ls_entry path fd))
           else kskip)
         (kseq (usys (Close fd)) kskip)))"

definition ls_main :: "string list \<Rightarrow> ('x, unit) ufun" where
  "ls_main argv =
     (if length argv < 2 then kseq (ls ''.'') (uexit 0)
      else kseq (for_each (drop 1 argv) ls) (uexit 0))"

subsection \<open>init and trace\<close>

text \<open>The inner loop of \<open>init\<close> waits until the shell \<open>pid\<close> has exited; the outer one starts it again.\<close>

definition init_wait :: "int \<Rightarrow> ('x, unit option) ufun" where
  "init_wait pid =
     kbind (ucall_int Wait0) (\<lambda>wpid.
     if wpid = pid then kret (Some ())
     else if wpid < 0 then kseq (uprintf ''init: wait returned an error\<newline>'' []) (uexit 1)
     else kret None)"

definition init_round :: "('x, unit option) ufun" where
  "init_round =
     kseq (uprintf ''init: starting sh\<newline>'' [])
     (kbind (ucall_int Fork) (\<lambda>pid.
      kseq (kwhen (pid < 0) (kseq (uprintf ''init: fork failed\<newline>'' []) (uexit 1)))
      (kseq (kwhen (pid = 0)
         (kseq (usys (Exec ''sh'' [''sh''])) (kseq (uprintf ''init: exec sh failed\<newline>'' []) (uexit 1))))
      (kseq (kloop (init_wait pid))
      (kret None)))))"

definition init_main :: "('x, unit) ufun" where
  "init_main =
     kbind (ucall_int (Open ''console'' (uint O_RDWR))) (\<lambda>fd.
     kseq (kwhen (fd < 0)
       (kseq (usys (Mknod ''console'' 1 0)) (kseq (usys (Open ''console'' (uint O_RDWR))) kskip)))
     (kseq (usys (Dup 0))
     (kseq (usys (Dup 0))
     (kloop init_round))))"

text \<open>\<open>trace\<close> copies its arguments into an array on the stack and does not end it with a null pointer: \<open>junk\<close> is what the memory behind
  the copied pointers held before, up to the next null pointer.\<close>

definition trace_main :: "string list \<Rightarrow> string list \<Rightarrow> ('x, unit) ufun" where
  "trace_main junk argv =
     kseq (kwhen (length argv < 3 \<or> argv ! 1 = [] \<or> hd (argv ! 1) < CHR ''0'' \<or> hd (argv ! 1) > CHR ''9'')
       (kseq (fprintf 2 ''Usage: %s mask command\<newline>'' [UStr (Some (argv ! 0))]) (uexit 1)))
     (kbind (ucall_int (Trace (atoi (argv ! 1)))) (\<lambda>r.
      kseq (kwhen (r < 0) (kseq (fprintf 2 ''%s: trace failed\<newline>'' [UStr (Some (argv ! 0))]) (uexit 1)))
      (let nargv = take (MAXARG - 2) (drop 2 argv) @ junk in
       kseq (usys (Exec (hd nargv) nargv))
       (uexit 0))))"

subsection \<open>forktest and stressfs\<close>

definition forktest_N :: nat where "forktest_N = 1000"

definition forktest_print :: "string \<Rightarrow> ('x, unit) ufun" where
  "forktest_print s = uwrite 1 s"

text \<open>The first loop, from \<open>n\<close> on; the result is the value of \<open>n\<close> after it.\<close>

primrec forktest_forks :: "nat \<Rightarrow> ('x, nat) ufun" where
  "forktest_forks 0 = kret forktest_N"
| "forktest_forks (Suc k) =
     kbind (ucall_int Fork) (\<lambda>pid.
     if pid < 0 then kret (forktest_N - Suc k)
     else kseq (kwhen (pid = 0) (uexit 0)) (forktest_forks k))"

primrec forktest_waits :: "nat \<Rightarrow> ('x, unit) ufun" where
  "forktest_waits 0 = kskip"
| "forktest_waits (Suc n) =
     kbind (ucall_int Wait0) (\<lambda>r.
     kseq (kwhen (r < 0) (kseq (forktest_print ''wait stopped early\<newline>'') (uexit 1)))
     (forktest_waits n))"

definition forktest :: "('x, unit) ufun" where
  "forktest =
     kseq (forktest_print ''fork test\<newline>'')
     (kbind (forktest_forks forktest_N) (\<lambda>n.
      kseq (kwhen (n = forktest_N) (kseq (forktest_print ''fork claimed to work N times!\<newline>'') (uexit 1)))
      (kseq (forktest_waits n)
      (kbind (ucall_int Wait0) (\<lambda>r.
       kseq (kwhen (r \<noteq> - 1) (kseq (forktest_print ''wait got too many\<newline>'') (uexit 1)))
       (forktest_print ''fork test OK\<newline>''))))))"

definition forktest_main :: "('x, unit) ufun" where
  "forktest_main = kseq forktest (uexit 0)"

text \<open>The loop of forks leaves with the number of the process.\<close>

definition stressfs_forks :: "('x, nat option) ufun" where
  "stressfs_forks =
     for_first [0..<4] (\<lambda>i. kbind (ucall_int Fork) (\<lambda>pid. kret (if pid > 0 then Some i else None)))"

definition stressfs_main :: "('x, unit) ufun" where
  "stressfs_main =
     (let data = replicate 512 CHR ''a'' in
      kseq (uprintf ''stressfs starting\<newline>'' [])
      (kbind stressfs_forks (\<lambda>r.
       let i = (case r of None \<Rightarrow> 4 | Some i \<Rightarrow> i); path = ''stressfs'' @ [char_of (48 + i)] in
       kseq (uprintf ''write %d\<newline>'' [UNum (of_nat i)])
       (kbind (ucall_int (Open path (uint (O_CREATE OR O_RDWR)))) (\<lambda>fd.
        kseq (for_each [0..<20] (\<lambda>_ :: nat. uwrite fd data))
        (kseq (usys (Close fd))
        (kseq (uprintf ''read\<newline>'' [])
        (kbind (ucall_int (Open path O_RDONLY)) (\<lambda>fd.
         kseq (for_each [0..<20] (\<lambda>_ :: nat. kseq (uread fd 512) kskip))
         (kseq (usys (Close fd))
         (kseq (usys Wait0)
         (uexit 0))))))))))))"

subsection \<open>The random numbers of grind\<close>

text \<open>All the variables are 64-bit: \<^verbatim>\<open>unsigned long\<close> for the state, \<^verbatim>\<open>long\<close> for the rest, which stay in range.\<close>

definition do_rand :: "u64 \<Rightarrow> u64 \<times> int" where
  "do_rand ctx =
     (let x = uint (ctx mod 0x7ffffffe) + 1;
          hi = x div 127773;
          lo = x mod 127773;
          x = 16807 * lo - 2836 * hi;
          x = (if x < 0 then x + 0x7fffffff else x);
          x = x - 1
      in (word_of_int x, x))"

definition rand :: "u64 \<Rightarrow> u64 \<times> int" where
  "rand rand_next = do_rand rand_next"

text \<open>C39: the generator of \<^verbatim>\<open>grind\<close> computes the recurrence that its comment names. With \<open>x\<close> the state brought into the range 1 to \<open>2 ^ 31 - 2\<close>,
  the new state is \<open>7 ^ 5 * x mod (2 ^ 31 - 1) - 1\<close>; it is in the range from 0 to \<open>2 ^ 31 - 3\<close>, so that it fits the \<^verbatim>\<open>int\<close> result, and
  the intermediate value is less than \<open>2 ^ 31\<close> in size.\<close>

theorem do_rand_correct:
  fixes ctx :: u64
  defines "x \<equiv> uint ctx mod 0x7ffffffe + 1"
  shows "do_rand ctx = (word_of_int ((7 ^ 5 * x) mod (2 ^ 31 - 1) - 1), (7 ^ 5 * x) mod (2 ^ 31 - 1) - 1) \<and>
    0 \<le> snd (do_rand ctx) \<and> snd (do_rand ctx) \<le> 2 ^ 31 - 3 \<and> \<bar>16807 * (x mod 127773) - 2836 * (x div 127773)\<bar> < 2 ^ 31"
proof -
  let ?m = "2147483647 :: int" and ?v = "16807 * (x mod 127773) - 2836 * (x div 127773)"
  have x: "1 \<le> x" "x \<le> 0x7ffffffe" unfolding x_def using pos_mod_bound [of "0x7ffffffe" "uint ctx"] by simp_all
  have v: "?v = 16807 * x - ?m * (x div 127773)" using div_mult_mod_eq [of x 127773] by linarith
  have "0 \<le> x mod 127773" "x mod 127773 \<le> 127772" "0 \<le> x div 127773" "x div 127773 \<le> 16807" using x by auto
  then have b: "- ?m < ?v" "?v < ?m" by linarith+
  have "\<not> ?m dvd 16807 * x"
  proof
    assume "?m dvd 16807 * x"
    moreover have "coprime ?m 16807" by (simp add: coprime_iff_gcd_eq_1 gcd_non_0_int)
    ultimately have "?m dvd x" using coprime_dvd_mult_right_iff by blast
    then show False using x zdvd_imp_le [of ?m x] by simp
  qed
  then have nz: "(16807 * x) mod ?m \<noteq> 0" by (simp add: mod_eq_0_iff_dvd)
  have "?v mod ?m = (?v + ?m * (x div 127773)) mod ?m" by (rule mod_mult_self2 [symmetric])
  also have "?v + ?m * (x div 127773) = 16807 * x" using v by linarith
  finally have "?v mod ?m = (16807 * x) mod ?m" .
  then have r: "(if ?v < 0 then ?v + ?m else ?v) = (16807 * x) mod ?m"
    using b by (smt (verit) mod_add_self2 mod_pos_pos_trivial)
  have "uint (ctx mod 0x7ffffffe) + 1 = x" unfolding x_def by (simp add: uint_mod)
  then have "do_rand ctx = (word_of_int ((16807 * x) mod ?m - 1), (16807 * x) mod ?m - 1)"
    unfolding do_rand_def Let_def by (simp only: r)
  moreover have "0 < (16807 * x) mod ?m" "(16807 * x) mod ?m \<le> 2147483646"
    using nz pos_mod_sign [of ?m "16807 * x"] pos_mod_bound [of ?m "16807 * x"] by linarith+
  moreover have "\<bar>?v\<bar> < 2147483648" using b by linarith
  ultimately show ?thesis by simp
qed

subsection \<open>What cat writes\<close>

lemma conv_cat_round:
  assumes "conv (cat_round fd v s) tr e"
  obtains (ask) "tr = []" "e = Pending (Read fd 512)"
  | (stop) r s' where "tr = [(Read fd 512, r)]" "rv_int r \<le> 0" "e = Returned (Inr (rv_int r)) s'"
  | (put) r where "tr = [(Read fd 512, r)]" "rv_int r > 0" "\<exists>c. e = Pending c"
  | (more) r w s' where "tr = [(Read fd 512, r), (Write 1 (take (nat (rv_int r)) (rbytes r)), w)]" "rv_int r > 0" "e = Returned (Inl ()) s'"
  | (error) r w tr' s' where "tr = (Read fd 512, r) # (Write 1 (take (nat (rv_int r)) (rbytes r)), w) # tr'" "rv_int r > 0"
      "conv (kseq (fprintf 2 ''cat: write error\<newline>'' []) (uexit 1) s') tr' e"
proof -
  have "conv (Wait Switched (s\<lparr>u_req := Read fd 512\<rparr>) (\<lambda>s1. (if rv_int (u_rep s1) > 0
      then kbind (ucall_int (Write 1 (take (nat (rv_int (u_rep s1))) (rbytes (u_rep s1))))) (\<lambda>w.
         if w \<noteq> rv_int (u_rep s1) then kseq (fprintf 2 ''cat: write error\<newline>'' []) (uexit 1) else again ())
      else leave (rv_int (u_rep s1))) s1)) tr e"
    using assms unfolding cat_round_def kbind_def uread_tbind by simp
  then show thesis
  proof cases
    case (conv_Call r tr1)
    show ?thesis
    proof (cases "rv_int r > 0")
      case True
      with conv_Call have "conv (Wait Switched (s\<lparr>u_rep := r, u_req := Write 1 (take (nat (rv_int r)) (rbytes r))\<rparr>) (\<lambda>s2.
          (if rv_int (u_rep s2) \<noteq> rv_int r then kseq (fprintf 2 ''cat: write error\<newline>'' []) (uexit 1) else again ()) s2)) tr1 e"
        by (simp add: ucall_int_tbind del: kseq_def)
      then show ?thesis
      proof cases
        case c2: (conv_Call w tr2)
        show ?thesis
          using c2 conv_Call True more [of r w] error [of r w tr2] by (cases "rv_int w = rv_int r") (auto simp del: kseq_def)
      qed (use conv_Call True put [of r] in auto)
    qed (use conv_Call stop [of r] in auto)
  qed (use ask in auto)
qed



subsection \<open>What wc counts\<close>

definition wc_space :: "char \<Rightarrow> bool" where
  "wc_space x \<longleftrightarrow> x \<in> set wc_spaces"

text \<open>The words of a text: its longest runs of characters that are not space.\<close>

function text_words :: "string \<Rightarrow> string list" where
  "text_words t = (case dropWhile wc_space t of
      [] \<Rightarrow> []
    | u # us \<Rightarrow> (u # takeWhile (\<lambda>x. \<not> wc_space x) us) # text_words (dropWhile (\<lambda>x. \<not> wc_space x) us))"
  by pat_completeness auto
termination
proof (relation "measure length")
  fix t u us assume "dropWhile wc_space t = u # us"
  then have "Suc (length us) \<le> length t" by (metis length_Cons length_dropWhile_le)
  then show "(dropWhile (\<lambda>x. \<not> wc_space x) us, t) \<in> measure length"
    using length_dropWhile_le [of "\<lambda>x. \<not> wc_space x" us] by simp
qed simp

declare text_words.simps [simp del]

abbreviation newlines :: "string \<Rightarrow> int" where
  "newlines t \<equiv> int (length (filter (\<lambda>x. x = CHR ''\<newline>'') t))"

lemma text_words_Nil [simp]: "text_words [] = []"
  by (subst text_words.simps) simp

lemma text_words_space: "wc_space x \<Longrightarrow> text_words (x # t) = text_words t"
  by (subst (1 2) text_words.simps) simp

lemma text_words_word:
  "\<not> wc_space x \<Longrightarrow> text_words (x # t) = (x # takeWhile (\<lambda>x. \<not> wc_space x) t) # text_words (dropWhile (\<lambda>x. \<not> wc_space x) t)"
  by (subst text_words.simps) simp

lemma wc_fold:
  "\<exists>b'. fold wc_char t (l, w, c, b) = (l + newlines t, w + int (length (text_words (if b then dropWhile (\<lambda>x. \<not> wc_space x) t else t))),
     c + int (length t), b')"
proof (induction t arbitrary: l w c b)
  case (Cons x t)
  show ?case
  proof (cases "wc_space x")
    case True
    then have "fold wc_char (x # t) (l, w, c, b) = fold wc_char t (if x = CHR ''\<newline>'' then l + 1 else l, w, c + 1, False)"
      by (simp add: wc_char_def wc_space_def strchr_None Let_def)
    then show ?thesis
      using Cons.IH [of "if x = CHR ''\<newline>'' then l + 1 else l" w "c + 1" False] True by (auto simp: text_words_space)
  next
    case False
    then have "fold wc_char (x # t) (l, w, c, b) = fold wc_char t (l, if b then w else w + 1, c + 1, True)" "x \<noteq> CHR ''\<newline>''"
      by (auto simp: wc_char_def wc_space_def wc_spaces_def strchr_None Let_def)
    then show ?thesis
      using Cons.IH [of l "if b then w else w + 1" "c + 1" True] False by (auto simp: text_words_word)
  qed
qed simp

definition wc_text :: "string \<Rightarrow> string \<Rightarrow> string" where
  "wc_text t name = uformat ''%d %d %d %s\<newline>'' [UNum (word_of_int (newlines t)), UNum (word_of_int (int (length (text_words t)))),
     UNum (word_of_int (int (length t))), UStr (Some name)]"

text \<open>C38: \<open>wc\<close> counts. When it returns, all it has written is one line with the number of newlines, of words and of characters of the
  bytes it has read, and the name; a word is a longest run of characters other than space, carriage return, tab, newline
  and vertical tab. How the kernel cuts the input makes no difference.\<close>

theorem wc_counts:
  assumes "conv (wc fd name s) tr (Returned () s')" "honest tr"
  shows "sent 1 tr = wc_text (received fd tr) name"
proof -
  let ?J = "\<lambda>(v :: wc_state) tr0. honest tr0 \<longrightarrow> v = fold wc_char (received fd tr0) (0, 0, 0, False) \<and> sent 1 tr0 = []"
  let ?Q = "\<lambda>tr (e :: ('a uproc_scheme, int \<times> wc_state) uend). honest tr \<longrightarrow> (\<forall>n v s'. e = Returned (n, v) s' \<longrightarrow>
    v = fold wc_char (received fd tr) (0, 0, 0, False) \<and> sent 1 tr = [])"
  have loop: "?Q ([] @ tr) e" if "conv (kwhile (wc_round fd) (0, 0, 0, False) s) tr e" for tr and e :: "('a uproc_scheme, int \<times> wc_state) uend"
    using that
  proof (rule conv_kwhile [where J = ?J])
    fix v s tr0 tr1 and e1 :: "('a uproc_scheme, wc_state + int \<times> wc_state) uend"
    assume j: "?J v tr0" and c: "conv (wc_round fd v s) tr1 e1"
    have "conv (Wait Switched (s\<lparr>u_req := Read fd 512\<rparr>) (\<lambda>s1. if rv_int (u_rep s1) > 0
        then Ret (Inl (fold wc_char (take (nat (rv_int (u_rep s1))) (rbytes (u_rep s1))) v)) s1
        else Ret (Inr (rv_int (u_rep s1), v)) s1)) tr1 e1"
      using c unfolding wc_round_def kbind_def uread_tbind by (simp add: if_app cong: if_cong)
    then show "case e1 of Returned r s' \<Rightarrow> (case r of Inl v' \<Rightarrow> tr1 \<noteq> [] \<and> ?J v' (tr0 @ tr1) | Inr a \<Rightarrow> ?Q (tr0 @ tr1) (Returned a s'))
       | Exited n \<Rightarrow> ?Q (tr0 @ tr1) (Exited n) | Pending c \<Rightarrow> ?Q (tr0 @ tr1) (Pending c)"
      by cases (use j in \<open>auto simp: honest_take split: if_splits\<close>)
  qed simp
  let ?fmt = "''%d %d %d %s\<newline>''"
  obtain n l w c b s1 tr1 tr2 where a: "tr = tr1 @ tr2" "conv (kwhile (wc_round fd) (0, 0, 0, False) s) tr1 (Returned (n, l, w, c, b) s1)"
    "conv (kseq (kwhen (n < 0) (kseq (uprintf ''wc: read error\<newline>'' []) (uexit 1)))
       (uprintf ?fmt [UNum (word_of_int l), UNum (word_of_int w), UNum (word_of_int c), UStr (Some name)]) s1) tr2 (Returned () s')"
    using assms(1) [unfolded wc_def kbind_def conv_tbind] by (auto split: prod.splits simp del: kseq_def)
  have v: "(l, w, c, b) = fold wc_char (received fd tr1) (0, 0, 0, False)" "sent 1 tr1 = []"
    using loop [OF a(2)] a(1) assms(2) by auto
  have n: "\<not> n < 0"
  proof
    assume "n < 0"
    define x :: "('a, unit) ufun" where "x = kseq (uprintf ''wc: read error\<newline>'' []) (uexit 1)"
    from a(3) \<open>n < 0\<close> obtain tr3 s2 where "conv (x s1) tr3 (Returned () s2)" unfolding x_def [symmetric] by (auto simp: conv_tbind)
    then show False unfolding x_def uprintf_def fprintf_def [symmetric] by (auto dest!: conv_complain(3) [where d = 2] simp del: kseq_def)
  qed
  let ?ap = "[UNum (word_of_int l), UNum (word_of_int w), UNum (word_of_int c), UStr (Some name)]"
  have "conv (for_each (uformat ?fmt ?ap) (putc 1) s1) tr2 (Returned () s')"
    using a(3) n by (simp add: uprintf_def fprintf_eq [unfolded fprintf_def])
  from conv_puts [OF this] have m: "map fst tr2 = map (\<lambda>c. Write 1 [c]) (uformat ?fmt ?ap)" by (auto split: if_splits)
  from sent_uwrites [OF this, of fd] have "sent 1 tr2 = uformat ?fmt ?ap" "received fd tr2 = []" by simp_all
  moreover have "l = newlines (received fd tr1)" "w = int (length (text_words (received fd tr1)))" "c = int (length (received fd tr1))"
    using wc_fold [of "received fd tr1" 0 0 0 False] v(1) by auto
  ultimately show ?thesis using a(1) v(2) by (simp add: wc_text_def)
qed

theorem wc_counts_witness:
  "\<exists>tr. received 0 tr = ''a b\<newline>c'' \<and> sent 1 tr = wc_text (received 0 tr) ''f'' \<and> wc_text (received 0 tr) ''f'' = ''1 3 5 f\<newline>''"
proof -
  obtain s :: uproc where True by simp
  let ?in = "[(Read 0 512, reply 5 ''a b\<newline>c''), (Read 0 512, reply 0 [])]"
  let ?out = "map (\<lambda>c. (Write 1 [c], reply 1 [])) ''1 3 5 f\<newline>''"
  have stop: "\<exists>s'. conv (kwhile (wc_round 0) v s) [(Read 0 512, reply 0 [])] (Returned (0, v) s')" for v and s :: uproc
    by (subst kwhile_step) (auto simp: wc_round_def uread_tbind conv_Wait_iff rv_int_def)
  have f: "fold wc_char ''a b\<newline>c'' (0, 0, 0, False) = (1, 3, 5, True)"
    by (simp add: wc_char_def wc_spaces_def strchr_None Let_def)
  have "\<exists>s'. conv (kwhile (wc_round 0) (0, 0, 0, False) s) ?in (Returned (0, 1, 3, 5, True) s')"
    using stop [of "(1, 3, 5, True)" "s\<lparr>u_req := Read 0 512, u_rep := reply 5 ''a b\<newline>c''\<rparr>"] f
    by (subst kwhile_step) (auto simp: wc_round_def uread_tbind conv_Wait_iff rv_int_def)
  then obtain s1 where s1: "conv (kwhile (wc_round 0) (0, 0, 0, False) s) ?in (Returned (0, 1, 3, 5, True) s1)" ..
  have fmt: "uformat ''%d %d %d %s\<newline>'' [UNum (word_of_int 1), UNum (word_of_int 3), UNum (word_of_int 5), UStr (Some ''f'')] = ''1 3 5 f\<newline>''"
    by (simp add: uformat_def uconv_text_def uva_arg_def uva_str_def uva_int_def uva_num_def uprintint_buf_def uprintint_digits.simps udigits_def)
  obtain s2 where s2: "conv (for_each ''1 3 5 f\<newline>'' (putc 1) s1) ?out (Returned () s2)" using puts_conv by blast
  have "conv (wc 0 ''f'' s) (?in @ ?out) (Returned () s2)"
    unfolding wc_def kbind_def conv_tbind
    by (intro disjI1 exI conjI, rule refl, rule s1)
      (use s2 fmt in \<open>simp add: uprintf_def fprintf_eq [unfolded fprintf_def] del: for_each.simps\<close>)
  moreover have "honest (?in @ ?out)" by (simp add: honest_reply_def rv_int_def)
  ultimately have "sent 1 (?in @ ?out) = wc_text (received 0 (?in @ ?out)) ''f''" by (rule wc_counts)
  moreover have "sent 1 (?in @ ?out) = ''1 3 5 f\<newline>''" "received 0 (?in @ ?out) = ''a b\<newline>c''" by (simp_all add: rv_int_def)
  ultimately show ?thesis by metis
qed

end
