(* ===== verification/Umalloc.thy ===== *)
theory Umalloc
  imports Ulib
begin

text \<open>
  The memory allocator of the user programs (\<^verbatim>\<open>user/umalloc.c\<close>), after Kernighan and Ritchie: a circular list of free blocks in the
  order of their addresses. A header is 16 bytes, a pointer and a size in headers; memory as the allocator sees it is the map from
  the addresses of headers to their two fields. The address of the static header \<^verbatim>\<open>base\<close> is a field of the state.

  Shown: \<open>free\<close> ends, keeps the list circular, ordered and free of adjacent blocks, and adds exactly the freed block to the free
  memory; \<open>malloc\<close> takes a block of the size asked for out of the free memory when there is one.
\<close>

subsection \<open>Definitions\<close>

record uheap = uproc +
  h_ptr :: "u64 \<Rightarrow> u64"
  h_size :: "u64 \<Rightarrow> u32"
  freep :: u64
  base :: u64

type_synonym ('x, 'a) heapfun = "('x uheap_scheme, 'a) kfun"

definition sizeof_Header :: u64 where "sizeof_Header = 16"

text \<open>The address \<open>n\<close> headers after \<open>p\<close>.\<close>

definition hdr_plus :: "u64 \<Rightarrow> u32 \<Rightarrow> u64" where
  "hdr_plus p n = p + sizeof_Header * ucast n"

definition set_ptr :: "u64 \<Rightarrow> u64 \<Rightarrow> 'x uheap_scheme \<Rightarrow> 'x uheap_scheme" where
  "set_ptr p q s = s\<lparr>h_ptr := (h_ptr s)(p := q)\<rparr>"

definition set_size :: "u64 \<Rightarrow> u32 \<Rightarrow> 'x uheap_scheme \<Rightarrow> 'x uheap_scheme" where
  "set_size p n s = s\<lparr>h_size := (h_size s)(p := n)\<rparr>"

text \<open>The loop of \<open>free\<close> that looks for the place of the block \<open>bp\<close>.\<close>

partial_function (option) free_search :: "(u64 \<Rightarrow> u64) \<Rightarrow> u64 \<Rightarrow> u64 \<Rightarrow> u64 option" where
  "free_search nxt bp p =
     (if bp > p \<and> bp < nxt p then Some p
      else if p \<ge> nxt p \<and> (bp > p \<or> bp < nxt p) then Some p
      else free_search nxt bp (nxt p))"

definition free_next :: "u64 \<Rightarrow> u64 \<Rightarrow> 'x uheap_scheme \<Rightarrow> 'x uheap_scheme" where
  "free_next bp p s =
     (let q = h_ptr s p in
      if hdr_plus bp (h_size s bp) = q
      then set_ptr bp (h_ptr s q) (set_size bp (h_size s bp + h_size s q) s)
      else set_ptr bp q s)"

definition free_prev :: "u64 \<Rightarrow> u64 \<Rightarrow> 'x uheap_scheme \<Rightarrow> 'x uheap_scheme" where
  "free_prev bp p s =
     (if hdr_plus p (h_size s p) = bp
      then set_ptr p (h_ptr s bp) (set_size p (h_size s p + h_size s bp) s)
      else set_ptr p bp s)"

definition ufree :: "u64 \<Rightarrow> ('x, unit) heapfun" where
  "ufree ap =
     (let bp = ap - sizeof_Header in
      kbind (gets (\<lambda>s. free_search (h_ptr s) bp (freep s))) (\<lambda>r.
      kbind (of_loop r) (\<lambda>p.
      kseq (modify (free_next bp p))
      (kseq (modify (free_prev bp p))
      (modify (\<lambda>s. s\<lparr>freep := p\<rparr>))))))"

text \<open>The argument of \<^verbatim>\<open>sbrk\<close> is an \<^verbatim>\<open>int\<close>, to which the 64-bit product is cut.\<close>

definition morecore :: "u32 \<Rightarrow> ('x, u64) heapfun" where
  "morecore nu0 =
     (let nu = (if nu0 < 4096 then 4096 else nu0) in
      kbind (usys (Sbrk (sint (ucast (ucast nu * sizeof_Header) :: u32)))) (\<lambda>r.
      let p = rv r in
      if p = - 1 then kret 0
      else
        kseq (modify (set_size p nu))
        (kseq (ufree (p + sizeof_Header))
        (gets freep))))"

definition malloc_units :: "u32 \<Rightarrow> u32" where
  "malloc_units nbytes = ucast ((ucast nbytes + sizeof_Header - 1) div sizeof_Header + 1)"

text \<open>Taking \<open>nunits\<close> out of the block \<open>p\<close>, and a round of the search.\<close>

definition malloc_take :: "u32 \<Rightarrow> u64 \<Rightarrow> u64 \<Rightarrow> ('x, u64) heapfun" where
  "malloc_take nunits prevp p =
     kbind (gets (\<lambda>s. h_size s p)) (\<lambda>sz.
     if sz = nunits then
       kseq (modify (\<lambda>s. set_ptr prevp (h_ptr s p) s))
       (kseq (modify (\<lambda>s. s\<lparr>freep := prevp\<rparr>))
       (kret (p + sizeof_Header)))
     else
       (let p1 = hdr_plus p (sz - nunits) in
        kseq (modify (set_size p (sz - nunits)))
        (kseq (modify (set_size p1 nunits))
        (kseq (modify (\<lambda>s. s\<lparr>freep := prevp\<rparr>))
        (kret (p1 + sizeof_Header))))))"

definition malloc_round :: "u32 \<Rightarrow> u64 \<times> u64 \<Rightarrow> ('x, u64 \<times> u64 + u64) heapfun" where
  "malloc_round nunits v = (case v of (prevp, p) \<Rightarrow>
     kbind (gets (\<lambda>s. h_size s p)) (\<lambda>sz.
     if sz \<ge> nunits then kbind (malloc_take nunits prevp p) leave
     else
       kbind (gets freep) (\<lambda>fp.
       kbind (if p = fp then morecore nunits else kret p) (\<lambda>p1.
       if p = fp \<and> p1 = 0 then leave 0
       else kbind (gets (\<lambda>s. h_ptr s p1)) (\<lambda>p2. again (p1, p2))))))"

definition malloc :: "u32 \<Rightarrow> ('x, u64) heapfun" where
  "malloc nbytes =
     (let nunits = malloc_units nbytes in
      kseq (kbind (gets freep) (\<lambda>fp.
        kwhen (fp = 0) (modify (\<lambda>s. set_size (base s) 0 (set_ptr (base s) (base s) (s\<lparr>freep := base s\<rparr>))))))
      (kbind (gets freep) (\<lambda>prevp.
       kbind (gets (\<lambda>s. h_ptr s prevp)) (\<lambda>p.
       kwhile (malloc_round nunits) (prevp, p)))))"

subsection \<open>The free list\<close>

text \<open>The first address of a list, or \<open>z\<close>; the blocks of a list chained one to the next and the last to \<open>z\<close>; each block ending before the
  next begins, and the last before \<open>t\<close>.\<close>

definition first_of :: "'a \<Rightarrow> 'a list \<Rightarrow> 'a" where
  "first_of z xs = (case xs of [] \<Rightarrow> z | x # _ \<Rightarrow> x)"

definition end_of :: "(u64 \<Rightarrow> u32) \<Rightarrow> u64 \<Rightarrow> nat" where
  "end_of sz a = unat a + 16 * unat (sz a)"

primrec chained :: "(u64 \<Rightarrow> u64) \<Rightarrow> u64 \<Rightarrow> u64 list \<Rightarrow> bool" where
  "chained nxt z [] = True"
| "chained nxt z (a # xs) = (nxt a = first_of z xs \<and> chained nxt z xs)"

primrec spaced :: "(u64 \<Rightarrow> u32) \<Rightarrow> nat \<Rightarrow> u64 list \<Rightarrow> bool" where
  "spaced sz t [] = True"
| "spaced sz t (a # xs) = (end_of sz a < first_of t (map unat xs) \<and> spaced sz t xs)"

lemma first_of_simps [simp]: "first_of z [] = z" "first_of z (x # xs) = x" "first_of z (map f (xs @ ys)) = first_of (first_of z (map f ys)) (map f xs)"
  "first_of z (xs @ ys) = first_of (first_of z ys) xs"
  by (auto simp: first_of_def split: list.splits)

lemma chained_append: "chained nxt z (xs @ ys) \<longleftrightarrow> chained nxt (first_of z ys) xs \<and> chained nxt z ys"
  by (induction xs) auto

lemma spaced_append: "spaced sz t (xs @ ys) \<longleftrightarrow> spaced sz (first_of t (map unat ys)) xs \<and> spaced sz t ys"
  by (induction xs) auto

lemma chained_cong: "(\<And>a. a \<in> set xs \<Longrightarrow> nxt a = nxt' a) \<Longrightarrow> chained nxt z xs = chained nxt' z xs"
  by (induction xs) auto

lemma spaced_cong: "(\<And>a. a \<in> set xs \<Longrightarrow> sz a = sz' a) \<Longrightarrow> spaced sz t xs = spaced sz' t xs"
  by (induction xs) (auto simp: end_of_def)

lemma spaced_order: "spaced sz t (a # xs) \<Longrightarrow> x \<in> set xs \<Longrightarrow> end_of sz a < unat x"
proof (induction xs arbitrary: a)
  case (Cons b xs)
  then show ?case by (cases "x = b") (auto simp: end_of_def intro: less_trans)
qed simp

lemma spaced_sorted: "spaced sz t xs \<Longrightarrow> sorted_wrt (<) xs"
proof (induction xs)
  case (Cons a xs)
  have "a < x" if "x \<in> set xs" for x
    using spaced_order [OF Cons.prems that] by (simp add: word_less_nat_alt end_of_def)
  then show ?case using Cons by simp
qed simp

lemma spaced_end: "spaced sz t xs \<Longrightarrow> a \<in> set xs \<Longrightarrow> end_of sz a < t"
proof (induction xs arbitrary: a)
  case (Cons b xs)
  show ?case
  proof (cases "a = b")
    case True
    show ?thesis
    proof (cases xs)
      case (Cons c list)
      then have "end_of sz b < unat c" "end_of sz c < t" using Cons.IH [of c] Cons.prems by auto
      then show ?thesis using True by (simp add: end_of_def)
    qed (use Cons.prems True in simp)
  qed (use Cons in simp)
qed simp

lemma spaced_apart:
  assumes "spaced sz t (us @ a # vs)"
  shows "x \<in> set us \<Longrightarrow> end_of sz x < unat a" "x \<in> set vs \<Longrightarrow> end_of sz a < unat x"
  using assms spaced_end [of sz "unat a" us x] spaced_order [of sz t a vs x] by (auto simp: spaced_append)

text \<open>Memory below \<open>2 ^ 36\<close>, so that the size of a block fits its 32 bits.\<close>

definition heap_top :: nat where "heap_top = 2 ^ 36"

definition heap_list :: "'x uheap_scheme \<Rightarrow> u64 list \<Rightarrow> bool" where
  "heap_list s xs \<longleftrightarrow> xs \<noteq> [] \<and> hd xs = base s \<and> chained (h_ptr s) (base s) xs \<and> spaced (h_size s) heap_top xs \<and>
     h_size s (base s) = 0 \<and> (\<forall>a \<in> set (tl xs). h_size s a \<noteq> 0) \<and> freep s \<in> set xs"

definition free_bytes :: "(u64 \<Rightarrow> u32) \<Rightarrow> u64 list \<Rightarrow> nat set" where
  "free_bytes sz xs = (\<Union>a \<in> set xs. {unat a ..< end_of sz a})"

subsection \<open>Finding the place of a block\<close>

lemma search_on:
  assumes "\<not> (p < bp \<and> bp < nxt p)" "\<not> (nxt p \<le> p \<and> (p < bp \<or> bp < nxt p))"
  shows "free_search nxt bp p = free_search nxt bp (nxt p)"
  by (subst free_search.simps) (simp only: assms if_False)

lemma search_here:
  assumes "chained nxt z (ds @ p # zs)" "sorted_wrt (<) (ds @ p # zs)" "\<forall>a \<in> set (ds @ [p]). a < bp" "\<forall>a \<in> set zs. bp < a" "z \<le> p"
  shows "free_search nxt bp (first_of p ds) = Some p"
  using assms
proof (induction ds)
  case Nil
  then show ?case by (cases zs) (auto simp: free_search.simps [of nxt bp p])
next
  case (Cons d ds)
  have n: "nxt d = first_of p ds" using Cons.prems(1) by simp
  have "first_of p ds \<in> set (ds @ [p])" by (cases ds) simp_all
  then have "first_of p ds < bp" "d < first_of p ds" using Cons.prems(2,3) by auto
  then have "free_search nxt bp d = free_search nxt bp (nxt d)" using n by (intro search_on) auto
  then show ?case using Cons n by simp
qed

lemma search_wraps:
  "chained nxt z (q # ws) \<Longrightarrow> sorted_wrt (<) (q # ws) \<Longrightarrow> bp < q \<Longrightarrow> z < bp \<Longrightarrow> free_search nxt bp q = free_search nxt bp z"
proof (induction ws arbitrary: q)
  case Nil
  then have "nxt q = z" "\<not> q < bp" "\<not> bp < z" by auto
  then show ?case using search_on [of q bp nxt] by simp
next
  case (Cons w ws)
  then have "nxt q = w" "\<not> q < bp" "\<not> w \<le> q" by auto
  then have "free_search nxt bp q = free_search nxt bp w" using search_on [of q bp nxt] by simp
  moreover have "free_search nxt bp w = free_search nxt bp z" by (rule Cons.IH) (use Cons.prems in auto)
  ultimately show ?case by simp
qed

lemma free_search_finds:
  assumes "chained nxt z (z # xs)" "sorted_wrt (<) (z # xs)" "z # xs = ys @ p # zs" "\<forall>a \<in> set (ys @ [p]). a < bp" "\<forall>a \<in> set zs. bp < a"
    and "q \<in> set (z # xs)"
  shows "free_search nxt bp q = Some p"
proof -
  have zp: "z \<le> p" using assms(2,3) by (cases ys) auto
  have fromz: "free_search nxt bp z = Some p"
    using search_here [of nxt z ys p zs bp] assms zp by (cases ys) auto
  from assms(6) consider "q = p" | "q \<in> set ys" | "q \<in> set zs" unfolding assms(3) by auto
  then show ?thesis
  proof cases
    case 1
    then show ?thesis using search_here [of nxt z "[]" p zs bp] assms zp by (simp add: chained_append sorted_wrt_append)
  next
    case 2
    then obtain us vs where "ys = us @ q # vs" by (metis split_list)
    then show ?thesis using search_here [of nxt z "q # vs" p zs bp] assms zp by (simp add: chained_append sorted_wrt_append)
  next
    case 3
    then obtain us vs where "zs = us @ q # vs" by (metis split_list)
    then have "free_search nxt bp q = free_search nxt bp z"
      using search_wraps [of nxt z q vs bp] assms zp by (auto simp: chained_append sorted_wrt_append)
    then show ?thesis using fromz by simp
  qed
qed

subsection \<open>Linking a block in\<close>

lemma hdr_plus_end:
  assumes "end_of sz a < heap_top"
  shows "unat (hdr_plus a (sz a)) = end_of sz a"
proof -
  have "unat (sz a) < 2 ^ 32" using unsigned_less [of "sz a"] by simp
  then have "unat (ucast (sz a) :: u64) = unat (sz a)" by (simp add: unsigned_ucast_eq take_bit_nat_eq_self)
  then show ?thesis using assms by (simp add: hdr_plus_def sizeof_Header_def end_of_def heap_top_def unat_word_ariths)
qed

lemma hdr_plus_eq: "end_of sz a < heap_top \<Longrightarrow> hdr_plus a (sz a) = q \<longleftrightarrow> end_of sz a = unat q"
  using hdr_plus_end by (metis word_unat_eq_iff)

lemma sum_of_sizes:
  assumes "end_of sz a = unat b" "end_of sz b < heap_top"
  shows "unat (sz a + sz b) = unat (sz a) + unat (sz b)"
proof -
  have "unat (sz a) + unat (sz b) < 2 ^ 32" using assms by (simp add: end_of_def heap_top_def)
  then show ?thesis by (simp add: unat_word_ariths)
qed

lemma free_bytes_simps [simp]:
  "free_bytes sz [] = {}" "free_bytes sz (a # xs) = {unat a ..< end_of sz a} \<union> free_bytes sz xs"
  "free_bytes sz (xs @ ys) = free_bytes sz xs \<union> free_bytes sz ys"
  by (auto simp: free_bytes_def)

lemma free_bytes_cong: "(\<And>a. a \<in> set xs \<Longrightarrow> sz a = sz' a) \<Longrightarrow> free_bytes sz xs = free_bytes sz' xs"
  by (auto simp: free_bytes_def end_of_def)

lemma free_next_links:
  fixes s :: "'x uheap_scheme" and bp p :: u64
  defines "s2 \<equiv> free_next bp p s"
  assumes "h_ptr s p = first_of b zs" "chained (h_ptr s) b zs" "spaced (h_size s) heap_top zs" "bp \<notin> set zs" "b < bp"
    and "end_of (h_size s) bp \<le> first_of (heap_top - 1) (map unat zs)" "h_size s bp \<noteq> 0"
  obtains zs2 where "set zs2 \<subseteq> set zs" "chained (h_ptr s2) b (bp # zs2)" "spaced (h_size s2) heap_top (bp # zs2)"
    "free_bytes (h_size s2) (bp # zs2) = free_bytes (h_size s) (bp # zs)" "h_size s2 bp \<noteq> 0"
    "\<And>a. a \<noteq> bp \<Longrightarrow> h_ptr s2 a = h_ptr s a \<and> h_size s2 a = h_size s a" "base s2 = base s"
proof -
  let ?sz = "h_size s"
  have top: "end_of ?sz bp < heap_top"
    using assms(7) spaced_end [OF assms(4), of "hd zs"] by (cases zs) (auto simp: heap_top_def end_of_def)
  note eq = hdr_plus_eq [OF top]
  show thesis
  proof (cases "zs \<noteq> [] \<and> end_of ?sz bp = unat (hd zs)")
    case True
    then obtain z zs' where z: "zs = z # zs'" "end_of ?sz bp = unat z" by (cases zs) auto
    then have zt: "end_of ?sz z < heap_top" using spaced_end [OF assms(4)] by simp
    have bz: "z \<noteq> bp" using assms(5) z by auto
    have s2: "h_ptr s2 = (h_ptr s)(bp := first_of b zs')" "h_size s2 = ?sz(bp := ?sz bp + ?sz z)" "base s2 = base s"
      using assms(2,3) z eq [of z] bz by (simp_all add: s2_def free_next_def set_ptr_def set_size_def)
    have e: "end_of (h_size s2) bp = end_of ?sz z"
      using sum_of_sizes [OF z(2) zt] z(2) s2 by (simp add: end_of_def)
    have nz: "?sz bp + ?sz z \<noteq> 0"
      using sum_of_sizes [OF z(2) zt] assms(8) by (metis add_is_0 unat_eq_zero)
    have sub: "chained (h_ptr s2) b zs' = chained (h_ptr s) b zs'" "spaced (h_size s2) heap_top zs' = spaced ?sz heap_top zs'"
      "free_bytes (h_size s2) zs' = free_bytes ?sz zs'"
      using assms(5) z s2 by (auto intro!: chained_cong spaced_cong free_bytes_cong)
    have "chained (h_ptr s2) b (bp # zs')" using s2 sub(1) assms(3) z by simp
    moreover have "spaced (h_size s2) heap_top (bp # zs')" using e sub(2) assms(4) z by simp
    moreover have "unat bp \<le> unat z" "unat z \<le> end_of ?sz z" using z(2) by (simp_all add: end_of_def)
    then have "free_bytes (h_size s2) (bp # zs') = free_bytes ?sz (bp # zs)"
      using z e sub(3) ivl_disj_un_two(3) [of "unat bp" "unat z" "end_of ?sz z"] by (simp add: Un_assoc [symmetric])
    moreover have "h_size s2 bp \<noteq> 0" using s2 nz by simp
    moreover have "set zs' \<subseteq> set zs" using z by auto
    moreover have "h_ptr s2 a = h_ptr s a \<and> h_size s2 a = h_size s a" if "a \<noteq> bp" for a using that s2 by simp
    ultimately show thesis using s2(3) by (intro that [of zs'])
  next
    case False
    then have "\<not> hdr_plus bp (?sz bp) = first_of b zs"
      using eq [of "first_of b zs"] assms(6) by (cases zs) (auto simp: end_of_def word_less_nat_alt)
    then have s2: "h_ptr s2 = (h_ptr s)(bp := first_of b zs)" "h_size s2 = ?sz" "base s2 = base s"
      using assms(2) by (simp_all add: s2_def free_next_def set_ptr_def)
    have sub: "chained (h_ptr s2) b zs = chained (h_ptr s) b zs" using assms(5) s2 by (auto intro!: chained_cong)
    have "chained (h_ptr s2) b (bp # zs)" using s2 sub assms(3) by simp
    moreover have "end_of ?sz bp < first_of heap_top (map unat zs)" using False assms(7) top by (cases zs) auto
    then have "spaced (h_size s2) heap_top (bp # zs)" using s2 assms(4) by simp
    ultimately show thesis by (rule that [of zs, OF subset_refl]) (use s2 assms(8) in simp_all)
  qed
qed

lemma free_prev_links:
  fixes s :: "'x uheap_scheme" and bp p :: u64
  defines "s3 \<equiv> free_prev bp p s"
  assumes "chained (h_ptr s) p ys" "spaced (h_size s) (unat p) ys" "chained (h_ptr s) b (bp # zs)" "spaced (h_size s) heap_top (bp # zs)"
    and "end_of (h_size s) p \<le> unat bp" "p < bp" "p \<notin> set ys" "p \<notin> set zs" "p = b \<Longrightarrow> h_size s p = 0"
  obtains ws where "set ws \<subseteq> set (bp # zs)" "chained (h_ptr s3) b (ys @ p # ws)" "spaced (h_size s3) heap_top (ys @ p # ws)"
    "free_bytes (h_size s3) (ys @ p # ws) = free_bytes (h_size s) (ys @ p # bp # zs)"
    "\<And>a. a \<noteq> p \<Longrightarrow> h_size s3 a = h_size s a" "p = b \<or> h_size s p = 0 \<or> h_size s3 p \<noteq> 0" "p = b \<Longrightarrow> h_size s3 p = 0" "base s3 = base s"
proof -
  let ?sz = "h_size s"
  have bt: "end_of ?sz bp < heap_top" using spaced_end [OF assms(5)] by simp
  have pt: "end_of ?sz p < heap_top" using assms(6) bt by (simp add: end_of_def)
  have pb: "p \<noteq> bp" using assms(7) by simp
  show thesis
  proof (cases "end_of ?sz p = unat bp")
    case True
    then have "p \<noteq> b" using assms(7,10) by (auto simp: end_of_def word_less_nat_alt)
    have s3: "h_ptr s3 = (h_ptr s)(p := first_of b zs)" "h_size s3 = ?sz(p := ?sz p + ?sz bp)" "base s3 = base s"
      using assms(4) hdr_plus_eq [OF pt, of bp] True by (simp_all add: s3_def free_prev_def set_ptr_def set_size_def)
    note sum = sum_of_sizes [OF True bt]
    have e: "end_of (h_size s3) p = end_of ?sz bp" using sum True s3 by (simp add: end_of_def)
    have nz: "?sz p = 0 \<or> ?sz p + ?sz bp \<noteq> 0" using sum by (metis add_is_0 unat_eq_zero)
    have keep: "chained (h_ptr s3) t us = chained (h_ptr s) t us" "spaced (h_size s3) n us = spaced ?sz n us"
      "free_bytes (h_size s3) us = free_bytes ?sz us" if "p \<notin> set us" for us t n
      using that s3 by (auto intro!: chained_cong spaced_cong free_bytes_cong)
    have "chained (h_ptr s3) b (ys @ p # zs)"
      using keep(1) [OF assms(8)] keep(1) [OF assms(9)] s3 assms(2,4) by (simp add: chained_append)
    moreover have "spaced (h_size s3) heap_top (ys @ p # zs)"
      using keep(2) [OF assms(8)] keep(2) [OF assms(9)] e assms(3,5) by (simp add: spaced_append)
    moreover have "unat p \<le> unat bp" "unat bp \<le> end_of ?sz bp" using True by (simp_all add: end_of_def)
    then have "free_bytes (h_size s3) (ys @ p # zs) = free_bytes ?sz (ys @ p # bp # zs)"
      using e True keep(3) [OF assms(8)] keep(3) [OF assms(9)] ivl_disj_un_two(3) [of "unat p" "unat bp" "end_of ?sz bp"]
      by (simp add: Un_assoc [symmetric])
    moreover have "set zs \<subseteq> set (bp # zs)" by auto
    ultimately show thesis by (intro that [of zs]) (use s3 nz \<open>p \<noteq> b\<close> in simp_all)
  next
    case False
    have s3: "h_ptr s3 = (h_ptr s)(p := bp)" "h_size s3 = ?sz" "base s3 = base s"
      using hdr_plus_eq [OF pt, of bp] False by (simp_all add: s3_def free_prev_def set_ptr_def)
    have keep: "chained (h_ptr s3) t us = chained (h_ptr s) t us" if "p \<notin> set us" for us t
      using that s3 by (auto intro!: chained_cong)
    have "p \<notin> set (bp # zs)" using pb assms(9) by simp
    then have "chained (h_ptr s3) b (ys @ p # bp # zs)"
      using keep [OF assms(8), of p] keep [of "bp # zs" b] s3 assms(2,4) by (simp add: chained_append)
    moreover have "end_of ?sz p < unat bp" using False assms(6) by simp
    then have "spaced (h_size s3) heap_top (ys @ p # bp # zs)" using s3 assms(3,5) by (simp add: spaced_append)
    ultimately show thesis by (rule that [of "bp # zs", OF subset_refl]) (use s3 assms(10) in simp_all)
  qed
qed

text \<open>The place of a block that does not overlap the free memory.\<close>

lemma heap_list_split:
  assumes "heap_list s xs" "base s < bp" "h_size s bp \<noteq> 0" "end_of (h_size s) bp < heap_top"
    and "{unat bp ..< end_of (h_size s) bp} \<inter> free_bytes (h_size s) xs = {}"
  obtains ys p zs where "xs = ys @ p # zs" "\<forall>a \<in> set (ys @ [p]). a < bp" "\<forall>a \<in> set zs. bp < a" "end_of (h_size s) p \<le> unat bp"
    "end_of (h_size s) bp \<le> first_of (heap_top - 1) (map unat zs)"
proof -
  let ?sz = "h_size s"
  have l: "xs \<noteq> []" "hd xs = base s" "spaced ?sz heap_top xs" "\<forall>a \<in> set (tl xs). ?sz a \<noteq> 0" using assms(1) by (simp_all add: heap_list_def)
  have pos: "unat bp < end_of ?sz bp" using assms(3) by (simp add: end_of_def unat_gt_0)
  have out: "unat a \<notin> {unat bp ..< end_of ?sz bp}" if "a \<in> set xs" "a \<noteq> base s" for a
  proof -
    have "?sz a \<noteq> 0" using l that by (cases xs) auto
    then have "unat a \<in> free_bytes ?sz xs" using that(1) by (auto simp: free_bytes_def end_of_def unat_gt_0)
    then show ?thesis using assms(5) by blast
  qed
  have before: "end_of ?sz a \<le> unat bp" if "a \<in> set xs" "a < bp" for a
  proof (rule ccontr)
    assume "\<not> ?thesis"
    then have "unat bp \<in> {unat a ..< end_of ?sz a}" using that(2) by (simp add: word_less_nat_alt)
    then have "unat bp \<in> free_bytes ?sz xs" using that(1) by (auto simp: free_bytes_def)
    then show False using assms(5) pos by auto
  qed
  define pre where "pre = takeWhile (\<lambda>a. a < bp) xs"
  define zs where "zs = dropWhile (\<lambda>a. a < bp) xs"
  have "pre \<noteq> []" using l(1,2) assms(2) by (cases xs) (simp_all add: pre_def)
  then have "butlast pre @ [last pre] @ zs = pre @ zs" by (metis append.assoc append_butlast_last_id)
  then have x: "xs = butlast pre @ last pre # zs" by (simp add: pre_def zs_def)
  have lt: "\<forall>a \<in> set (butlast pre @ [last pre]). a < bp"
    using \<open>pre \<noteq> []\<close> by (simp add: pre_def) (metis set_takeWhileD)
  have gt: "bp < a" if a: "a \<in> set zs" for a
  proof -
    have h: "zs \<noteq> []" using a by auto
    have "\<not> hd zs < bp" using hd_dropWhile [of "\<lambda>a. a < bp" xs] h unfolding zs_def by blast
    moreover have "hd zs = a \<or> hd zs < a"
      using spaced_sorted [OF l(3)] a h x by (metis sorted_wrt_append list.exhaust_sel set_ConsD sorted_wrt.simps(2))
    ultimately have "bp \<le> a" by auto
    moreover have "a \<in> set xs" using a x by (metis UnI2 set_append list.set_intros(2))
    then have "a \<noteq> bp" using out [of a] assms(2) pos by auto
    ultimately show ?thesis by simp
  qed
  have "end_of ?sz bp \<le> first_of (heap_top - 1) (map unat zs)"
  proof (cases zs)
    case (Cons z zs')
    then have "bp < z" "z \<in> set xs" using gt x by auto
    moreover from this have "z \<noteq> base s" using assms(2) by auto
    ultimately show ?thesis using out [of z] Cons by (simp add: word_less_nat_alt)
  qed (use assms(4) in simp)
  moreover have "last pre \<in> set xs" using x by (metis in_set_conv_decomp)
  ultimately show thesis using that [OF x lt] gt before [of "last pre"] lt by auto
qed

text \<open>C13: \<open>free\<close> is correct. Let the list of free blocks be in order and the block not overlap the free memory. Then \<open>free\<close> ends; the list is
  again circular, in the order of addresses and without adjacent blocks; and the free memory is what it was together with the
  freed block, header included.\<close>

theorem ufree_correct:
  fixes s :: "'x uheap_scheme"
  assumes "heap_list s xs" "base s < bp" "h_size s bp \<noteq> 0" "end_of (h_size s) bp < heap_top"
    and "{unat bp ..< end_of (h_size s) bp} \<inter> free_bytes (h_size s) xs = {}"
  shows "\<exists>s' xs'. ufree (bp + sizeof_Header) s = Ret () s' \<and> heap_list s' xs' \<and> base s' = base s \<and>
    free_bytes (h_size s') xs' = free_bytes (h_size s) xs \<union> {unat bp ..< end_of (h_size s) bp}"
proof -
  let ?b = "base s" and ?sz = "h_size s"
  have l: "xs = ?b # tl xs" "chained (h_ptr s) ?b xs" "spaced ?sz heap_top xs" "?sz ?b = 0" "\<forall>a \<in> set (tl xs). ?sz a \<noteq> 0" "freep s \<in> set xs"
    using assms(1) by (cases xs, auto simp: heap_list_def)
  obtain ys p zs where x: "xs = ys @ p # zs" "\<forall>a \<in> set (ys @ [p]). a < bp" "\<forall>a \<in> set zs. bp < a" "end_of ?sz p \<le> unat bp"
    "end_of ?sz bp \<le> first_of (heap_top - 1) (map unat zs)"
    by (rule heap_list_split [OF assms])
  note sorted = spaced_sorted [OF l(3)]
  have search: "free_search (h_ptr s) bp (freep s) = Some p"
    by (rule free_search_finds [of _ ?b "tl xs" ys p zs]) (use l x sorted in \<open>simp_all flip: l(1)\<close>)
  have p: "p \<notin> set ys" "p \<notin> set zs" "p < bp" "bp \<notin> set zs" "bp \<notin> set ys" using sorted x by (auto simp: sorted_wrt_append)
  define s2 where "s2 = free_next bp p s"
  obtain zs2 where s2: "set zs2 \<subseteq> set zs" "chained (h_ptr s2) ?b (bp # zs2)" "spaced (h_size s2) heap_top (bp # zs2)"
    "free_bytes (h_size s2) (bp # zs2) = free_bytes ?sz (bp # zs)" "h_size s2 bp \<noteq> 0"
    "\<And>a. a \<noteq> bp \<Longrightarrow> h_ptr s2 a = h_ptr s a \<and> h_size s2 a = ?sz a" "base s2 = ?b"
    unfolding s2_def
    by (rule free_next_links [of s p ?b zs bp]) (use l x p assms(2,3) in \<open>auto simp: chained_append spaced_append\<close>)
  have pb: "p = ?b \<longleftrightarrow> ys = []" using x(1) l(1) p(1) by (cases ys) auto
  have s2p: "h_size s2 p = ?sz p" using s2(6) [of p] p(3) by simp
  have ys2: "chained (h_ptr s2) p ys = chained (h_ptr s) p ys" "spaced (h_size s2) (unat p) ys = spaced ?sz (unat p) ys"
    "free_bytes (h_size s2) ys = free_bytes ?sz ys"
    using s2(6) p(5) by (metis chained_cong spaced_cong free_bytes_cong)+
  define s3 where "s3 = free_prev bp p s2"
  obtain ws where s3: "set ws \<subseteq> set (bp # zs2)" "chained (h_ptr s3) ?b (ys @ p # ws)" "spaced (h_size s3) heap_top (ys @ p # ws)"
    "free_bytes (h_size s3) (ys @ p # ws) = free_bytes (h_size s2) (ys @ p # bp # zs2)"
    "\<And>a. a \<noteq> p \<Longrightarrow> h_size s3 a = h_size s2 a" "p = ?b \<or> h_size s2 p = 0 \<or> h_size s3 p \<noteq> 0" "p = ?b \<Longrightarrow> h_size s3 p = 0"
    "base s3 = base s2"
    unfolding s3_def
    by (rule free_prev_links [of s2 p ys ?b bp zs2])
      (use l(2-4) x(1,4) p s2 s2p ys2 in \<open>auto simp: chained_append spaced_append end_of_def\<close>)
  let ?s = "s3\<lparr>freep := p\<rparr>"
  have "ufree (bp + sizeof_Header) s = Ret () ?s" by (simp add: ufree_def search s2_def s3_def)
  moreover have "heap_list ?s (ys @ p # ws)"
  proof -
    have "h_size s3 ?b = 0" using s3(5,7) s2(6) l(4) assms(2) by (cases "p = ?b") auto
    moreover have "h_size s3 a \<noteq> 0" if a: "a \<in> set (tl (ys @ p # ws))" for a
    proof -
      have "hd (ys @ p # ws) = ?b" using x(1) l(1) by (cases ys) simp_all
      then have "a \<noteq> ?b" using a spaced_sorted [OF s3(3)] by (cases ys) auto
      then have n: "a \<in> set xs \<Longrightarrow> ?sz a \<noteq> 0" using l(1,5) by (metis set_ConsD)
      have "a \<in> set ys \<or> a = p \<or> a = bp \<or> a \<in> set zs" using a s3(1) s2(1) list.set_sel(2) [of "ys @ p # ws" a] by auto
      then show ?thesis using n x(1) s3(5,6) s2(5,6) s2p p \<open>a \<noteq> ?b\<close> by (metis UnCI list.set_intros(1,2) set_append)
    qed
    ultimately show ?thesis using s3 s2(7) x(1) l(1) by (cases ys) (auto simp: heap_list_def)
  qed
  moreover have "free_bytes (h_size s3) (ys @ p # ws) = free_bytes ?sz xs \<union> {unat bp ..< end_of ?sz bp}"
    unfolding s3(4) x(1) using s2(4) ys2(3) s2p by (auto simp: end_of_def)
  ultimately show ?thesis using s3(8) s2(7) by auto
qed

text \<open>A heap with one free block of 4096 bytes, and a block of 256 bytes in use right after it.\<close>

definition sample_heap :: uheap where
  "sample_heap = \<lparr>u_req = Fork, u_rep = reply 0 [], h_ptr = (\<lambda>_. 0)(0x4000 := 0x5000, 0x5000 := 0x4000),
     h_size = (\<lambda>_. 0)(0x5000 := 256, 0x6000 := 16), freep = 0x4000, base = 0x4000\<rparr>"

lemma sample_heap_list:
  "heap_list sample_heap [0x4000, 0x5000]" "free_bytes (h_size sample_heap) [0x4000, 0x5000] = {0x5000 ..< 0x6000}"
  "end_of (h_size sample_heap) 0x6000 = 0x6100"
  by (simp_all add: heap_list_def sample_heap_def end_of_def heap_top_def)

theorem ufree_correct_witness:
  "\<exists>s' xs'. ufree 0x6010 sample_heap = Ret () s' \<and> heap_list s' xs' \<and> free_bytes (h_size s') xs' = {0x5000 ..< 0x6100}"
proof -
  have "{0x5000 ..< 0x6000} \<union> {0x6000 ..< 0x6100 :: nat} = {0x5000 ..< 0x6100}" by auto
  moreover have "base sample_heap < 0x6000" "h_size sample_heap 0x6000 \<noteq> 0" by (simp_all add: sample_heap_def)
  ultimately show ?thesis
    using ufree_correct [OF sample_heap_list(1), of "0x6000"] sample_heap_list(2,3) by (auto simp: heap_top_def sizeof_Header_def)
qed

subsection \<open>Allocation\<close>

text \<open>A turn around the list finds a block that is large enough, if there is one.\<close>

lemma malloc_search:
  fixes s :: "'x uheap_scheme"
  assumes "chained (h_ptr s) z (q # ws)" "last (q # ws) = freep s" "freep s \<notin> set (butlast (q # ws))" "h_ptr s prevp = q"
    and "\<exists>a \<in> set (q # ws). n \<le> h_size s a"
  shows "\<exists>prev a. prev \<in> set (prevp # q # ws) \<and> a \<in> set (q # ws) \<and> h_ptr s prev = a \<and> n \<le> h_size s a \<and>
    kwhile (malloc_round n) (prevp, q) s = malloc_take n prev a s"
  using assms
proof (induction ws arbitrary: prevp q)
  case Nil
  then have "kwhile (malloc_round n) (prevp, q) s = malloc_take n prevp q s"
    by (subst kwhile_step) (simp add: malloc_round_def malloc_take_def Let_def)
  then show ?case using Nil by auto
next
  case (Cons w ws)
  show ?case
  proof (cases "n \<le> h_size s q")
    case True
    then have "kwhile (malloc_round n) (prevp, q) s = malloc_take n prevp q s"
      by (subst kwhile_step) (simp add: malloc_round_def malloc_take_def Let_def)
    then show ?thesis using True Cons.prems(4) by auto
  next
    case False
    have q: "h_ptr s q = w" "q \<noteq> freep s" using Cons.prems(1,3) by auto
    then have "kwhile (malloc_round n) (prevp, q) s = kwhile (malloc_round n) (q, w) s"
      using False by (subst kwhile_step) (simp add: malloc_round_def)
    moreover have "\<exists>prev a. prev \<in> set (q # w # ws) \<and> a \<in> set (w # ws) \<and> h_ptr s prev = a \<and> n \<le> h_size s a \<and>
        kwhile (malloc_round n) (q, w) s = malloc_take n prev a s"
      by (rule Cons.IH) (use Cons.prems q False in auto)
    ultimately show ?thesis by auto
  qed
qed

lemma malloc_finds:
  fixes s :: "'x uheap_scheme"
  assumes "heap_list s xs" "\<exists>a \<in> set xs. n \<le> h_size s a" "n \<noteq> 0"
  obtains us prev a vs where "xs = us @ prev # a # vs" "n \<le> h_size s a"
    "kwhile (malloc_round n) (freep s, h_ptr s (freep s)) s = malloc_take n prev a s"
proof -
  let ?b = "base s" and ?f = "freep s"
  have l: "xs = ?b # tl xs" "chained (h_ptr s) ?b xs" "spaced (h_size s) heap_top xs" "h_size s ?b = 0" "?f \<in> set xs"
    using assms(1) by (cases xs, auto simp: heap_list_def)
  then obtain us vs where x: "xs = us @ ?f # vs" by (metis split_list)
  have dist: "distinct xs" using spaced_sorted [OF l(3)] by (simp add: strict_sorted_iff)
  have lk: "chained (h_ptr s) ?f us" "h_ptr s ?f = first_of ?b vs" "chained (h_ptr s) ?b vs" using l(2) x by (simp_all add: chained_append)
  obtain q ws where o: "vs @ us @ [?f] = q # ws" by (cases "vs @ us @ [?f]") auto
  have b: "first_of z (us @ [?f]) = ?b" for z using l(1) x by (cases us) auto
  have "chained (h_ptr s) (h_ptr s ?f) (q # ws)" unfolding o [symmetric] using lk b by (simp add: chained_append)
  moreover have "last (q # ws) = ?f" "?f \<notin> set (butlast (q # ws))"
    unfolding o [symmetric] using dist x by (simp_all add: butlast_append)
  moreover have "h_ptr s ?f = q"
    unfolding lk(2) using o b [of ?b] by (cases vs; cases us) auto
  moreover have set: "set (q # ws) = set xs" unfolding o [symmetric] x by auto
  ultimately obtain prev a where pa: "prev \<in> set (?f # q # ws)" "a \<in> set (q # ws)" "h_ptr s prev = a" "n \<le> h_size s a"
    "kwhile (malloc_round n) (?f, q) s = malloc_take n prev a s"
    using malloc_search [of s "h_ptr s ?f" q ws ?f n] assms(2) by auto
  have "a \<noteq> ?b" using pa(4) l(4) assms(3) by auto
  have "prev \<in> set xs" using pa(1) set l(5) by auto
  then obtain us' vs' where x': "xs = us' @ prev # vs'" by (metis split_list)
  then have "a = first_of ?b vs'" using l(2) pa(3) by (simp add: chained_append)
  then obtain vs'' where "vs' = a # vs''" using \<open>a \<noteq> ?b\<close> by (cases vs') auto
  then show thesis using that [of us' prev a vs''] x' pa(4,5) \<open>h_ptr s ?f = q\<close> by simp
qed

lemma malloc_units_eq: "unat (malloc_units nbytes) = (unat nbytes + 15) div 16 + 1"
proof -
  have "unat nbytes < 2 ^ 32" using unsigned_less [of nbytes] by simp
  then have "unat (ucast nbytes :: u64) = unat nbytes" by (simp add: unsigned_ucast_eq take_bit_nat_eq_self)
  then have "unat ((ucast nbytes + sizeof_Header - 1) div sizeof_Header + 1 :: u64) = (unat nbytes + 15) div 16 + 1"
    using \<open>unat nbytes < 2 ^ 32\<close> by (simp add: sizeof_Header_def unat_word_ariths unat_div)
  then show ?thesis
    using \<open>unat nbytes < 2 ^ 32\<close> unfolding malloc_units_def by (simp add: unsigned_ucast_eq take_bit_nat_eq_self)
qed

text \<open>Taking a whole block, and taking the end of a larger one.\<close>

lemma malloc_take_exact:
  fixes s :: "'x uheap_scheme"
  assumes "heap_list s (us @ prev # a # vs)" "h_size s a = n"
  defines "s' \<equiv> (set_ptr prev (h_ptr s a) s)\<lparr>freep := prev\<rparr>"
  shows "malloc_take n prev a s = Ret (a + sizeof_Header) s'" "heap_list s' (us @ prev # vs)"
proof -
  let ?b = "base s"
  have l: "hd (us @ prev # a # vs) = ?b" "chained (h_ptr s) ?b (us @ prev # a # vs)" "spaced (h_size s) heap_top (us @ prev # a # vs)"
    "h_size s ?b = 0" "\<forall>a \<in> set (tl (us @ prev # a # vs)). h_size s a \<noteq> 0" using assms(1) by (simp_all add: heap_list_def)
  have d: "prev \<notin> set us" "prev \<notin> set vs" using spaced_sorted [OF l(3)] by (auto simp: sorted_wrt_append)
  show "malloc_take n prev a s = Ret (a + sizeof_Header) s'" using assms(2) by (simp add: malloc_take_def s'_def)
  have "chained (h_ptr s') t xs = chained (h_ptr s) t xs" if "prev \<notin> set xs" for t xs
    using that by (auto intro!: chained_cong simp: s'_def set_ptr_def)
  then have "chained (h_ptr s') ?b (us @ prev # vs)" using l(2) d by (simp add: chained_append s'_def set_ptr_def)
  moreover have "end_of (h_size s) prev < first_of heap_top (map unat vs)"
    using l(3) spaced_end [OF l(3), of a] by (cases vs) (auto simp: spaced_append end_of_def)
  then have "spaced (h_size s) heap_top (us @ prev # vs)" using l(3) by (simp add: spaced_append)
  moreover have "hd (us @ prev # vs) = ?b" "set (tl (us @ prev # vs)) \<subseteq> set (tl (us @ prev # a # vs))" using l(1) by (cases us; auto)+
  ultimately show "heap_list s' (us @ prev # vs)" using l(4,5) unfolding heap_list_def by (auto simp: s'_def set_ptr_def)
qed

lemma malloc_take_split:
  fixes s :: "'x uheap_scheme"
  assumes "heap_list s (us @ prev # a # vs)" "n < h_size s a"
  defines "p \<equiv> hdr_plus a (h_size s a - n)"
  defines "s' \<equiv> (set_size p n (set_size a (h_size s a - n) s))\<lparr>freep := prev\<rparr>"
  shows "malloc_take n prev a s = Ret (p + sizeof_Header) s'" "heap_list s' (us @ prev # a # vs)"
    "unat p = unat a + 16 * unat (h_size s a - n)" "p \<notin> set (us @ prev # a # vs)"
proof -
  let ?b = "base s" and ?xs = "us @ prev # a # vs" and ?m = "h_size s a - n"
  have l: "hd ?xs = ?b" "chained (h_ptr s) ?b ?xs" "spaced (h_size s) heap_top ?xs"
    "h_size s ?b = 0" "\<forall>a \<in> set (tl ?xs). h_size s a \<noteq> 0" using assms(1) by (simp_all add: heap_list_def)
  show "malloc_take n prev a s = Ret (p + sizeof_Header) s'" using assms(2) by (auto simp: malloc_take_def s'_def p_def Let_def)
  have m: "unat ?m = unat (h_size s a) - unat n" "0 < unat ?m" "unat ?m \<le> unat (h_size s a)"
    using assms(2) by (simp_all add: unat_sub word_less_nat_alt word_le_nat_alt)
  have "end_of (\<lambda>_. ?m) a \<le> end_of (h_size s) a" using m by (simp add: end_of_def)
  then have "end_of (\<lambda>_. ?m) a < heap_top" using spaced_end [OF l(3), of a] by simp
  from hdr_plus_end [OF this] show u: "unat p = unat a + 16 * unat ?m" by (simp add: p_def end_of_def)
  note apart = spaced_apart [of "h_size s" heap_top "us @ [prev]" a vs]
  have "unat a < unat p" "unat p \<le> end_of (h_size s) a" using u m by (simp_all add: end_of_def)
  moreover have "p \<in> set (us @ [prev]) \<Longrightarrow> unat p < unat a" "p \<in> set vs \<Longrightarrow> end_of (h_size s) a < unat p"
    using apart [of p] l(3) by (simp_all add: end_of_def)
  ultimately have "p \<notin> set (us @ [prev])" "p \<noteq> a" "p \<notin> set vs" by (linarith, auto)
  then show out: "p \<notin> set ?xs" by simp
  have d: "a \<notin> set (us @ [prev])" "a \<notin> set vs" using spaced_sorted [OF l(3)] by (auto simp: sorted_wrt_append)
  have same: "h_size s' x = h_size s x" if "x \<in> set (us @ prev # vs)" for x
    using that d out by (auto simp: s'_def set_size_def)
  have "h_size s' a = ?m" using out by (auto simp: s'_def set_size_def)
  then have "end_of (h_size s') a \<le> end_of (h_size s) a" using m by (simp add: end_of_def)
  moreover have "spaced (h_size s') (unat a) (us @ [prev]) = spaced (h_size s) (unat a) (us @ [prev])"
    "spaced (h_size s') heap_top vs = spaced (h_size s) heap_top vs" using same by (auto intro!: spaced_cong)
  ultimately have "spaced (h_size s') heap_top ?xs"
    using l(3) spaced_append [of _ _ "us @ [prev]" "a # vs"] by auto
  moreover have "?b \<in> set (us @ prev # vs)" using l(1) by (cases us) auto
  then have "h_size s' ?b = 0" using same [of ?b] l(4) by simp
  moreover have "h_size s' x \<noteq> 0" if x: "x \<in> set (tl ?xs)" for x
  proof (cases "x = a")
    case True
    then show ?thesis using \<open>h_size s' a = ?m\<close> m(2) by auto
  next
    case False
    then have "x \<in> set (us @ prev # vs)" using x by (cases us) auto
    then show ?thesis using same [of x] l(5) x by auto
  qed
  moreover have "h_ptr s' = h_ptr s" "base s' = ?b" "freep s' = prev" by (simp_all add: s'_def set_size_def)
  ultimately show "heap_list s' ?xs" using l(1,2) by (simp add: heap_list_def)
qed

lemma free_bytes_apart:
  assumes "spaced sz t (us @ a # vs)"
  shows "free_bytes sz us \<inter> {unat a ..< end_of sz a} = {}" "free_bytes sz vs \<inter> {unat a ..< end_of sz a} = {}"
  using spaced_apart [OF assms] by (fastforce simp: free_bytes_def)+

lemma malloc_take_bytes:
  fixes s :: "'x uheap_scheme"
  assumes "heap_list s (us @ prev # a # vs)" "n \<le> h_size s a" "n \<noteq> 0"
  shows "\<exists>p s' xs'. malloc_take n prev a s = Ret (p + sizeof_Header) s' \<and> heap_list s' xs' \<and> base s' = base s \<and> h_size s' p = n \<and>
    {unat p ..< end_of (h_size s') p} \<subseteq> free_bytes (h_size s) (us @ prev # a # vs) \<and>
    free_bytes (h_size s') xs' = free_bytes (h_size s) (us @ prev # a # vs) - {unat p ..< end_of (h_size s') p}"
proof -
  have sp: "spaced (h_size s) heap_top ((us @ [prev]) @ a # vs)" using assms(1) by (simp add: heap_list_def)
  note apart = free_bytes_apart [OF sp]
  show ?thesis
  proof (cases "h_size s a = n")
    case True
    note t = malloc_take_exact [OF assms(1) True]
    show ?thesis
      by (rule exI [of _ a], rule exI, rule exI, rule conjI, rule t(1), rule conjI, rule t(2))
        (use apart True in \<open>auto simp: set_ptr_def\<close>)
  next
    case False
    then have "n < h_size s a" using assms(2) by simp
    note t = malloc_take_split [OF assms(1) this]
    let ?p = "hdr_plus a (h_size s a - n)"
    let ?s = "(set_size ?p n (set_size a (h_size s a - n) s))\<lparr>freep := prev\<rparr>"
    have e: "end_of (h_size ?s) a = unat ?p" "end_of (h_size ?s) ?p = end_of (h_size s) a" "unat a \<le> unat ?p" "unat ?p \<le> end_of (h_size s) a"
      using t(3,4) assms(2) by (auto simp: set_size_def end_of_def unat_sub word_le_nat_alt)
    have d: "a \<notin> set (us @ [prev])" "a \<notin> set vs" using spaced_sorted [OF sp] by (auto simp: sorted_wrt_append)
    have "free_bytes (h_size ?s) (us @ [prev]) = free_bytes (h_size s) (us @ [prev])" "free_bytes (h_size ?s) vs = free_bytes (h_size s) vs"
      by (rule free_bytes_cong; use d t(4) in \<open>auto simp: set_size_def\<close>)+
    then have b: "free_bytes (h_size ?s) (us @ prev # a # vs) = free_bytes (h_size s) (us @ [prev]) \<union> {unat a ..< unat ?p} \<union> free_bytes (h_size s) vs"
      using e(1) by auto
    show ?thesis
      by (rule exI [of _ ?p], rule exI, rule exI, rule conjI, rule t(1), rule conjI, rule t(2), unfold b e(2))
        (use apart e(3,4) in \<open>auto simp: set_size_def\<close>)
  qed
qed

text \<open>C14: If a free block is large enough, \<open>malloc\<close> returns the address after the header of a block of \<open>malloc_units nbytes\<close> headers, room
  for its own header and for \<open>nbytes\<close> bytes. The block was free memory, exactly it is taken out of the free memory, and the list of the
  rest is again circular, ordered and free of adjacent blocks.\<close>

theorem malloc_takes:
  fixes s :: "'x uheap_scheme"
  assumes "heap_list s xs" "freep s \<noteq> 0" "\<exists>a \<in> set xs. malloc_units nbytes \<le> h_size s a"
  shows "\<exists>p s' xs'. malloc nbytes s = Ret (p + sizeof_Header) s' \<and> heap_list s' xs' \<and>
    end_of (h_size s') p = unat p + 16 * unat (malloc_units nbytes) \<and>
    unat nbytes + unat sizeof_Header \<le> 16 * unat (malloc_units nbytes) \<and>
    {unat p ..< end_of (h_size s') p} \<subseteq> free_bytes (h_size s) xs \<and>
    free_bytes (h_size s') xs' = free_bytes (h_size s) xs - {unat p ..< end_of (h_size s') p}"
proof -
  have n: "unat (malloc_units nbytes) = (unat nbytes + 15) div 16 + 1" by (rule malloc_units_eq)
  then have "malloc_units nbytes \<noteq> 0" by auto
  then obtain us prev a vs where x: "xs = us @ prev # a # vs" "malloc_units nbytes \<le> h_size s a"
    "kwhile (malloc_round (malloc_units nbytes)) (freep s, h_ptr s (freep s)) s = malloc_take (malloc_units nbytes) prev a s"
    using malloc_finds assms(1,3) by metis
  have "malloc nbytes s = malloc_take (malloc_units nbytes) prev a s"
    using x(3) assms(2) by (simp add: malloc_def Let_def kwhen_def)
  then show ?thesis
    using malloc_take_bytes [of s us prev a vs "malloc_units nbytes"] assms(1) x \<open>malloc_units nbytes \<noteq> 0\<close> n
    by (fastforce simp: end_of_def sizeof_Header_def)
qed

theorem malloc_takes_witness:
  "\<exists>p s' xs'. malloc 100 sample_heap = Ret (p + sizeof_Header) s' \<and> heap_list s' xs' \<and> end_of (h_size s') p = unat p + 128 \<and>
    {unat p ..< unat p + 128} \<subseteq> {0x5000 ..< 0x6000} \<and> free_bytes (h_size s') xs' = {0x5000 ..< 0x6000} - {unat p ..< unat p + 128}"
proof -
  have "malloc_units 100 = 8" by code_simp
  moreover have "freep sample_heap \<noteq> 0" "\<exists>a \<in> set [0x4000, 0x5000]. (8 :: u32) \<le> h_size sample_heap a" by (simp_all add: sample_heap_def)
  ultimately show ?thesis
    using malloc_takes [OF sample_heap_list(1), of 100] sample_heap_list(2) by fastforce
qed

end
