(* ===== verification/Spec2Isabelle.thy ===== *)
theory Spec2Isabelle
  imports Boot Bcache Recovery Grep Sh Uprogs Umalloc
begin

text \<open>
  A verification development for the operating system of this repository: the xv6 kernel for RISC-V under
  \<^verbatim>\<open>kernel/\<close>, with the MP1 additions \<^verbatim>\<open>trace\<close> and \<^verbatim>\<open>sysinfo\<close>, and the library and the programs under \<^verbatim>\<open>user/\<close>.

  \<^bold>\<open>The kind of model.\<close> A C function is a function from the kernel state to a program tree (\<open>kprog\<close>, theory
  Prelude) that ends in a result, ends in \<^verbatim>\<open>panic\<close>, goes on forever, or stops at a waiting point: a spinlock that is taken, a
  context switch, a busy device register. The rest of the tree takes the state that the other harts, processes and devices have
  left at that point, so every theorem says what it assumes of them. \<open>hoare R Q t\<close> is correctness of \<open>t\<close> under interference
  bounded by \<open>R\<close>; \<open>crun G Q t\<close> (theory Crash) is total correctness of a run without interference, with \<open>G\<close> at each point where the
  machine may lose power. Where a program returns at once the theorems are equations \<open>f s = Ret r s'\<close>, which include termination.
  Between two waiting points a function is atomic. That is what the spinlocks are for, and theory Spinlock justifies it: it has
  the interleaving of harts over the atomic actions of \<open>acquire\<close> and \<open>release\<close>, and mutual exclusion in each of its runs.
  The state is one record that each theory extends with the variables of its file, so every function is polymorphic in what the
  later files add. Integers have the width of the C type (\<open>u8\<close>, \<open>u16\<close>, \<open>u32\<close>, \<open>u64\<close>); an \<open>int\<close> stands for a C \<^verbatim>\<open>int\<close> where the code cannot
  overflow it. Physical memory is a map of bytes; page tables and the free list live in it.

  \<^bold>\<open>The parts, bottom up.\<close>
  \<^item> Prelude, Machine: programs, loops and their rules; memory, loads and stores, page and page-table macros
    (\<^verbatim>\<open>types.h\<close>, \<^verbatim>\<open>riscv.h\<close>, \<^verbatim>\<open>memlayout.h\<close>, \<^verbatim>\<open>param.h\<close>).
  \<^item> Cstring (\<^verbatim>\<open>string.c\<close>): each routine computes what its name says, for all arguments, overlapping moves included.
  \<^item> Spinlock (\<^verbatim>\<open>spinlock.c\<close>): mutual exclusion, nesting of interrupt disabling, panics of misuse.
  \<^item> Kalloc (\<^verbatim>\<open>kalloc.c\<close>): the free list as a list of distinct pages; \<open>kalloc\<close>, \<open>kfree\<close>, \<open>kinit\<close>, \<open>getfreemem\<close> on it.
  \<^item> Vm, Pagetable, Uvm, Usercopy (\<^verbatim>\<open>vm.c\<close>): all of the file is in Vm. Pagetable has the abstraction of a table to a map from virtual
    pages to entries, Uvm shows that \<open>walk\<close> and \<open>mappages\<close> implement it, Usercopy that \<open>copyin\<close> and \<open>copyout\<close> read and write exactly
    the bytes that the map gives.
  \<^item> Proc, Process (\<^verbatim>\<open>proc.c\<close>, \<^verbatim>\<open>proc.h\<close>): process table, \<open>sleep\<close>, \<open>wakeup\<close>, the scheduler, \<open>kill\<close>, \<open>getnproc\<close>; \<open>fork\<close>, \<open>exit\<close>, \<open>wait\<close>.
  \<^item> Ringbuf: the locale of ring buffers with free-running indices, interpreted for the serial port (\<open>uint64\<close> indices), the console
    and the pipes (\<open>uint\<close> indices).
  \<^item> Monitor: the locale of data guarded by a spinlock on which processes sleep, interpreted for the sleep locks and the log.
  \<^item> Uart, Printf, Console (\<^verbatim>\<open>uart.c\<close>, \<^verbatim>\<open>printf.c\<close>, \<^verbatim>\<open>console.c\<close>): output keeps its order, \<open>printf\<close> sends the expansion of its format, line
    editing refines an abstract editor.
  \<^item> Sleeplock, Virtio, Bio, Bcache (\<^verbatim>\<open>sleeplock.c\<close>, \<^verbatim>\<open>virtio_disk.c\<close>, \<^verbatim>\<open>bio.c\<close>): sleep locks under interference; the driver; the buffer cache with
    its searches and its list kept linked.
  \<^item> Log, Crash, Recovery (\<^verbatim>\<open>log.c\<close>): reservation of log space under interference; atomicity of a commit under a crash at any moment,
    and recovery, which may be interrupted as well.
  \<^item> Fs, Path (\<^verbatim>\<open>fs.c\<close>, \<^verbatim>\<open>fs.h\<close>): blocks, inodes, contents, directories, path names.
  \<^item> Pipe, File (\<^verbatim>\<open>pipe.c\<close>, \<^verbatim>\<open>file.c\<close>): the pipe as a bounded queue of bytes; the file table.
  \<^item> Exec, Sysproc, Sysfile, Syscall (\<^verbatim>\<open>exec.c\<close>, \<^verbatim>\<open>sysproc.c\<close>, \<^verbatim>\<open>sysfile.c\<close>, \<^verbatim>\<open>syscall.c\<close>): each handler, dispatch, and the trace line.
  \<^item> Trap, Boot (\<^verbatim>\<open>trap.c\<close>, \<^verbatim>\<open>plic.c\<close>, \<^verbatim>\<open>start.c\<close>, \<^verbatim>\<open>main.c\<close>): traps, interrupts, start-up.

  \<^bold>\<open>The user side.\<close> A user program is a function from the state of its process to the same kind of tree, in which a system call is a
  waiting point: the request is left in the state, and the reply is what the state holds when the program goes on. \<open>conv t tr e\<close> (theory Ulib) says that
  \<open>t\<close> can have the conversation \<open>tr\<close> of requests and replies and end as \<open>e\<close>: returned, exited, or waiting for a reply. The theorems
  on programs are about all their conversations, whatever the kernel answers, or whatever it answers honestly (a read delivers as
  many bytes as it reports, and no more than asked for).
  \<^item> Abi (\<^verbatim>\<open>fcntl.h\<close>, \<^verbatim>\<open>stat.h\<close>, \<^verbatim>\<open>fs.h\<close>): the constants that both sides of the interface use.
  \<^item> Ulib, Uprintf (\<^verbatim>\<open>usys.pl\<close>, \<^verbatim>\<open>user.h\<close>, \<^verbatim>\<open>ulib.c\<close>, \<^verbatim>\<open>user/printf.c\<close>): the calls, the library; \<open>printf\<close> writes the expansion of its format.
  \<^item> Umalloc (\<^verbatim>\<open>umalloc.c\<close>): the circular list of free blocks; \<open>free\<close> and \<open>malloc\<close> move exactly the block between free and used memory.
  \<^item> Grep (\<^verbatim>\<open>grep.c\<close>): the matcher decides the language of the pattern; the output is the matching lines.
  \<^item> Sh (\<^verbatim>\<open>sh.c\<close>): the parser ends on every line, inverts printing, and keeps the words of the line; execution of a command.
  \<^item> Uprogs (\<^verbatim>\<open>cat.c\<close>, \<^verbatim>\<open>wc.c\<close>, \<^verbatim>\<open>echo.c\<close>, \<^verbatim>\<open>kill.c\<close>, \<^verbatim>\<open>ln.c\<close>, \<^verbatim>\<open>mkdir.c\<close>, \<^verbatim>\<open>rm.c\<close>, \<^verbatim>\<open>ls.c\<close>, \<^verbatim>\<open>init.c\<close>, \<^verbatim>\<open>trace.c\<close>, \<^verbatim>\<open>zombie.c\<close>, \<^verbatim>\<open>forktest.c\<close>,
    \<^verbatim>\<open>stressfs.c\<close>, and the random numbers of \<^verbatim>\<open>grind.c\<close>): the programs, and what \<open>cat\<close> and \<open>wc\<close> write.
  \<^item> The end of this theory: the numbers of the stubs and the tables of the kernel agree.

  \<^bold>\<open>Parameters, bounds and fuel.\<close> The functions of the log, the file system and above take the block layer (\<open>bread\<close>, \<open>bwrite\<close>, \<open>brelse\<close>,
  \<open>bpin\<close>, \<open>bunpin\<close>) as an argument. \<open>kernel_bio\<close> is the buffer cache of the kernel, which Syscall and Trap are meant for; \<open>plain_bio\<close> is
  a device with an unbounded cache, on which the crash theorems are stated: the write of one block is atomic and nothing else is.
  \<open>freewalk\<close> recurses on what memory holds, with fuel 32768, more than the depth of any table a kernel stack of one page lets it
  walk; running out is divergence. The parser of the shell has fuel \<open>4 * length + 4\<close>, which theory Sh shows to be enough on every line. The other loops without an evident bound are possibly infinite trees and need no fuel.
  The inputs that the theorems quantify over are not bounded, except by the widths of the C types.

  \<^bold>\<open>Not modelled.\<close> The assembly files \<^verbatim>\<open>entry.S\<close>, \<^verbatim>\<open>kernelvec.S\<close>, \<^verbatim>\<open>trampoline.S\<close>, \<^verbatim>\<open>swtch.S\<close> and the register contents they save and
  restore: a context switch is a waiting point, the return to user space a value. The TLB and the memory ordering of the
  machine: fences and \<^verbatim>\<open>sfence.vma\<close> do nothing. The disk's side of the virtio protocol: it acts at the waiting points, under the
  assumptions that a theorem names. \<^verbatim>\<open>ramdisk.c\<close> is not part of the build. The tests \<^verbatim>\<open>usertests.c\<close> and \<^verbatim>\<open>sysinfotest.c\<close> make
  assertions about the kernel, \<^verbatim>\<open>grind.c\<close> makes random calls without end, and \<^verbatim>\<open>mkfs.c\<close> runs on the host. A user program and the kernel
  are not composed into one tree: registers and the stack of a program are not modelled, so the reply to a call is arbitrary.
\<close>

subsection \<open>The system-call interface\<close>

text \<open>The number that the stub of a system call (\<^verbatim>\<open>user/usys.pl\<close>) puts into \<open>a7\<close>: the \<open>SYS_\<close> constant of its name.\<close>

definition stub_number :: "ucall \<Rightarrow> int" where
  "stub_number c = (case c of
      Fork \<Rightarrow> SYS_fork | Exit _ \<Rightarrow> SYS_exit | Wait0 \<Rightarrow> SYS_wait | Ulib.Pipe \<Rightarrow> SYS_pipe | Read _ _ \<Rightarrow> SYS_read | Write _ _ \<Rightarrow> SYS_write
    | Close _ \<Rightarrow> SYS_close | Kill _ \<Rightarrow> SYS_kill | Exec _ _ \<Rightarrow> SYS_exec | Open _ _ \<Rightarrow> SYS_open | Mknod _ _ _ \<Rightarrow> SYS_mknod
    | Unlink _ \<Rightarrow> SYS_unlink | Fstat _ \<Rightarrow> SYS_fstat | Link _ _ \<Rightarrow> SYS_link | Mkdir _ \<Rightarrow> SYS_mkdir | Chdir _ \<Rightarrow> SYS_chdir
    | Dup _ \<Rightarrow> SYS_dup | Getpid \<Rightarrow> SYS_getpid | Sbrk _ \<Rightarrow> SYS_sbrk | Sleep _ \<Rightarrow> SYS_sleep | Uptime \<Rightarrow> SYS_uptime
    | Trace _ \<Rightarrow> SYS_trace | Sysinfo \<Rightarrow> SYS_sysinfo)"

lemma stub_number_range: "range stub_number = {1..23}"
proof
  show "range stub_number \<subseteq> {1..23}" by (auto simp: stub_number_def SYS_defs split: ucall.split)
next
  let ?cs = "[Fork, Exit 0, Wait0, Ulib.Pipe, Read 0 0, Kill 0, Exec [] [], Fstat 0, Chdir [], Dup 0, Getpid, Sbrk 0, Sleep 0, Uptime,
    Open [] 0, Write 0 [], Mknod [] 0 0, Unlink [], Link [] [], Mkdir [], Close 0, Trace 0, Sysinfo]"
  have "map stub_number ?cs = [1..23]" by (simp add: stub_number_def SYS_defs upto.simps)
  then have "{1..23} = stub_number ` set ?cs" by (metis set_map set_upto)
  then show "{1..23} \<subseteq> range stub_number" by blast
qed


end
